(* ===== verification/Prelude.thy ===== *)
theory Prelude
  imports Main "HOL-Library.Word"
begin

text \<open>
  Shared ground of the development: the machine types of the C++ sources, the values that
  stand for C++ exceptions and for undefined behaviour, the state-and-exception plumbing in
  which every mutating member function is written, big-endian integers, and the generic
  list lemmas about overwriting a part of a memory block.
\<close>

section \<open>Machine types\<close>

type_synonym u8 = "8 word"
type_synonym u16 = "16 word"
type_synonym u32 = "32 word"
type_synonym u64 = "64 word"
type_synonym bytes = "u8 list"

named_theorems result_simps \<open>rewriting of the exception plumbing\<close>
named_theorems mem_simps \<open>rewriting of memory blocks\<close>

section \<open>Exceptions and undefined behaviour\<close>

text \<open>
  The constructors name the C++ exception classes the sources throw, with their message.
  \<open>Overrun\<close> is no exception of the program: it marks what C++ leaves undefined, an access outside the
  storage an object owns (or, in one place, a signed overflow); \<open>Diverged\<close> marks a loop that did not end within its
  fuel, \<open>Terminated\<close> an exception that leaves a \<^verbatim>\<open>noexcept\<close> function. A theorem that an operation returns \<open>Inr\<close>
  is therefore also a theorem that it stays inside its memory.
\<close>

datatype cpp_error =
    RuntimeError string
  | RangeError string
  | OverflowError string
  | InvalidArgument string
  | ReaderError string
  | LengthError string
  | Overrun
  | Diverged
  | Terminated

type_synonym 'a result = "cpp_error + 'a"

text \<open>
  A member function takes the object and returns its result or the exception, together with
  the object as it is afterwards: an exception does not undo the writes before it.
\<close>

type_synonym ('s, 'a) op = "'s \<Rightarrow> 'a result \<times> 's"

definition ret :: "'a \<Rightarrow> ('s, 'a) op" where
  "ret x = (\<lambda>s. (Inr x, s))"

definition throw :: "cpp_error \<Rightarrow> ('s, 'a) op" where
  "throw e = (\<lambda>s. (Inl e, s))"

definition seq :: "('s, 'a) op \<Rightarrow> ('a \<Rightarrow> ('s, 'b) op) \<Rightarrow> ('s, 'b) op" where
  "seq f g = (\<lambda>s. case f s of (Inl e, t) \<Rightarrow> (Inl e, t) | (Inr x, t) \<Rightarrow> g x t)"

definition andthen :: "('s, unit) op \<Rightarrow> ('s, 'b) op \<Rightarrow> ('s, 'b) op" where
  "andthen f g = seq f (\<lambda>_. g)"

primrec for_each :: "('a \<Rightarrow> ('s, unit) op) \<Rightarrow> 'a list \<Rightarrow> ('s, unit) op" where
  "for_each f [] = ret ()"
| "for_each f (x # xs) = andthen (f x) (for_each f xs)"

text \<open>Errors after which there is no program left to catch them.\<close>

fun fatal :: "cpp_error \<Rightarrow> bool" where
  "fatal Overrun = True"
| "fatal Diverged = True"
| "fatal Terminated = True"
| "fatal _ = False"

text \<open>\<^verbatim>\<open>try { f } catch (const exception &e) { h }\<close>, and a function declared \<^verbatim>\<open>noexcept\<close>.\<close>

definition catching :: "('s, 'a) op \<Rightarrow> (cpp_error \<Rightarrow> ('s, 'a) op) \<Rightarrow> ('s, 'a) op" where
  "catching f h s =
     (case f s of
        (Inl e, t) \<Rightarrow> if fatal e then (Inl e, t) else h e t
      | r \<Rightarrow> r)"

definition noexcept :: "('s, 'a) op \<Rightarrow> ('s, 'a) op" where
  "noexcept f = catching f (\<lambda>e. throw Terminated)"

definition ok :: "'a result \<times> 's \<Rightarrow> bool" where
  "ok r \<longleftrightarrow> (case fst r of Inl _ \<Rightarrow> False | Inr _ \<Rightarrow> True)"

lemma ret_apply [simp, result_simps]: "ret x s = (Inr x, s)"
  by (simp add: ret_def)

lemma throw_apply [simp, result_simps]: "throw e s = (Inl e, s)"
  by (simp add: throw_def)

lemma seq_Inr [result_simps]: "f s = (Inr x, t) \<Longrightarrow> seq f g s = g x t"
  by (simp add: seq_def)

lemma seq_Inl [result_simps]: "f s = (Inl e, t) \<Longrightarrow> seq f g s = (Inl e, t)"
  by (simp add: seq_def)

lemma andthen_Inr [result_simps]: "f s = (Inr (), t) \<Longrightarrow> andthen f g s = g t"
  by (simp add: andthen_def seq_def)

lemma andthen_Inl [result_simps]: "f s = (Inl e, t) \<Longrightarrow> andthen f g s = (Inl e, t)"
  by (simp add: andthen_def seq_def)

lemma seq_cases:
  assumes "seq f g s = (r, t)"
  obtains (raised) e where "f s = (Inl e, t)" and "r = Inl e"
    | (returned) x u where "f s = (Inr x, u)" and "g x u = (r, t)"
  using assms by (auto simp: seq_def split: prod.splits sum.splits)

lemma andthen_cases:
  assumes "andthen f g s = (r, t)"
  obtains (raised) e where "f s = (Inl e, t)" and "r = Inl e"
    | (returned) u where "f s = (Inr (), u)" and "g u = (r, t)"
  using assms unfolding andthen_def by (rule seq_cases) auto

lemma noexcept_Inr [result_simps]: "f s = (Inr x, t) \<Longrightarrow> noexcept f s = (Inr x, t)"
  by (simp add: noexcept_def catching_def)

lemma noexcept_Inl [result_simps]: "f s = (Inl e, t) \<Longrightarrow> noexcept f s = (Inl (if fatal e then e else Terminated), t)"
  by (simp add: noexcept_def catching_def throw_def)

lemma ok_simps [simp]: "ok (Inr x, s)" "\<not> ok (Inl e, s)"
  by (simp_all add: ok_def)

lemma for_each_cong [fundef_cong]:
  "xs = ys \<Longrightarrow> (\<And>x. x \<in> set ys \<Longrightarrow> f x = g x) \<Longrightarrow> for_each f xs = for_each g ys"
  by (induction xs arbitrary: ys) auto

lemma for_each_append:
  "for_each f (xs @ ys) = andthen (for_each f xs) (for_each f ys)"
  by (induction xs) (auto simp: andthen_def seq_def fun_eq_iff split: prod.splits sum.splits)

section \<open>Big-endian integers\<close>

text \<open>The base-256 digits of a number, most significant first, and the number they denote.\<close>

primrec to_be :: "nat \<Rightarrow> nat \<Rightarrow> bytes" where
  "to_be 0 n = []"
| "to_be (Suc k) n = to_be k (n div 256) @ [of_nat (n mod 256)]"

definition of_be :: "bytes \<Rightarrow> nat" where
  "of_be bs = foldl (\<lambda>a b. a * 256 + unat b) 0 bs"

lemma unat_byte_lt: "unat (b :: u8) < 256"
  using unsigned_less [of b] by simp

lemma length_to_be [simp]: "length (to_be k n) = k"
  by (induction k arbitrary: n) auto

lemma of_be_snoc: "of_be (bs @ [b]) = of_be bs * 256 + unat b"
  by (simp add: of_be_def)

lemma of_be_Nil [simp]: "of_be [] = 0"
  by (simp add: of_be_def)

lemma unat_byte_digit: "unat (of_nat (n mod 256) :: u8) = n mod 256"
  by (simp add: unat_of_nat take_bit_eq_mod)

lemma of_be_to_be: "n < 256 ^ k \<Longrightarrow> of_be (to_be k n) = n"
proof (induction k arbitrary: n)
  case 0
  then show ?case by simp
next
  case (Suc k)
  then have "n div 256 < 256 ^ k"
    by (simp add: less_mult_imp_div_less)
  with Suc.IH show ?case
    by (simp add: of_be_snoc unat_byte_digit)
qed

lemma of_be_bound: "of_be bs < 256 ^ length bs"
proof (induction bs rule: rev_induct)
  case Nil
  then show ?case by simp
next
  case (snoc b bs)
  have "unat b < 256" by (rule unat_byte_lt)
  with snoc show ?case by (simp add: of_be_snoc)
qed

lemma to_be_of_be: "to_be (length bs) (of_be bs) = bs"
proof (induction bs rule: rev_induct)
  case Nil
  then show ?case by simp
next
  case (snoc b bs)
  have "unat b < 256" by (rule unat_byte_lt)
  with snoc show ?case by (simp add: of_be_snoc)
qed

lemma to_be_byte [simp]: "to_be 1 (unat b) = [b]" "to_be (Suc 0) (unat b) = [b]"
  using unat_byte_lt [of b] by simp_all

section \<open>Memory blocks\<close>

definition overwrite :: "nat \<Rightarrow> 'a list \<Rightarrow> 'a list \<Rightarrow> 'a list" where
  "overwrite i bs m = take i m @ bs @ drop (i + length bs) m"

lemma length_overwrite [simp]:
  "i + length bs \<le> length m \<Longrightarrow> length (overwrite i bs m) = length m"
  by (simp add: overwrite_def)

lemma take_overwrite_end [mem_simps]:
  "i + length bs \<le> length m \<Longrightarrow> take (i + length bs) (overwrite i bs m) = take i m @ bs"
  by (simp add: overwrite_def)

lemma take_overwrite_before [mem_simps]:
  "k \<le> i \<Longrightarrow> i \<le> length m \<Longrightarrow> take k (overwrite i bs m) = take k m"
  by (simp add: overwrite_def min_absorb1)

lemma drop_overwrite_after [mem_simps]:
  "i + length bs \<le> k \<Longrightarrow> k \<le> length m \<Longrightarrow> drop k (overwrite i bs m) = drop k m"
  by (simp add: overwrite_def)

lemma take_overwrite_inside:
  "i + length bs \<le> n \<Longrightarrow> n \<le> length m \<Longrightarrow> take n (overwrite i bs m) = overwrite i bs (take n m)"
  by (simp add: overwrite_def min_absorb1 drop_take)

lemma overwrite_append_mid:
  "length ys = length bs \<Longrightarrow> overwrite (length xs) bs (xs @ ys @ zs) = xs @ bs @ zs"
  by (simp add: overwrite_def)

lemma overwrite_nth:
  assumes "i + length bs \<le> length m" and "k < length m"
  shows "overwrite i bs m ! k = (if i \<le> k \<and> k < i + length bs then bs ! (k - i) else m ! k)"
  using assms by (auto simp: overwrite_def nth_append min_def)

lemma overwrite_adjacent:
  assumes "i + length xs + length ys \<le> length m"
  shows "overwrite (i + length xs) ys (overwrite i xs m) = overwrite i (xs @ ys) m"
proof (rule nth_equalityI)
  show "length (overwrite (i + length xs) ys (overwrite i xs m)) = length (overwrite i (xs @ ys) m)"
    using assms by simp
  fix k
  assume "k < length (overwrite (i + length xs) ys (overwrite i xs m))"
  with assms show "overwrite (i + length xs) ys (overwrite i xs m) ! k = overwrite i (xs @ ys) m ! k"
    by (auto simp: overwrite_nth nth_append)
qed

end
