(* ===== verification/Misc.thy ===== *)
theory Misc
  imports Prelude "HOL-Library.Char_ord"
begin

text \<open>\<^verbatim>\<open>misc.cpp\<close>: the hex dump that error messages carry.\<close>

definition hexmap :: string where
  "hexmap = ''0123456789abcdef''"

definition dump_sep :: "int option \<Rightarrow> nat \<Rightarrow> char" where
  "dump_sep p c =
     (case p of
        None \<Rightarrow> CHR '' ''
      | Some q \<Rightarrow> if int c = q - 1 then CHR ''>'' else if int c = q then CHR ''<'' else CHR '' '')"

text \<open>
  \<^verbatim>\<open>hex_dump\<close>: the bytes, their offset \<open>c\<close>, the marked position relative to the first byte.
  The counter \<^verbatim>\<open>cnt\<close> is \<open>c + 1\<close>.
\<close>

fun dump_from :: "int option \<Rightarrow> nat \<Rightarrow> bytes \<Rightarrow> string" where
  "dump_from p c [] = ''''"
| "dump_from p c (b # bs) =
     [hexmap ! (unat b div 16), hexmap ! (unat b mod 16), dump_sep p c]
     @ (if (c + 1) mod 16 = 0 then [CHR 0x0A] else if (c + 1) mod 8 = 0 then '' '' else '''')
     @ dump_from p (c + 1) bs"

definition hex_dump :: "bytes \<Rightarrow> int option \<Rightarrow> string" where
  "hex_dump bs p = dump_from p 0 bs"

section \<open>Reading a dump\<close>

definition digit_of :: "char \<Rightarrow> nat option" where
  "digit_of ch = find (\<lambda>k. hexmap ! k = ch) [0 ..< 16]"

fun undump :: "nat list \<Rightarrow> bytes" where
  "undump (h # l # ds) = of_nat (16 * h + l) # undump ds"
| "undump _ = []"

lemma digit_of_hexmap: "k < 16 \<Longrightarrow> digit_of (hexmap ! k) = Some k"
proof -
  assume "k < 16"
  then have "k \<in> set [0 ..< 16]" by simp
  moreover have "\<forall>k \<in> set [0 ..< 16]. digit_of (hexmap ! k) = Some k"
    unfolding digit_of_def hexmap_def by code_simp
  ultimately show ?thesis by blast
qed

lemma digit_of_sep:
  "digit_of (CHR '' '') = None" "digit_of (CHR ''<'') = None" "digit_of (CHR ''>'') = None"
  "digit_of CHR 0x0A = None"
  unfolding digit_of_def hexmap_def by code_simp+

lemma digit_dump_sep: "digit_of (dump_sep p c) = None"
  by (auto simp: dump_sep_def digit_of_sep split: option.splits)

lemma undump_dump_from: "undump (List.map_filter digit_of (dump_from p c bs)) = bs"
proof (induction bs arbitrary: c)
  case Nil
  then show ?case by (simp add: map_filter_simps)
next
  case (Cons b bs)
  have b: "unat b < 2 ^ LENGTH(8)" by (rule unsigned_less)
  then have "unat b div 16 < 16" "unat b mod 16 < 16" by simp_all
  moreover have "16 * (unat b div 16) + unat b mod 16 = unat b" by simp
  ultimately show ?case
    using Cons.IH [of "c + 1"]
    by (simp add: map_filter_simps digit_of_hexmap digit_dump_sep digit_of_sep)
qed

text \<open>What stands between the two marks.\<close>

definition marked :: "string \<Rightarrow> string" where
  "marked d = takeWhile (\<lambda>c. c \<noteq> CHR ''<'') (tl (dropWhile (\<lambda>c. c \<noteq> CHR ''>'') d))"

lemma dump_append: "dump_from p c (xs @ ys) = dump_from p c xs @ dump_from p (c + length xs) ys"
  by (induction xs arbitrary: c) simp_all

lemma hexmap_no_mark: "k < 16 \<Longrightarrow> hexmap ! k \<noteq> CHR ''<'' \<and> hexmap ! k \<noteq> CHR ''>''"
  using digit_of_hexmap [of k] digit_of_sep by force

lemma byte_digits: "unat (b :: u8) div 16 < 16" "unat b mod 16 < 16" "16 * (unat b div 16) + unat b mod 16 = unat b"
  using unat_byte_lt [of b] by simp_all

lemma byte_no_mark [simp]:
  "hexmap ! (unat (b :: u8) div 16) \<noteq> CHR ''<''" "hexmap ! (unat b div 16) \<noteq> CHR ''>''"
  "hexmap ! (unat b mod 16) \<noteq> CHR ''<''" "hexmap ! (unat b mod 16) \<noteq> CHR ''>''"
  using hexmap_no_mark byte_digits [of b] by blast+

lemmas byte_no_mark' [simp] = byte_no_mark [symmetric]

lemma dump_no_mark: "int (c + length xs) \<le> q - 1 \<Longrightarrow> CHR ''>'' \<notin> set (dump_from (Some q) c xs)"
proof (induction xs arbitrary: c)
  case (Cons b xs)
  then have "CHR ''>'' \<notin> set (dump_from (Some q) (c + 1) xs)" by simp
  with Cons.prems show ?case by (auto simp: dump_sep_def)
qed simp

lemma marked_byte:
  assumes "0 < p" and "p < length bs"
  shows "undump (List.map_filter digit_of (marked (hex_dump bs (Some (int p))))) = [bs ! p]"
proof -
  define xs where "xs = take (p - 1) bs"
  let ?a = "bs ! (p - 1)" and ?b = "bs ! p"
  have bs: "bs = xs @ ?a # ?b # drop (p + 1) bs" and n: "length xs = p - 1"
    using assms id_take_nth_drop [of "p - 1" bs] Cons_nth_drop_Suc [of p bs] by (simp_all add: xs_def)
  let ?gap = "if p mod 16 = 0 then [CHR 0x0A] else if p mod 8 = 0 then '' '' else ''''"
  let ?h = "\<lambda>b. [hexmap ! (unat b div 16), hexmap ! (unat b mod 16)]"
  obtain rest where d: "hex_dump bs (Some (int p))
      = dump_from (Some (int p)) 0 xs @ ?h ?a @ CHR ''>'' # ?gap @ ?h ?b @ CHR ''<'' # rest"
  proof -
    have "hex_dump bs (Some (int p)) = dump_from (Some (int p)) 0 (xs @ ?a # ?b # drop (p + 1) bs)"
      using bs by (simp add: hex_dump_def)
    also have "\<dots> = dump_from (Some (int p)) 0 xs @ dump_from (Some (int p)) (p - 1) (?a # ?b # drop (p + 1) bs)"
      by (simp only: dump_append n add_0)
    finally show thesis using that assms by (simp add: dump_sep_def del: One_nat_def)
  qed
  have "CHR ''>'' \<notin> set (dump_from (Some (int p)) 0 xs @ ?h ?a)"
    using dump_no_mark [of 0 xs "int p"] n assms by auto
  then have "dropWhile (\<lambda>c. c \<noteq> CHR ''>'') (hex_dump bs (Some (int p))) = CHR ''>'' # ?gap @ ?h ?b @ CHR ''<'' # rest"
    unfolding d by (subst append_assoc [symmetric], subst dropWhile_append2) auto
  moreover have "takeWhile (\<lambda>c. c \<noteq> CHR ''<'') (?gap @ ?h ?b @ CHR ''<'' # rest) = ?gap @ ?h ?b"
    by (auto simp: takeWhile_append)
  ultimately have "marked (hex_dump bs (Some (int p))) = ?gap @ ?h ?b" by (simp add: marked_def)
  then show ?thesis
    using byte_digits [of ?b] by (simp add: map_filter_simps digit_of_hexmap digit_of_sep)
qed

text \<open>
  A hex dump shows exactly the bytes it was given: its hexadecimal digits, taken in pairs, are the
  bytes, whichever position is marked; and the marks stand around the byte at that position.
\<close>
theorem hex_dump_faithful:
  "undump (List.map_filter digit_of (hex_dump bs q)) = bs
   \<and> (0 < p \<and> p < length bs \<longrightarrow> undump (List.map_filter digit_of (marked (hex_dump bs (Some (int p))))) = [bs ! p])"
  using undump_dump_from marked_byte by (simp add: hex_dump_def)

theorem hex_dump_faithful_witness:
  "undump (List.map_filter digit_of (hex_dump [0xce, 0xff, 1] None)) = [0xce, 0xff, 1]
   \<and> undump (List.map_filter digit_of (marked (hex_dump [0xce, 0xff, 1] (Some (int 1))))) = [[0xce, 0xff, 1] ! 1]"
  using hex_dump_faithful [of "[0xce, 0xff, 1]" None 1] by simp

end
