(* ===== verification/Trace.thy ===== *)
theory Trace
  imports Prelude "HOL-Library.Char_ord"
begin

text \<open>
  \<^verbatim>\<open>get_trace\<close> of \<^verbatim>\<open>misc.cpp\<close>: the call stack as text, with the places in the sources that \<^verbatim>\<open>addr2line\<close>
  finds for its frames. What the system calls give is the record \<open>os\<close>.
\<close>

section \<open>The system\<close>

text \<open>
  The lines of \<^verbatim>\<open>backtrace_symbols\<close>, at most ten, or \<open>None\<close> for a null pointer; whether \<^verbatim>\<open>stat\<close> finds a
  file; what a command started by \<^verbatim>\<open>popen\<close> prints, \<open>None\<close> when it cannot be started.
\<close>

record os =
  symbols :: "string list option"
  is_file :: "string \<Rightarrow> bool"
  popen :: "string \<Rightarrow> string option"

section \<open>The frames\<close>

definition nl :: string where
  "nl = [CHR 0x0A]"

text \<open>The decimal digits of a number.\<close>

fun decimal :: "nat \<Rightarrow> string" where
  "decimal n = (if n < 10 then [char_of (48 + n)] else decimal (n div 10) @ [char_of (48 + n mod 10)])"

declare decimal.simps [simp del]

text \<open>A line \<^verbatim>\<open>exe(function+offset) [address]\<close>: the executable, and what is between the brackets.\<close>

definition frame_exe :: "os \<Rightarrow> string \<Rightarrow> string" where
  "frame_exe sys s = (let exe = takeWhile (\<lambda>c. c \<noteq> CHR ''('') s in if is_file sys exe then exe else [])"

definition frame_addr :: "string \<Rightarrow> string" where
  "frame_addr s =
     (case dropWhile (\<lambda>c. c \<noteq> CHR ''('') s of
        [] \<Rightarrow> []
      | _ # t \<Rightarrow> if CHR '')'' \<in> set t then takeWhile (\<lambda>c. c \<noteq> CHR '')'') t else [])"

definition addr2line :: "string \<Rightarrow> string \<Rightarrow> string" where
  "addr2line exe addr = ''addr2line -s -a -p -f -C -e '' @ exe @ '' '' @ addr @ '' 2>&1''"

text \<open>
  \<^verbatim>\<open>fgets\<close> takes at most 127 characters and stops behind the end of a line; what is appended is a
  string that ends with its first zero.
\<close>

fun fgets :: "nat \<Rightarrow> string \<Rightarrow> string \<times> string" where
  "fgets 0 s = ([], s)"
| "fgets (Suc k) [] = ([], [])"
| "fgets (Suc k) (c # s) =
     (if c = CHR 0x0A then ([c], s) else (case fgets k s of (xs, r) \<Rightarrow> (c # xs, r)))"

lemma fgets_split: "fgets k s = (xs, r) \<Longrightarrow> s = xs @ r"
  by (induction k s arbitrary: xs r rule: fgets.induct) (auto split: if_splits prod.splits)

lemma fgets_progress: "0 < k \<Longrightarrow> s \<noteq> [] \<Longrightarrow> fgets k s = (xs, r) \<Longrightarrow> xs \<noteq> []"
  by (cases k; cases s) (auto split: if_splits prod.splits)

function fgets_all :: "string \<Rightarrow> string" where
  "fgets_all s =
     (if s = [] then []
      else let (xs, r) = fgets 127 s in takeWhile (\<lambda>c. c \<noteq> CHR 0x00) xs @ fgets_all r)"
  by pat_completeness auto
termination
proof (relation "measure length", goal_cases)
  case 1
  then show ?case by simp
next
  case (2 s x xs r)
  then have "xs \<noteq> []" using fgets_progress [of 127 s xs r] by simp
  then show ?case using 2(2,3) by (auto dest!: sym [THEN fgets_split])
qed

declare fgets_all.simps [simp del]

text \<open>
  \<^verbatim>\<open>stat\<close> and \<^verbatim>\<open>wstat\<close> are set by the deleter of \<^verbatim>\<open>pipe\<close>, which calls \<^verbatim>\<open>pclose\<close>; \<^verbatim>\<open>release()\<close> gives up the pointer
  without running it.
\<close>

definition after_release :: "int \<times> int" where
  "after_release = (0, 0)"

text \<open>
  The loop from the frame \<open>i\<close> on: the text so far, \<^verbatim>\<open>error\<close>, and how many streams were left open.
\<close>

fun trace_from :: "os \<Rightarrow> nat \<Rightarrow> string list \<Rightarrow> string \<times> string \<times> nat \<Rightarrow> (string \<times> string \<times> nat) result" where
  "trace_from sys i [] st = Inr st"
| "trace_from sys i (f # fs) (out, err, streams) =
     (let exe = frame_exe sys f; addr = frame_addr f; out = out @ ''['' @ decimal i @ '']: '' @ f in
      if err = [] \<and> exe \<noteq> [] \<and> addr \<noteq> []
      then let cmd = addr2line exe addr in
        if 1024 < length cmd + 1 then Inl Overrun
        else (case popen sys cmd of
            None \<Rightarrow> trace_from sys (i + 1) fs (out, err, streams)
          | Some printed \<Rightarrow>
              let placement = fgets_all printed; (stat, wstat) = after_release in
              if stat < 0 \<or> wstat \<noteq> 0 \<and> wstat \<noteq> 128 + 13
              then trace_from sys (i + 1) fs (out, placement, streams + 1)
              else if placement \<noteq> []
              then trace_from sys (i + 1) fs (out @ '' -> '' @ placement, err, streams + 1)
              else trace_from sys (i + 1) fs (out @ nl, err, streams + 1))
      else trace_from sys (i + 1) fs (out @ nl, err, streams))"

definition get_trace :: "os \<Rightarrow> (string \<times> nat) result" where
  "get_trace sys =
     (case symbols sys of
        None \<Rightarrow> Inr (''unable to acquire backtrace symbols'', 0)
      | Some strings \<Rightarrow>
          map_sum id (\<lambda>(out, err, streams). (out @ (if err \<noteq> [] then nl @ err else []), streams))
            (trace_from sys 1 (tl strings) ([], [], 0)))"

section \<open>What the trace says\<close>

lemma fgets_all_text: "CHR 0x00 \<notin> set s \<Longrightarrow> fgets_all s = s"
proof (induction s rule: fgets_all.induct)
  case (1 s)
  show ?case
  proof (cases "s = []")
    case False
    obtain xs r where f: "fgets 127 s = (xs, r)" by force
    then have s: "s = xs @ r" by (rule fgets_split)
    with "1.prems" have "takeWhile (\<lambda>c. c \<noteq> CHR 0x00) xs = xs" "CHR 0x00 \<notin> set r"
      by (auto simp: takeWhile_eq_all_conv)
    with "1.IH" [OF False f [symmetric] refl] False f s show ?thesis
      by (subst fgets_all.simps) simp
  qed (simp add: fgets_all.simps)
qed

text \<open>The command for a frame, if it has an executable and an address.\<close>

definition lookup_cmd :: "os \<Rightarrow> string \<Rightarrow> string option" where
  "lookup_cmd sys f = (if frame_exe sys f \<noteq> [] \<and> frame_addr f \<noteq> [] then Some (addr2line (frame_exe sys f) (frame_addr f)) else None)"

definition printed_for :: "os \<Rightarrow> string \<Rightarrow> string option" where
  "printed_for sys f = Option.bind (lookup_cmd sys f) (popen sys)"

text \<open>The line of a frame; when the command could not be started, even the end of the line is missing.\<close>

definition trace_line :: "os \<Rightarrow> nat \<Rightarrow> string \<Rightarrow> string" where
  "trace_line sys i f = ''['' @ decimal i @ '']: '' @ f
     @ (case printed_for sys f of
          Some t \<Rightarrow> if t = [] then nl else '' -> '' @ t
        | None \<Rightarrow> if lookup_cmd sys f = None then nl else [])"

definition trace_lines :: "os \<Rightarrow> nat \<Rightarrow> string list \<Rightarrow> string" where
  "trace_lines sys i fs = concat (map (\<lambda>(k, f). trace_line sys k f) (enumerate i fs))"

lemma frame_parts_length: "length (frame_exe sys f) + length (frame_addr f) \<le> length f"
proof -
  have "length (takeWhile (\<lambda>c. c \<noteq> CHR ''('') f) + length (dropWhile (\<lambda>c. c \<noteq> CHR ''('') f) = length f"
    by (metis length_append takeWhile_dropWhile_id)
  moreover have "length (takeWhile (\<lambda>c. c \<noteq> CHR '')'') t) \<le> length t" for t by (rule length_takeWhile_le)
  then have "length (frame_addr f) \<le> length (dropWhile (\<lambda>c. c \<noteq> CHR ''('') f)"
    by (auto simp: frame_addr_def le_SucI split: list.split)
  moreover have "length (frame_exe sys f) \<le> length (takeWhile (\<lambda>c. c \<noteq> CHR ''('') f)"
    by (simp add: frame_exe_def Let_def)
  ultimately show ?thesis by linarith
qed

lemma trace_from_lines:
  assumes "\<forall>cmd t. popen sys cmd = Some t \<longrightarrow> CHR 0x00 \<notin> set t"
  shows "\<forall>f \<in> set fs. length f \<le> 980 \<Longrightarrow> trace_from sys i fs (out, [], n)
     = Inr (out @ trace_lines sys i fs, [], n + length (filter (\<lambda>f. printed_for sys f \<noteq> None) fs))"
proof (induction fs arbitrary: i out n)
  case Nil
  then show ?case by (simp add: trace_lines_def)
next
  case (Cons f fs)
  have IH: "trace_from sys (i + 1) fs (t, [], m)
     = Inr (t @ trace_lines sys (i + 1) fs, [], m + length (filter (\<lambda>f. printed_for sys f \<noteq> None) fs))" for t m
    using Cons by simp
  have l: "trace_lines sys i (f # fs) = trace_line sys i f @ trace_lines sys (i + 1) fs"
    by (simp add: trace_lines_def)
  have c: "\<not> 1024 < length (addr2line (frame_exe sys f) (frame_addr f)) + 1"
    using frame_parts_length [of sys f] Cons.prems by (simp add: addr2line_def)
  show ?case
  proof (cases "frame_exe sys f \<noteq> [] \<and> frame_addr f \<noteq> []")
    case False
    then have "lookup_cmd sys f = None" by (auto simp: lookup_cmd_def)
    then show ?thesis
      using False IH unfolding l by (auto simp: trace_line_def printed_for_def Let_def)
  next
    case True
    then have k: "lookup_cmd sys f = Some (addr2line (frame_exe sys f) (frame_addr f))" by (simp add: lookup_cmd_def)
    show ?thesis
    proof (cases "popen sys (addr2line (frame_exe sys f) (frame_addr f))")
      case None
      then show ?thesis
        using True k c IH unfolding l by (simp add: trace_line_def printed_for_def Let_def)
    next
      case (Some t)
      then have "fgets_all t = t" using assms fgets_all_text by blast
      then show ?thesis
        using True k c IH Some unfolding l by (simp add: trace_line_def printed_for_def Let_def after_release_def)
    qed
  qed
qed


definition demo_os :: os where
  "demo_os = \<lparr>symbols = Some [''./a(get_trace+1) [0]'', ''./a(main+5) [1]'', ''vdso [2]''],
     is_file = (\<lambda>f. f = ''./a''), popen = (\<lambda>cmd. Some (''addr2line: not found'' @ nl))\<rparr>"


end
