(* ===== verification/Msgpuck.thy ===== *)
theory Msgpuck
  imports Prelude
begin

text \<open>
  The interface to \<^verbatim>\<open>third_party/msgpuck\<close>, a git submodule whose code is not part of the
  repository. Its functions are the fields of the record \<open>msgpuck\<close>, an argument of
  every definition that calls them, and its documented behaviour, the MessagePack wire
  format, is the locale \<open>msgpuck_lib\<close>. The theory \<open>Msgpack_Ref\<close> gives one
  concrete library that meets the locale, so that the hypothesis is known to be satisfiable.
\<close>

section \<open>Types of encoded values\<close>

datatype mp_type =
    MP_NIL | MP_UINT | MP_INT | MP_STR | MP_BIN | MP_ARRAY | MP_MAP | MP_BOOL
  | MP_FLOAT | MP_DOUBLE | MP_EXT

section \<open>The library's functions\<close>

text \<open>
  An encoder \<^verbatim>\<open>char *mp_encode_x(char *data, v)\<close> is modelled by the bytes it stores at
  \<^verbatim>\<open>data\<close>. A decoder \<^verbatim>\<open>mp_decode_x(const char **data)\<close> takes the memory from
  \<^verbatim>\<open>*data\<close> on and gives the value with the number of bytes \<^verbatim>\<open>*data\<close> advances by;
  likewise \<open>mp_next\<close>. \<open>mp_check\<close> gives \<open>None\<close> for its error result,
  \<open>mp_snprint\<close> the whole printed text (\<open>None\<close> for a negative result). Floating point
  values are their IEEE 754 bits, signed integers their two's complement.
\<close>

record msgpuck =
  mp_typeof :: "u8 \<Rightarrow> mp_type"
  mp_encode_nil :: bytes
  mp_encode_bool :: "bool \<Rightarrow> bytes"
  mp_encode_uint :: "u64 \<Rightarrow> bytes"
  mp_encode_int :: "u64 \<Rightarrow> bytes"
  mp_encode_float :: "u32 \<Rightarrow> bytes"
  mp_encode_double :: "u64 \<Rightarrow> bytes"
  mp_encode_strl :: "u32 \<Rightarrow> bytes"
  mp_encode_str :: "bytes \<Rightarrow> bytes"
  mp_encode_array :: "u32 \<Rightarrow> bytes"
  mp_encode_map :: "u32 \<Rightarrow> bytes"
  mp_sizeof_array :: "u32 \<Rightarrow> u32"
  mp_sizeof_map :: "u32 \<Rightarrow> u32"
  mp_store_u8 :: "u8 \<Rightarrow> bytes"
  mp_store_u16 :: "u16 \<Rightarrow> bytes"
  mp_store_u32 :: "u32 \<Rightarrow> bytes"
  mp_store_u64 :: "u64 \<Rightarrow> bytes"
  mp_decode_bool :: "bytes \<Rightarrow> bool \<times> nat"
  mp_decode_uint :: "bytes \<Rightarrow> u64 \<times> nat"
  mp_decode_int :: "bytes \<Rightarrow> u64 \<times> nat"
  mp_decode_float :: "bytes \<Rightarrow> u32 \<times> nat"
  mp_decode_double :: "bytes \<Rightarrow> u64 \<times> nat"
  mp_decode_strl :: "bytes \<Rightarrow> u32 \<times> nat"
  mp_decode_array :: "bytes \<Rightarrow> u32 \<times> nat"
  mp_decode_map :: "bytes \<Rightarrow> u32 \<times> nat"
  mp_decode_extl :: "bytes \<Rightarrow> u32 \<times> u8 \<times> nat"
  mp_next :: "bytes \<Rightarrow> nat"
  mp_check :: "bytes \<Rightarrow> nat option"
  mp_snprint :: "u32 \<Rightarrow> bytes \<Rightarrow> string option"
  mp_ext_error :: u8
  mp_ext_interval :: u8
  mp_ext_datetime :: u8

section \<open>The MessagePack format\<close>

text \<open>
  The headers the format allows for a value; several may denote the same value, and a
  decoder accepts each of them.
\<close>

definition hdr_array :: "nat \<Rightarrow> bytes \<Rightarrow> bool" where
  "hdr_array n h \<longleftrightarrow>
     (n < 16 \<and> h = [of_nat (0x90 + n)]) \<or>
     (n < 2 ^ 16 \<and> h = 0xdc # to_be 2 n) \<or>
     (n < 2 ^ 32 \<and> h = 0xdd # to_be 4 n)"

definition hdr_map :: "nat \<Rightarrow> bytes \<Rightarrow> bool" where
  "hdr_map n h \<longleftrightarrow>
     (n < 16 \<and> h = [of_nat (0x80 + n)]) \<or>
     (n < 2 ^ 16 \<and> h = 0xde # to_be 2 n) \<or>
     (n < 2 ^ 32 \<and> h = 0xdf # to_be 4 n)"

definition hdr_str :: "nat \<Rightarrow> bytes \<Rightarrow> bool" where
  "hdr_str n h \<longleftrightarrow>
     (n < 32 \<and> h = [of_nat (0xa0 + n)]) \<or>
     (n < 2 ^ 8 \<and> h = 0xd9 # to_be 1 n) \<or>
     (n < 2 ^ 16 \<and> h = 0xda # to_be 2 n) \<or>
     (n < 2 ^ 32 \<and> h = 0xdb # to_be 4 n)"

definition hdr_bin :: "nat \<Rightarrow> bytes \<Rightarrow> bool" where
  "hdr_bin n h \<longleftrightarrow>
     (n < 2 ^ 8 \<and> h = 0xc4 # to_be 1 n) \<or>
     (n < 2 ^ 16 \<and> h = 0xc5 # to_be 2 n) \<or>
     (n < 2 ^ 32 \<and> h = 0xc6 # to_be 4 n)"

definition hdr_uint :: "nat \<Rightarrow> bytes \<Rightarrow> bool" where
  "hdr_uint n h \<longleftrightarrow>
     (n < 128 \<and> h = [of_nat n]) \<or>
     (n < 2 ^ 8 \<and> h = 0xcc # to_be 1 n) \<or>
     (n < 2 ^ 16 \<and> h = 0xcd # to_be 2 n) \<or>
     (n < 2 ^ 32 \<and> h = 0xce # to_be 4 n) \<or>
     (n < 2 ^ 64 \<and> h = 0xcf # to_be 8 n)"

definition hdr_int :: "int \<Rightarrow> bytes \<Rightarrow> bool" where
  "hdr_int i h \<longleftrightarrow>
     (- 32 \<le> i \<and> i < 0 \<and> h = [of_int i]) \<or>
     (- (2 ^ 7) \<le> i \<and> i < 2 ^ 7 \<and> h = 0xd0 # to_be 1 (nat (i mod 2 ^ 8))) \<or>
     (- (2 ^ 15) \<le> i \<and> i < 2 ^ 15 \<and> h = 0xd1 # to_be 2 (nat (i mod 2 ^ 16))) \<or>
     (- (2 ^ 31) \<le> i \<and> i < 2 ^ 31 \<and> h = 0xd2 # to_be 4 (nat (i mod 2 ^ 32))) \<or>
     (- (2 ^ 63) \<le> i \<and> i < 2 ^ 63 \<and> h = 0xd3 # to_be 8 (nat (i mod 2 ^ 64)))"

definition hdr_ext :: "u8 \<Rightarrow> nat \<Rightarrow> bytes \<Rightarrow> bool" where
  "hdr_ext t n h \<longleftrightarrow>
     (n = 1 \<and> h = [0xd4, t]) \<or> (n = 2 \<and> h = [0xd5, t]) \<or> (n = 4 \<and> h = [0xd6, t]) \<or>
     (n = 8 \<and> h = [0xd7, t]) \<or> (n = 16 \<and> h = [0xd8, t]) \<or>
     (n < 2 ^ 8 \<and> h = 0xc7 # to_be 1 n @ [t]) \<or>
     (n < 2 ^ 16 \<and> h = 0xc8 # to_be 2 n @ [t]) \<or>
     (n < 2 ^ 32 \<and> h = 0xc9 # to_be 4 n @ [t])"

text \<open>
  Encoded values. A map is the list of its keys and values in turn, the way the writer and
  the readers count them.
\<close>

datatype mpv =
    MNil
  | MBool bool
  | MUint nat
  | MInt int
  | MFloat u32
  | MDouble u64
  | MStr bytes
  | MBin bytes
  | MExt u8 bytes
  | MArray "mpv list"
  | MMap "mpv list"

fun mpv_type :: "mpv \<Rightarrow> mp_type" where
  "mpv_type MNil = MP_NIL"
| "mpv_type (MBool _) = MP_BOOL"
| "mpv_type (MUint _) = MP_UINT"
| "mpv_type (MInt _) = MP_INT"
| "mpv_type (MFloat _) = MP_FLOAT"
| "mpv_type (MDouble _) = MP_DOUBLE"
| "mpv_type (MStr _) = MP_STR"
| "mpv_type (MBin _) = MP_BIN"
| "mpv_type (MExt _ _) = MP_EXT"
| "mpv_type (MArray _) = MP_ARRAY"
| "mpv_type (MMap _) = MP_MAP"

text \<open>\<open>wire v e\<close>: the bytes \<open>e\<close> are an encoding of \<open>v\<close>; \<open>wires\<close>: of a sequence.\<close>

inductive wire :: "mpv \<Rightarrow> bytes \<Rightarrow> bool" and wires :: "mpv list \<Rightarrow> bytes \<Rightarrow> bool" where
  wire_nil: "wire MNil [0xc0]"
| wire_bool: "wire (MBool b) [if b then 0xc3 else 0xc2]"
| wire_uint: "hdr_uint n h \<Longrightarrow> wire (MUint n) h"
| wire_int: "hdr_int i h \<Longrightarrow> wire (MInt i) h"
| wire_float: "wire (MFloat f) (0xca # to_be 4 (unat f))"
| wire_double: "wire (MDouble d) (0xcb # to_be 8 (unat d))"
| wire_str: "hdr_str (length s) h \<Longrightarrow> wire (MStr s) (h @ s)"
| wire_bin: "hdr_bin (length s) h \<Longrightarrow> wire (MBin s) (h @ s)"
| wire_ext: "hdr_ext t (length s) h \<Longrightarrow> wire (MExt t s) (h @ s)"
| wire_array: "hdr_array (length vs) h \<Longrightarrow> wires vs e \<Longrightarrow> wire (MArray vs) (h @ e)"
| wire_map: "length vs = 2 * n \<Longrightarrow> hdr_map n h \<Longrightarrow> wires vs e \<Longrightarrow> wire (MMap vs) (h @ e)"
| wires_nil: "wires [] []"
| wires_cons: "wire v e \<Longrightarrow> wires vs es \<Longrightarrow> wires (v # vs) (e @ es)"

inductive_simps wires_Nil_iff [simp]: "wires [] e"
inductive_simps wires_Cons_iff: "wires (v # vs) e"

lemma wires_append: "wires xs a \<Longrightarrow> wires ys b \<Longrightarrow> wires (xs @ ys) (a @ b)"
proof (induction xs arbitrary: a)
  case Nil
  then show ?case by simp
next
  case (Cons x xs)
  then obtain e es where "a = e @ es" "wire x e" "wires xs es"
    by (auto simp: wires_Cons_iff)
  with Cons show ?case
    by (auto intro: wires_cons)
qed

lemma wires_single: "wire v e \<Longrightarrow> wires [v] e"
  using wires_cons [OF _ wires_nil, of v e] by simp

lemma wires_snoc: "wires xs a \<Longrightarrow> wire v e \<Longrightarrow> wires (xs @ [v]) (a @ e)"
  by (rule wires_append) (auto intro: wires_single)

text \<open>The shortest headers, which the encoders emit.\<close>

definition min_array :: "nat \<Rightarrow> bytes" where
  "min_array n = (if n < 16 then [of_nat (0x90 + n)]
     else if n < 2 ^ 16 then 0xdc # to_be 2 n else 0xdd # to_be 4 n)"

definition min_map :: "nat \<Rightarrow> bytes" where
  "min_map n = (if n < 16 then [of_nat (0x80 + n)]
     else if n < 2 ^ 16 then 0xde # to_be 2 n else 0xdf # to_be 4 n)"

definition min_str :: "nat \<Rightarrow> bytes" where
  "min_str n = (if n < 32 then [of_nat (0xa0 + n)] else if n < 2 ^ 8 then 0xd9 # to_be 1 n
     else if n < 2 ^ 16 then 0xda # to_be 2 n else 0xdb # to_be 4 n)"

definition min_uint :: "nat \<Rightarrow> bytes" where
  "min_uint n = (if n < 128 then [of_nat n] else if n < 2 ^ 8 then 0xcc # to_be 1 n
     else if n < 2 ^ 16 then 0xcd # to_be 2 n else if n < 2 ^ 32 then 0xce # to_be 4 n
     else 0xcf # to_be 8 n)"

definition min_int :: "int \<Rightarrow> bytes" where
  "min_int i = (if - 32 \<le> i then [of_int i]
     else if - (2 ^ 7) \<le> i then 0xd0 # to_be 1 (nat (i mod 2 ^ 8))
     else if - (2 ^ 15) \<le> i then 0xd1 # to_be 2 (nat (i mod 2 ^ 16))
     else if - (2 ^ 31) \<le> i then 0xd2 # to_be 4 (nat (i mod 2 ^ 32))
     else 0xd3 # to_be 8 (nat (i mod 2 ^ 64)))"

lemma hdr_array_min: "n < 2 ^ 32 \<Longrightarrow> hdr_array n (min_array n)"
  by (simp add: hdr_array_def min_array_def)

lemma hdr_map_min: "n < 2 ^ 32 \<Longrightarrow> hdr_map n (min_map n)"
  by (simp add: hdr_map_def min_map_def)

lemma hdr_str_min: "n < 2 ^ 32 \<Longrightarrow> hdr_str n (min_str n)"
  by (simp add: hdr_str_def min_str_def)

lemma hdr_uint_min: "n < 2 ^ 64 \<Longrightarrow> hdr_uint n (min_uint n)"
  by (simp add: hdr_uint_def min_uint_def)

lemma hdr_int_min: "- (2 ^ 63) \<le> i \<Longrightarrow> i < 0 \<Longrightarrow> hdr_int i (min_int i)"
  by (simp add: hdr_int_def min_int_def)

lemma hdr_nonempty:
  "hdr_array n h \<Longrightarrow> h \<noteq> []" "hdr_map n h \<Longrightarrow> h \<noteq> []" "hdr_str n h \<Longrightarrow> h \<noteq> []"
  "hdr_uint n h \<Longrightarrow> h \<noteq> []" "hdr_int i h \<Longrightarrow> h \<noteq> []" "hdr_bin n h \<Longrightarrow> h \<noteq> []"
  "hdr_ext t n h \<Longrightarrow> h \<noteq> []"
  by (auto simp: hdr_array_def hdr_map_def hdr_str_def hdr_uint_def hdr_int_def hdr_bin_def
      hdr_ext_def)

lemma wire_nonempty: "wire v e \<Longrightarrow> e \<noteq> []"
  by (cases rule: wire.cases) (auto dest: hdr_nonempty)

lemma wires_length: "wires us e \<Longrightarrow> length us \<le> length e"
proof (induction us arbitrary: e)
  case (Cons u us)
  then obtain e1 e2 where "e = e1 @ e2" "wire u e1" "wires us e2" by (auto simp: wires_Cons_iff)
  with Cons.IH wire_nonempty [of u e1] show ?case by (cases e1) fastforce+
qed simp

section \<open>The library's documented behaviour\<close>

locale msgpuck_lib =
  fixes mp :: msgpuck
  assumes enc_nil: "mp_encode_nil mp = [0xc0]"
    and enc_bool: "mp_encode_bool mp b = [if b then 0xc3 else 0xc2]"
    and enc_uint: "mp_encode_uint mp u = min_uint (unat u)"
    and enc_int: "sint i < 0 \<Longrightarrow> mp_encode_int mp i = min_int (sint i)"
    and enc_float: "mp_encode_float mp f = 0xca # to_be 4 (unat f)"
    and enc_double: "mp_encode_double mp d = 0xcb # to_be 8 (unat d)"
    and enc_strl: "mp_encode_strl mp n = min_str (unat n)"
    and enc_str: "length s < 2 ^ 32 \<Longrightarrow> mp_encode_str mp s = mp_encode_strl mp (of_nat (length s)) @ s"
    and enc_array: "mp_encode_array mp n = min_array (unat n)"
    and enc_map: "mp_encode_map mp n = min_map (unat n)"
    and sizeof_array: "unat (mp_sizeof_array mp n) = length (mp_encode_array mp n)"
    and sizeof_map: "unat (mp_sizeof_map mp n) = length (mp_encode_map mp n)"
    and store_u8: "mp_store_u8 mp a = to_be 1 (unat a)"
    and store_u16: "mp_store_u16 mp b16 = to_be 2 (unat b16)"
    and store_u32: "mp_store_u32 mp b32 = to_be 4 (unat b32)"
    and store_u64: "mp_store_u64 mp b64 = to_be 8 (unat b64)"
    and typeof_wire: "wire v e \<Longrightarrow> mp_typeof mp (hd e) = mpv_type v"
    and typeof_array_hdr: "hdr_array k h \<Longrightarrow> mp_typeof mp (hd h) = MP_ARRAY"
    and typeof_map_hdr: "hdr_map k h \<Longrightarrow> mp_typeof mp (hd h) = MP_MAP"
    and dec_bool: "mp_decode_bool mp ((if b then 0xc3 else 0xc2) # r) = (b, 1)"
    and dec_uint: "hdr_uint k h \<Longrightarrow> mp_decode_uint mp (h @ r) = (of_nat k, length h)"
    and dec_int: "hdr_int j h \<Longrightarrow> mp_decode_int mp (h @ r) = (of_int j, length h)"
    and dec_float: "mp_decode_float mp (0xca # to_be 4 (unat f) @ r) = (f, 5)"
    and dec_double: "mp_decode_double mp (0xcb # to_be 8 (unat d) @ r) = (d, 9)"
    and dec_strl: "hdr_str k h \<Longrightarrow> mp_decode_strl mp (h @ r) = (of_nat k, length h)"
    and dec_array: "hdr_array k h \<Longrightarrow> mp_decode_array mp (h @ r) = (of_nat k, length h)"
    and dec_map: "hdr_map k h \<Longrightarrow> mp_decode_map mp (h @ r) = (of_nat k, length h)"
    and dec_extl: "hdr_ext t k h \<Longrightarrow> mp_decode_extl mp (h @ r) = (of_nat k, t, length h)"
    and next_item: "wire v e \<Longrightarrow> mp_next mp (e @ r) = length e"
    and check_item: "wire v e \<Longrightarrow> mp_check mp (e @ r) = Some (length e)"
begin

lemmas encoders = enc_nil enc_bool enc_uint enc_int enc_float enc_double enc_strl enc_str
  enc_array enc_map

lemma store_byte: "mp_store_u8 mp b = [b]"
  by (simp only: store_u8 to_be_byte)

lemmas stores = store_byte store_u16 store_u32 store_u64

lemma wire_encode_uint: "wire (MUint (unat u)) (mp_encode_uint mp u)"
  using unsigned_less [of u] by (auto simp: enc_uint intro!: wire_uint hdr_uint_min)

lemma wire_encode_int: "sint i < 0 \<Longrightarrow> wire (MInt (sint i)) (mp_encode_int mp i)"
  using sint_greater_eq [of i] by (auto simp: enc_int intro!: wire_int hdr_int_min)

lemma hdr_encode_array: "hdr_array (unat n) (mp_encode_array mp n)"
  using unsigned_less [of n] by (auto simp: enc_array intro!: hdr_array_min)

lemma hdr_encode_map: "hdr_map (unat n) (mp_encode_map mp n)"
  using unsigned_less [of n] by (auto simp: enc_map intro!: hdr_map_min)

lemma wire_encode_str:
  "length s < 2 ^ 32 \<Longrightarrow> wire (MStr s) (mp_encode_str mp s)"
  by (auto simp: enc_str enc_strl unat_of_nat take_bit_nat_eq_self intro!: wire_str hdr_str_min)

lemma length_encode_array:
  "length (mp_encode_array mp n) = (if n < 16 then 1 else if n < 0x10000 then 3 else 5)"
  by (simp add: enc_array min_array_def word_less_nat_alt)

lemma length_encode_map:
  "length (mp_encode_map mp n) = (if n < 16 then 1 else if n < 0x10000 then 3 else 5)"
  by (simp add: enc_map min_map_def word_less_nat_alt)

end

end
