(* ===== verification/Mp_Reader.thy ===== *)
theory Mp_Reader
  imports Msgpuck
begin

text \<open>
  \<^verbatim>\<open>mp_reader.h\<close>: views of encoded memory and the cursor that reads them. A pointer is an
  offset into the block of memory the view lies in, \<open>None\<close> is the null pointer.
\<close>

section \<open>Views: mp_plain, mp_array, mp_map, mp_span\<close>

definition mpuck_type_name :: "mp_type \<Rightarrow> string" where
  "mpuck_type_name t =
     (case t of
        MP_NIL \<Rightarrow> ''nil'' | MP_UINT \<Rightarrow> ''uint'' | MP_INT \<Rightarrow> ''int'' | MP_STR \<Rightarrow> ''string''
      | MP_BIN \<Rightarrow> ''bin'' | MP_ARRAY \<Rightarrow> ''array'' | MP_MAP \<Rightarrow> ''map'' | MP_BOOL \<Rightarrow> ''bool''
      | MP_FLOAT \<Rightarrow> ''float'' | MP_DOUBLE \<Rightarrow> ''double'' | MP_EXT \<Rightarrow> ''ext'')"

text \<open>
  The four view classes differ in what they know besides their bounds: a cardinality for an
  array or a map, and for a span also the right bound of every item.
\<close>

datatype view_kind = Plain | Array nat | Map nat | Span nat "nat list"

record mp_view =
  vmem :: bytes
  vkind :: view_kind
  vbegin :: "nat option"
  vend :: "nat option"

definition mp_plain :: "bytes \<Rightarrow> nat option \<Rightarrow> nat option \<Rightarrow> mp_view" where
  "mp_plain m b e = \<lparr>vmem = m, vkind = Plain, vbegin = b, vend = e\<rparr>"

fun cardinality :: "view_kind \<Rightarrow> nat option" where
  "cardinality Plain = None"
| "cardinality (Array c) = Some c"
| "cardinality (Map c) = Some c"
| "cardinality (Span c _) = Some c"

text \<open>How many items a view with a cardinality holds: a map holds keys and values.\<close>

fun item_limit :: "view_kind \<Rightarrow> nat option" where
  "item_limit Plain = None"
| "item_limit (Array c) = Some c"
| "item_limit (Map c) = Some ((c * 2) mod 2 ^ 64)"
| "item_limit (Span c _) = Some c"

definition view_bool :: "mp_view \<Rightarrow> bool" where
  "view_bool v =
     (case vend v of
        Some e \<Rightarrow> (case vbegin v of None \<Rightarrow> False | Some b \<Rightarrow> b < e)
      | None \<Rightarrow> (case cardinality (vkind v) of
            None \<Rightarrow> False
          | Some c \<Rightarrow> vbegin v \<noteq> None \<and> c \<noteq> 0))"

text \<open>Reading the byte a pointer points to.\<close>

definition deref :: "bytes \<Rightarrow> nat \<Rightarrow> u8 result" where
  "deref m p = (if p < length m then Inr (m ! p) else Inl Overrun)"

text \<open>
  The search for the error stack of an extension value: every iteration decodes one unsigned
  integer as a key, the value behind a key other than 0 is not skipped.
\<close>

fun find_error_stack :: "msgpuck \<Rightarrow> bytes \<Rightarrow> nat \<Rightarrow> nat \<Rightarrow> (nat \<times> nat \<times> nat) option" where
  "find_error_stack mp m 0 h = None"
| "find_error_stack mp m (Suc i) h =
     (let (key, k) = mp_decode_uint mp (drop h m); value_pos = h + k in
      if (ucast key :: u32) = 0
      then let (c, j) = mp_decode_array mp (drop value_pos m) in
           Some (unat c, value_pos + j, value_pos + mp_next mp (drop value_pos m))
      else find_error_stack mp m i value_pos)"

definition mp_array :: "msgpuck \<Rightarrow> bytes \<Rightarrow> nat option \<Rightarrow> nat option \<Rightarrow> mp_view result" where
  "mp_array mp m bgn nd =
     (case bgn of
        None \<Rightarrow> Inr \<lparr>vmem = m, vkind = Array 0, vbegin = None, vend = nd\<rparr>
      | Some p \<Rightarrow>
          (case deref m p of
             Inl e \<Rightarrow> Inl e
           | Inr hd0 \<Rightarrow>
               (case mp_typeof mp hd0 of
                  MP_ARRAY \<Rightarrow>
                    (let (c, k) = mp_decode_array mp (drop p m)
                     in Inr \<lparr>vmem = m, vkind = Array (unat c), vbegin = Some (p + k), vend = nd\<rparr>)
                | MP_EXT \<Rightarrow>
                    (let (len, ext_type, k) = mp_decode_extl mp (drop p m) in
                     if ext_type = mp_ext_error mp
                     then let (n, j) = mp_decode_map mp (drop (p + k) m) in
                          (case find_error_stack mp m (unat n) (p + k + j) of
                             None \<Rightarrow> Inl (ReaderError ''MP_ERROR_STACK not found within ext error'')
                           | Some (c, first, nxt) \<Rightarrow>
                               Inr \<lparr>vmem = m, vkind = Array c, vbegin = Some first, vend = Some nxt\<rparr>)
                     else Inl (ReaderError ''unable to read map from ext type''))
                | t \<Rightarrow> Inl (ReaderError (''array expected, got '' @ mpuck_type_name t)))))"

definition mp_map :: "msgpuck \<Rightarrow> bytes \<Rightarrow> nat \<Rightarrow> nat option \<Rightarrow> mp_view result" where
  "mp_map mp m p nd =
     (case deref m p of
        Inl e \<Rightarrow> Inl e
      | Inr hd0 \<Rightarrow>
          (case mp_typeof mp hd0 of
             MP_MAP \<Rightarrow>
               (let (c, k) = mp_decode_map mp (drop p m)
                in Inr \<lparr>vmem = m, vkind = Map (unat c), vbegin = Some (p + k), vend = nd\<rparr>)
           | MP_EXT \<Rightarrow>
               (let (len, ext_type, k) = mp_decode_extl mp (drop p m) in
                if ext_type = mp_ext_interval mp
                then let (c, j) = mp_decode_uint mp (drop (p + k) m)
                     in Inr \<lparr>vmem = m, vkind = Map (unat c), vbegin = Some (p + k + j), vend = nd\<rparr>
                else if ext_type = mp_ext_error mp
                then let (c, j) = mp_decode_map mp (drop (p + k) m)
                     in Inr \<lparr>vmem = m, vkind = Map (unat c), vbegin = Some (p + k + j), vend = nd\<rparr>
                else Inl (ReaderError ''unable to read map from ext type''))
           | t \<Rightarrow> Inl (ReaderError (''map expected, got '' @ mpuck_type_name t))))"

section \<open>The cursor\<close>

record mp_reader =
  view :: mp_view
  pos :: "nat option"
  ind :: u32

definition mp_reader :: "mp_view \<Rightarrow> mp_reader" where
  "mp_reader v = \<lparr>view = v, pos = vbegin v, ind = 0\<rparr>"

text \<open>The reader of a whole buffer.\<close>

definition reader_of :: "bytes \<Rightarrow> mp_reader" where
  "reader_of m = mp_reader (mp_plain m (Some 0) (Some (length m)))"

definition skip :: "msgpuck \<Rightarrow> (mp_reader, unit) op" where
  "skip mp r =
     (case pos r of
        None \<Rightarrow> (Inl (ReaderError ''read out of bounds''), r)
      | Some p \<Rightarrow>
          if (case vend (view r) of None \<Rightarrow> False | Some e \<Rightarrow> e \<le> p)
          then (Inl (ReaderError ''read out of bounds''), r)
          else if (case item_limit (vkind (view r)) of None \<Rightarrow> False | Some c \<Rightarrow> c \<le> unat (ind r))
          then (Inl (ReaderError ''read out of bounds''), r)
          else if length (vmem (view r)) \<le> p then (Inl Overrun, r)
          else let p' = p + mp_next mp (drop p (vmem (view r))) in
               if (case vend (view r) of None \<Rightarrow> False | Some e \<Rightarrow> e < p')
               then (Inl (ReaderError ''invalid messagepack''), r)
               else (Inr (), r\<lparr>pos := Some p', ind := ind r + 1\<rparr>))"

definition has_next :: "bool \<Rightarrow> mp_reader \<Rightarrow> bool result" where
  "has_next strict r =
     (let v = view r in
      case vend v of
        Some e \<Rightarrow> Inr (case pos r of None \<Rightarrow> False | Some p \<Rightarrow> p < e)
      | None \<Rightarrow>
          if vbegin v = None then Inr False
          else (case item_limit (vkind v) of
              Some c \<Rightarrow> Inr (pos r \<noteq> None \<and> unat (ind r) < c)
            | None \<Rightarrow>
                if \<not> strict then Inr True
                else Inl (ReaderError
                  ''unable to determine if next value exists - no right bound specified'')))"

definition rewind :: "mp_reader \<Rightarrow> mp_reader" where
  "rewind r = r\<lparr>pos := vbegin (view r), ind := 0\<rparr>"

definition peek_type :: "msgpuck \<Rightarrow> mp_reader \<Rightarrow> mp_type result" where
  "peek_type mp r =
     (case pos r of
        None \<Rightarrow> Inl Overrun
      | Some p \<Rightarrow> (case deref (vmem (view r)) p of Inl e \<Rightarrow> Inl e | Inr b \<Rightarrow> Inr (mp_typeof mp b)))"

definition skip_typed :: "msgpuck \<Rightarrow> mp_type \<Rightarrow> bool \<Rightarrow> (mp_reader, unit) op" where
  "skip_typed mp t nullable r =
     (if pos r = None then (Inl (RuntimeError ''no msgpack data to read''), r)
      else case peek_type mp r of
          Inl e \<Rightarrow> (Inl e, r)
        | Inr actual \<Rightarrow>
            if actual \<noteq> t \<and> (\<not> nullable \<or> actual \<noteq> MP_NIL)
            then (Inl (ReaderError (mpuck_type_name t @ '' expected, got '' @ mpuck_type_name actual)), r)
            else skip mp r)"

definition is_null :: "msgpuck \<Rightarrow> mp_reader \<Rightarrow> bool result" where
  "is_null mp r =
     (case has_next False r of
        Inl e \<Rightarrow> Inl e
      | Inr False \<Rightarrow> Inl (ReaderError ''read out of bounds'')
      | Inr True \<Rightarrow> (case peek_type mp r of Inl e \<Rightarrow> Inl e | Inr t \<Rightarrow> Inr (t = MP_NIL)))"

text \<open>
  The next iproto message: a 5-byte length prefix and the header and body it announces. The
  reader of an empty range stands for "no complete prefix".
\<close>

definition iproto_message :: "msgpuck \<Rightarrow> (mp_reader, mp_reader) op" where
  "iproto_message mp r =
     (case (pos r, vend (view r)) of
        (Some p, Some e) \<Rightarrow>
          if int e - int p < 5
          then (Inr (mp_reader (mp_plain (vmem (view r)) (Some p) (Some p))), r)
          else (case deref (vmem (view r)) p of
              Inl er \<Rightarrow> (Inl er, r)
            | Inr b \<Rightarrow>
                if b \<noteq> 0xce then (Inl (ReaderError ''invalid iproto packet''), r)
                else let (size, k) = mp_decode_uint mp (drop p (vmem (view r))); h = p + k;
                         r' = r\<lparr>pos := Some h\<rparr> in
                     if (int e - int h) mod 2 ^ 64 < int (unat size)
                     then (Inl (ReaderError ''partial iproto packet''), r')
                     else (Inr (mp_reader (mp_plain (vmem (view r)) (Some h) (Some (h + unat size)))),
                           r\<lparr>pos := Some (h + unat size)\<rparr>))
      | (None, Some e) \<Rightarrow> (Inl Overrun, r)
      | (q, None) \<Rightarrow> (Inr (mp_reader (mp_plain (vmem (view r)) q q)), r))"

section \<open>Loops over the items of a view\<close>

text \<open>
  \<^verbatim>\<open>while (mp.has_next()) { mp.skip(); ++n; }\<close> over any cursor. An iteration moves the
  cursor on, so that the number of bytes in view is fuel enough for the loop.
\<close>

fun drain :: "('r \<Rightarrow> bool result) \<Rightarrow> ('r, unit) op \<Rightarrow> nat \<Rightarrow> nat \<Rightarrow> ('r, nat) op" where
  "drain has_item nxt fuel n r =
     (case has_item r of
        Inl e \<Rightarrow> (Inl e, r)
      | Inr b \<Rightarrow>
          if \<not> b then (Inr n, r)
          else (case fuel of
              0 \<Rightarrow> (Inl Diverged, r)
            | Suc k \<Rightarrow> (case nxt r of
                  (Inl e, r') \<Rightarrow> (Inl e, r')
                | (Inr _, r') \<Rightarrow> drain has_item nxt k (n + 1) r')))"

declare drain.simps [simp del]

text \<open>\<^verbatim>\<open>>> mp_none<N>()\<close>: skip \<^verbatim>\<open>N\<close> items.\<close>

primrec skip_n :: "('r, unit) op \<Rightarrow> nat \<Rightarrow> ('r, unit) op" where
  "skip_n nxt 0 = ret ()"
| "skip_n nxt (Suc k) = andthen nxt (skip_n nxt k)"

text \<open>
  The contract of a cursor: \<open>left r vs\<close> says that the items \<open>vs\<close> are still to be read.
\<close>

locale item_cursor =
  fixes has_item :: "'r \<Rightarrow> bool result"
    and nxt :: "('r, unit) op"
    and left :: "'r \<Rightarrow> 'v list \<Rightarrow> bool"
  assumes has_item_iff: "left r vs \<Longrightarrow> has_item r = Inr (vs \<noteq> [])"
    and nxt_item: "left r (v # vs) \<Longrightarrow> \<exists>r'. nxt r = (Inr (), r') \<and> left r' vs"
begin

lemma drain_counts:
  "left r vs \<Longrightarrow> length vs \<le> fuel \<Longrightarrow>
     \<exists>r'. drain has_item nxt fuel n r = (Inr (n + length vs), r') \<and> left r' []"
proof (induction vs arbitrary: r n fuel)
  case Nil
  then show ?case by (auto simp: drain.simps [of has_item nxt] has_item_iff)
next
  case (Cons v vs)
  from Cons.prems(1) obtain r1 where r1: "nxt r = (Inr (), r1)" "left r1 vs"
    using nxt_item by blast
  from Cons.prems(2) obtain k where k: "fuel = Suc k" "length vs \<le> k"
    by (cases fuel) auto
  from Cons.IH [OF r1(2) k(2), of "n + 1"] r1(1) k(1) Cons.prems(1) show ?case
    by (subst drain.simps) (auto simp: has_item_iff)
qed

lemma skip_n_drops:
  "left r vs \<Longrightarrow> k \<le> length vs \<Longrightarrow> \<exists>r'. skip_n nxt k r = (Inr (), r') \<and> left r' (drop k vs)"
proof (induction k arbitrary: r vs)
  case 0
  then show ?case by simp
next
  case (Suc k)
  from Suc.prems(2) obtain w ws where ws: "vs = w # ws" by (cases vs) auto
  with Suc.prems(1) obtain r1 where r1: "nxt r = (Inr (), r1)" "left r1 ws"
    using nxt_item by blast
  from Suc.IH [OF r1(2)] Suc.prems(2) ws r1(1) show ?case
    by (auto simp: andthen_Inr)
qed

end

section \<open>Reading well-formed data\<close>

text \<open>
  \<open>reads r vs\<close>: the cursor stands before an encoding of the items \<open>vs\<close>, which ends
  where the view ends, and its item counter agrees with the view's cardinality.
\<close>

definition reads :: "mp_reader \<Rightarrow> mpv list \<Rightarrow> bool" where
  "reads r vs \<longleftrightarrow>
     (\<exists>pre e post. vmem (view r) = pre @ e @ post \<and> pos r = Some (length pre) \<and> wires vs e
        \<and> vbegin (view r) \<noteq> None
        \<and> (case vend (view r) of
             Some q \<Rightarrow> q = length pre + length e
           | None \<Rightarrow> item_limit (vkind (view r)) \<noteq> None)
        \<and> (case item_limit (vkind (view r)) of
             Some c \<Rightarrow> c = unat (ind r) + length vs \<and> c < 2 ^ 32
           | None \<Rightarrow> True))"

lemma reads_reader_of: "wires vs e \<Longrightarrow> reads (reader_of e) vs"
  unfolding reads_def
  by (rule exI [of _ "[]"], rule exI [of _ e], rule exI [of _ "[]"])
     (simp add: reader_of_def mp_reader_def mp_plain_def)

lemma wires_empty_iff: "wires vs e \<Longrightarrow> (e = []) = (vs = [])"
  by (cases vs) (auto simp: wires_Cons_iff dest: wire_nonempty)

lemma reads_has_next: "reads r vs \<Longrightarrow> has_next strict r = Inr (vs \<noteq> [])"
  by (cases "vend (view r)"; cases "item_limit (vkind (view r))")
     (auto simp: reads_def has_next_def dest: wires_empty_iff)

lemma unat_succ32: "unat (i :: u32) + 1 < 2 ^ 32 \<Longrightarrow> unat (i + 1) = unat i + 1"
  by (simp add: unat_word_ariths)

context msgpuck_lib
begin

lemma reads_skip:
  assumes r: "reads r (v # vs)"
  shows "\<exists>r'. skip mp r = (Inr (), r') \<and> reads r' vs \<and> view r' = view r"
proof -
  from r obtain pre e1 e2 post where m: "vmem (view r) = pre @ (e1 @ e2) @ post"
    and p: "pos r = Some (length pre)" and e1: "wire v e1" and e2: "wires vs e2"
    and b: "vbegin (view r) \<noteq> None"
    and nd: "case vend (view r) of Some q \<Rightarrow> q = length pre + length (e1 @ e2)
             | None \<Rightarrow> item_limit (vkind (view r)) \<noteq> None"
    and lim: "case item_limit (vkind (view r)) of Some c \<Rightarrow>
        c = unat (ind r) + length (v # vs) \<and> c < 2 ^ 32 | None \<Rightarrow> True"
    unfolding reads_def wires_Cons_iff by auto
  let ?r = "r\<lparr>pos := Some (length (pre @ e1)), ind := ind r + 1\<rparr>"
  have ne: "e1 \<noteq> []" using e1 by (rule wire_nonempty)
  have nxt: "mp_next mp (drop (length pre) (vmem (view r))) = length e1"
    using next_item [OF e1] m by simp
  have "skip mp r = (Inr (), ?r)"
    using p m nd lim nxt ne
    by (auto simp: skip_def Let_def split: option.splits)
  moreover have "reads ?r vs"
    unfolding reads_def using m b e2 nd lim
    by (intro exI [of _ "pre @ e1"] exI [of _ e2] exI [of _ post])
       (auto simp: unat_succ32 split: option.splits)
  ultimately show ?thesis by (intro exI [of _ ?r]) simp
qed

end

sublocale msgpuck_lib \<subseteq> cursor: item_cursor "has_next strict" "skip mp" reads
  for strict
proof (unfold_locales, goal_cases)
  case (1 r vs)
  then show ?case by (rule reads_has_next)
next
  case (2 r v vs)
  then show ?case using reads_skip by blast
qed

end
