(* ===== verification/Mp_Decode.thy ===== *)
theory Mp_Decode
  imports Mp_Reader "HOL-Library.Char_ord" "HOL-Library.AList"
begin

text \<open>
  \<^verbatim>\<open>operator>>\<close>, look-ups and checks of \<^verbatim>\<open>mp_reader\<close>. An operation gives the value it
  stores; the reader is as the code leaves it, also when it throws.
\<close>

section \<open>Access to the current item\<close>

definition at_pos :: "mp_reader \<Rightarrow> bytes" where
  "at_pos r = (case pos r of None \<Rightarrow> [] | Some p \<Rightarrow> drop p (vmem (view r)))"

definition no_data :: cpp_error where
  "no_data = RuntimeError ''no msgpack data to read''"

definition expected :: "string \<Rightarrow> mp_type \<Rightarrow> cpp_error" where
  "expected what t = ReaderError (what @ '' expected, got '' @ mpuck_type_name t)"

section \<open>Integers\<close>

text \<open>The integral types: signed or not, and the number of bits.\<close>

definition int_max :: "bool \<Rightarrow> nat \<Rightarrow> int" where
  "int_max sg w = (if sg then 2 ^ (w - 1) - 1 else 2 ^ w - 1)"

definition int_min :: "bool \<Rightarrow> nat \<Rightarrow> int" where
  "int_min sg w = (if sg then - (2 ^ (w - 1)) else 0)"

text \<open>
  \<^verbatim>\<open>std::from_chars\<close> for decimal integers: the longest prefix that is a number, anything
  behind it is ignored.
\<close>

definition is_digit :: "char \<Rightarrow> bool" where
  "is_digit c \<longleftrightarrow> CHR ''0'' \<le> c \<and> c \<le> CHR ''9''"

definition digits_value :: "string \<Rightarrow> nat" where
  "digits_value s = foldl (\<lambda>a c. a * 10 + (of_char c - 48)) 0 s"

definition from_chars :: "bool \<Rightarrow> nat \<Rightarrow> string \<Rightarrow> int result" where
  "from_chars sg w s =
     (let neg = (sg \<and> s \<noteq> [] \<and> hd s = CHR ''-'');
          ds = takeWhile is_digit (if neg then tl s else s);
          n = int (digits_value ds); v = (if neg then - n else n) in
      if ds = [] then Inl (ReaderError ''not a number'')
      else if v < int_min sg w \<or> int_max sg w < v then Inl (ReaderError ''out of range'')
      else Inr v)"

text \<open>
  The comparisons of the signed result with the bounds of a 64-bit unsigned type are carried
  out unsigned.
\<close>

definition read_int :: "msgpuck \<Rightarrow> bool \<Rightarrow> nat \<Rightarrow> (mp_reader, int) op" where
  "read_int mp sg w r =
     seq (skip mp) (\<lambda>_ r'.
       let data = at_pos r in
       case mp_typeof mp (hd data) of
         MP_UINT \<Rightarrow>
           (let res = fst (mp_decode_uint mp data) in
            if uint res \<le> int_max sg w then (Inr (uint res), r')
            else (Inl (ReaderError ''value overflow''), r'))
       | MP_INT \<Rightarrow>
           (let res = fst (mp_decode_int mp data);
                v = (if \<not> sg \<and> w = 64 then uint res else sint res) in
            if v \<le> int_max sg w \<and> int_min sg w \<le> v then (Inr v, r')
            else (Inl (ReaderError ''value overflow''), r'))
       | MP_EXT \<Rightarrow>
           (case mp_snprint mp 0 data of
              None \<Rightarrow> (Inl Overrun, r')
            | Some s \<Rightarrow> if 64 \<le> length s then (Inl Overrun, r') else (from_chars sg w s, r'))
       | t \<Rightarrow> (Inl (expected ''integer'' t), r')) r"

section \<open>Strings and booleans\<close>

text \<open>A \<^verbatim>\<open>string_view\<close>: the bytes, or no data at all.\<close>

definition read_string_view :: "msgpuck \<Rightarrow> (mp_reader, bytes option) op" where
  "read_string_view mp r =
     (case has_next False r of
        Inl e \<Rightarrow> (Inl e, r)
      | Inr False \<Rightarrow> (Inr None, r)
      | Inr True \<Rightarrow>
          (case peek_type mp r of
             Inl e \<Rightarrow> (Inl e, r)
           | Inr MP_STR \<Rightarrow>
               seq (skip mp) (\<lambda>_ r'.
                 let (len, k) = mp_decode_strl mp (at_pos r); s = take (unat len) (drop k (at_pos r)) in
                 if length s < unat len then (Inl Overrun, r') else (Inr (Some s), r')) r
           | Inr MP_NIL \<Rightarrow> seq (skip mp) (\<lambda>_ r'. (Inr None, r')) r
           | Inr t \<Rightarrow> (Inl (expected ''string'' t), r)))"

text \<open>
  \<^verbatim>\<open>std::string\<close>. The text of an extension value is printed into a buffer of \<open>n\<close> bytes, with a
  zero behind it; \<^verbatim>\<open>UNQUOTE_UUID\<close> is a flag of the library.
\<close>

definition snprint_to :: "nat \<Rightarrow> string \<Rightarrow> bytes" where
  "snprint_to n s = map of_char (take (n - 1) s) @ [0]"

definition read_string :: "msgpuck \<Rightarrow> u32 \<Rightarrow> nat \<Rightarrow> (mp_reader, bytes) op" where
  "read_string mp unquote_uuid old_size r =
     (if pos r = None then (Inl no_data, r)
      else case peek_type mp r of
          Inl e \<Rightarrow> (Inl e, r)
        | Inr t \<Rightarrow>
            if t = MP_EXT
            then (case mp_snprint mp unquote_uuid (at_pos r) of
                None \<Rightarrow> (Inl (LengthError ''basic_string::_M_replace_aux''), r)
              | Some s \<Rightarrow>
                  let n = max 128 old_size; size = (if n < length s then length s + 1 else n) in
                  seq (skip mp) (\<lambda>_ r'. (Inr (take (length s) (snprint_to size s)), r')) r)
            else seq (read_string_view mp) (\<lambda>v r'.
                case v of
                  None \<Rightarrow> (Inl (ReaderError ''string expected, got no data''), r')
                | Some s \<Rightarrow> (Inr s, r')) r)"

definition read_bool :: "msgpuck \<Rightarrow> (mp_reader, bool) op" where
  "read_bool mp r =
     (if pos r = None then (Inl no_data, r)
      else case peek_type mp r of
          Inl e \<Rightarrow> (Inl e, r)
        | Inr t \<Rightarrow>
            if t \<noteq> MP_BOOL then (Inl (expected ''boolean'' t), r)
            else let val = fst (mp_decode_bool mp (at_pos r)) in seq (skip mp) (\<lambda>_ r'. (Inr val, r')) r)"

definition to_string :: "msgpuck \<Rightarrow> u32 \<Rightarrow> (mp_reader, string) op" where
  "to_string mp flags r =
     seq (skip mp) (\<lambda>_ r'.
       case mp_snprint mp flags (at_pos r) of
         None \<Rightarrow> (Inl (ReaderError ''mp_snprint error''), r')
       | Some s \<Rightarrow> (Inr s, r')) r"

section \<open>Containers\<close>

text \<open>Readers of the array or map at the current position.\<close>

definition read_array :: "msgpuck \<Rightarrow> (mp_reader, mp_reader) op" where
  "read_array mp r =
     (case mp_array mp (vmem (view r)) (pos r) None of
        Inl e \<Rightarrow> (Inl e, r)
      | Inr v \<Rightarrow> seq (skip mp) (\<lambda>_ r'.
          (Inr (mp_reader (if vend v = None then v\<lparr>vend := pos r'\<rparr> else v)), r')) r)"

definition read_map :: "msgpuck \<Rightarrow> (mp_reader, mp_reader) op" where
  "read_map mp r =
     (case pos r of
        None \<Rightarrow> (Inl Overrun, r)
      | Some p \<Rightarrow>
          (case mp_map mp (vmem (view r)) p None of
             Inl e \<Rightarrow> (Inl e, r)
           | Inr v \<Rightarrow> seq (skip mp) (\<lambda>_ r'. (Inr (mp_reader (v\<lparr>vend := pos r'\<rparr>)), r')) r))"

text \<open>Reading \<open>n\<close> values in turn.\<close>

primrec read_n :: "('r, 'a) op \<Rightarrow> nat \<Rightarrow> ('r, 'a list) op" where
  "read_n rd 0 = ret []"
| "read_n rd (Suc k) = seq rd (\<lambda>x. seq (read_n rd k) (\<lambda>xs. ret (x # xs)))"

primrec read_each :: "('b \<Rightarrow> ('r, 'a) op) \<Rightarrow> 'b list \<Rightarrow> ('r, 'a list) op" where
  "read_each rd [] = ret []"
| "read_each rd (t # ts) = seq (rd t) (\<lambda>x. seq (read_each rd ts) (\<lambda>xs. ret (x # xs)))"

definition card_of :: "mp_reader \<Rightarrow> nat" where
  "card_of r = (case cardinality (vkind (view r)) of None \<Rightarrow> 0 | Some c \<Rightarrow> c)"

definition read_vector :: "msgpuck \<Rightarrow> (mp_reader, 'a) op \<Rightarrow> (mp_reader, 'a list) op" where
  "read_vector mp rd =
     seq (read_array mp) (\<lambda>arr r. (fst (read_n rd (card_of arr) arr), r))"

definition read_tuple :: "msgpuck \<Rightarrow> ('b \<Rightarrow> (mp_reader, 'a) op) \<Rightarrow> 'b list \<Rightarrow> (mp_reader, 'a list) op" where
  "read_tuple mp rd ts = seq (read_array mp) (\<lambda>arr r. (fst (read_each rd ts arr), r))"

text \<open>
  \<^verbatim>\<open>std::map\<close> as the list of its pairs, one per key: a later value for the same key replaces the
  earlier one.
\<close>

definition read_pair :: "('r, 'a) op \<Rightarrow> ('r, 'b) op \<Rightarrow> ('r, 'a \<times> 'b) op" where
  "read_pair rk rv = seq rk (\<lambda>k. seq rv (\<lambda>v. ret (k, v)))"

definition read_std_map :: "msgpuck \<Rightarrow> (mp_reader, 'a) op \<Rightarrow> (mp_reader, 'b) op \<Rightarrow> (mp_reader, ('a \<times> 'b) list) op" where
  "read_std_map mp rk rv =
     seq (read_map mp) (\<lambda>m r.
       (case fst (read_n (read_pair rk rv) (card_of m) m) of
          Inl e \<Rightarrow> Inl e
        | Inr kvs \<Rightarrow> Inr (fold (\<lambda>(k, v). AList.update k v) kvs []), r))"

definition read_optional :: "msgpuck \<Rightarrow> (mp_reader, 'a) op \<Rightarrow> (mp_reader, 'a option) op" where
  "read_optional mp rd r =
     (case has_next True r of
        Inl e \<Rightarrow> (Inl e, r)
      | Inr False \<Rightarrow> (Inr None, r)
      | Inr True \<Rightarrow>
          (case peek_type mp r of
             Inl e \<Rightarrow> (Inl e, r)
           | Inr t \<Rightarrow> if t = MP_NIL then seq (skip mp) (\<lambda>_. ret None) r else seq rd (\<lambda>v. ret (Some v)) r))"

definition read_or :: "msgpuck \<Rightarrow> (mp_reader, 'a) op \<Rightarrow> 'a \<Rightarrow> (mp_reader, 'a) op" where
  "read_or mp rd d r =
     (case has_next True r of
        Inl e \<Rightarrow> (Inl e, r)
      | Inr False \<Rightarrow> (Inr d, r)
      | Inr True \<Rightarrow>
          (case peek_type mp r of
             Inl e \<Rightarrow> (Inl e, r)
           | Inr t \<Rightarrow> if t = MP_NIL then seq (skip mp) (\<lambda>_. ret d) r else rd r))"

section \<open>Comparison and look-up\<close>

text \<open>
  \<^verbatim>\<open>equals\<close> for integers and enumerations, booleans and strings. The value is compared as a
  number; the position does not move.
\<close>

definition equals_int :: "msgpuck \<Rightarrow> int \<Rightarrow> mp_reader \<Rightarrow> bool result" where
  "equals_int mp val r =
     (case has_next False r of
        Inl e \<Rightarrow> Inl e
      | Inr False \<Rightarrow> Inl (ReaderError ''read out of bounds'')
      | Inr True \<Rightarrow>
          (case peek_type mp r of
             Inl e \<Rightarrow> Inl e
           | Inr t \<Rightarrow>
               if t = MP_UINT \<and> 0 \<le> val
               then Inr (uint (fst (mp_decode_uint mp (at_pos r))) = val)
               else if t = MP_INT
               then let res = sint (fst (mp_decode_int mp (at_pos r))) in
                    if res < 0 \<and> val < 0 then Inr (res = val)
                    else if 0 \<le> res \<and> 0 \<le> val then Inr (res = val)
                    else Inr False
               else Inr False))"

definition equals_bool :: "msgpuck \<Rightarrow> bool \<Rightarrow> mp_reader \<Rightarrow> bool result" where
  "equals_bool mp val r =
     (case has_next False r of
        Inl e \<Rightarrow> Inl e
      | Inr False \<Rightarrow> Inl (ReaderError ''read out of bounds'')
      | Inr True \<Rightarrow>
          (case peek_type mp r of
             Inl e \<Rightarrow> Inl e
           | Inr t \<Rightarrow>
               if t \<noteq> MP_BOOL then Inr False
               else map_sum id (\<lambda>b. val = b)
                 (fst (read_bool mp (mp_reader (mp_plain (vmem (view r)) (pos r) None))))))"

definition equals_str :: "msgpuck \<Rightarrow> bytes option \<Rightarrow> mp_reader \<Rightarrow> bool result" where
  "equals_str mp val r =
     (case has_next False r of
        Inl e \<Rightarrow> Inl e
      | Inr False \<Rightarrow> Inl (ReaderError ''read out of bounds'')
      | Inr True \<Rightarrow>
          (case peek_type mp r of
             Inl e \<Rightarrow> Inl e
           | Inr t \<Rightarrow>
               (case val of
                  None \<Rightarrow> Inr (t = MP_NIL)
                | Some s \<Rightarrow>
                    if t = MP_STR
                    then map_sum id (\<lambda>v. v = Some s)
                      (fst (read_string_view mp (mp_reader (mp_plain (vmem (view r)) (pos r) None))))
                    else Inr False)))"

text \<open>
  \<^verbatim>\<open>mp_map::find\<close> with the comparison for the type of the key; the view without bounds is the
  answer for "not found".
\<close>

definition no_view :: mp_view where
  "no_view = mp_plain [] None None"

fun find_pair :: "msgpuck \<Rightarrow> (mp_reader \<Rightarrow> bool result) \<Rightarrow> nat \<Rightarrow> (mp_reader, mp_view) op" where
  "find_pair mp eq 0 tmp = (Inr no_view, tmp)"
| "find_pair mp eq (Suc n) tmp =
     (case eq tmp of
        Inl e \<Rightarrow> (Inl e, tmp)
      | Inr found \<Rightarrow>
          (case skip mp tmp of
             (Inl e, t1) \<Rightarrow> (Inl e, t1)
           | (Inr _, t1) \<Rightarrow>
               (case skip mp t1 of
                  (Inl e, t2) \<Rightarrow> (Inl e, t2)
                | (Inr _, t2) \<Rightarrow>
                    if found then (Inr (mp_plain (vmem (view tmp)) (pos t1) (pos t2)), t2)
                    else find_pair mp eq n t2)))"

definition map_find :: "msgpuck \<Rightarrow> (mp_reader \<Rightarrow> bool result) \<Rightarrow> mp_view \<Rightarrow> mp_view result" where
  "map_find mp eq v =
     fst (find_pair mp eq (case cardinality (vkind v) of None \<Rightarrow> 0 | Some c \<Rightarrow> c)
            (mp_reader (mp_plain (vmem v) (vbegin v) (vend v))))"

definition map_at :: "msgpuck \<Rightarrow> (mp_reader \<Rightarrow> bool result) \<Rightarrow> mp_view \<Rightarrow> mp_view result" where
  "map_at mp eq v =
     (case map_find mp eq v of
        Inl e \<Rightarrow> Inl e
      | Inr res \<Rightarrow> if view_bool res then Inr res else Inl (ReaderError ''key not found''))"

text \<open>
  The value at an index: the items before it are skipped from the current position, or from
  the beginning if that is already behind it.
\<close>

definition reader_at :: "msgpuck \<Rightarrow> nat \<Rightarrow> mp_reader \<Rightarrow> mp_reader result" where
  "reader_at mp index r =
     (let (tmp, i) = (if unat (ind r) \<le> index then (r, unat (ind r)) else (rewind r, 0)) in
      case skip_n (skip mp) (index - i) tmp of
        (Inl e, _) \<Rightarrow> Inl e
      | (Inr _, t1) \<Rightarrow>
          (case skip mp t1 of
             (Inl e, _) \<Rightarrow> Inl e
           | (Inr _, t2) \<Rightarrow> Inr (mp_reader (mp_plain (vmem (view r)) (pos t1) (pos t2)))))"

section \<open>Validation\<close>

definition check_next :: "msgpuck \<Rightarrow> mp_reader \<Rightarrow> unit result" where
  "check_next mp r =
     (case pos r of
        None \<Rightarrow> Inr ()
      | Some p \<Rightarrow>
          (case vend (view r) of
             None \<Rightarrow> Inl (ReaderError ''right bound is not specified'')
           | Some e \<Rightarrow>
               if e \<le> p then Inl (ReaderError ''read out of bounds'')
               else (case mp_check mp (take (e - p) (at_pos r)) of
                   None \<Rightarrow> Inl (ReaderError ''invalid messagepack'')
                 | Some _ \<Rightarrow> Inr ())))"

text \<open>All items of the view; a checked item has at least one byte, so the bytes are the fuel.\<close>

fun check_items :: "msgpuck \<Rightarrow> nat \<Rightarrow> bytes \<Rightarrow> unit result" where
  "check_items mp fuel [] = Inr ()"
| "check_items mp 0 bs = Inl Diverged"
| "check_items mp (Suc k) bs =
     (case mp_check mp bs of
        None \<Rightarrow> Inl (ReaderError ''invalid messagepack'')
      | Some n \<Rightarrow> check_items mp k (drop n bs))"

definition check_all :: "msgpuck \<Rightarrow> mp_reader \<Rightarrow> unit result" where
  "check_all mp r =
     (case vbegin (view r) of
        None \<Rightarrow> Inr ()
      | Some b \<Rightarrow>
          (case vend (view r) of
             None \<Rightarrow> Inl (ReaderError ''right bound is not specified'')
           | Some e \<Rightarrow>
               let bs = take (e - b) (drop b (vmem (view r))) in check_items mp (length bs) bs))"

end
