(* ===== verification/Mp_Views.thy ===== *)
theory Mp_Views
  imports Mp_Decode Misc
begin

text \<open>
  \<^verbatim>\<open>mp_reader.h\<close>, the rest: views with a given cardinality and their indexing, look-ups that give
  readers, spans, points in time, and the text of the errors.
\<close>

section \<open>Arrays and maps by index and by key\<close>

text \<open>The constructors that take \<^verbatim>\<open>begin\<close> for the first item.\<close>

definition mp_array_of :: "bytes \<Rightarrow> nat option \<Rightarrow> nat option \<Rightarrow> nat \<Rightarrow> mp_view" where
  "mp_array_of m b e c = \<lparr>vmem = m, vkind = Array c, vbegin = b, vend = e\<rparr>"

definition mp_map_of :: "bytes \<Rightarrow> nat option \<Rightarrow> nat option \<Rightarrow> nat \<Rightarrow> mp_view" where
  "mp_map_of m b e c = \<lparr>vmem = m, vkind = Map c, vbegin = b, vend = e\<rparr>"

text \<open>
  \<^verbatim>\<open>mp_array::operator[]\<close>: the loop goes on while the unsigned index is not negative; \<open>prev\<close> and \<open>p\<close> are
  \<^verbatim>\<open>prev_pos\<close> and \<^verbatim>\<open>pos\<close>. The fuel bounds the number of rounds.
\<close>

fun index_loop :: "msgpuck \<Rightarrow> bytes \<Rightarrow> nat \<Rightarrow> u64 \<Rightarrow> nat \<Rightarrow> nat \<Rightarrow> (nat \<times> nat) result" where
  "index_loop mp m 0 i prev p = Inl Diverged"
| "index_loop mp m (Suc k) i prev p =
     (if 0 \<le> i
      then (if length m \<le> p then Inl Overrun
            else index_loop mp m k (i - 1) p (p + mp_next mp (drop p m)))
      else Inr (prev, p))"

definition array_at :: "msgpuck \<Rightarrow> nat \<Rightarrow> mp_view \<Rightarrow> u64 \<Rightarrow> mp_view result" where
  "array_at mp fuel v i =
     (case vbegin v of
        None \<Rightarrow> Inl Overrun
      | Some b \<Rightarrow> map_sum id (\<lambda>(p, q). mp_plain (vmem v) (Some p) (Some q)) (index_loop mp (vmem v) fuel i b b))"

text \<open>\<^verbatim>\<open>operator[]\<close> and \<^verbatim>\<open>find\<close> of a reader of a map, with the comparison for the type of the key.\<close>

definition map_reader_at :: "msgpuck \<Rightarrow> (mp_reader \<Rightarrow> bool result) \<Rightarrow> mp_reader \<Rightarrow> mp_reader result" where
  "map_reader_at mp eq r = map_sum id mp_reader (map_at mp eq (view r))"

definition map_reader_find :: "msgpuck \<Rightarrow> (mp_reader \<Rightarrow> bool result) \<Rightarrow> mp_reader \<Rightarrow> mp_reader result" where
  "map_reader_find mp eq r = map_sum id mp_reader (map_find mp eq (view r))"

definition reader_bool :: "mp_reader \<Rightarrow> bool" where
  "reader_bool r = view_bool (view r)"

section \<open>Spans\<close>

text \<open>Up to \<open>max_n\<close> items with the right bound of each, relative to the first.\<close>

primrec span_loop :: "msgpuck \<Rightarrow> nat \<Rightarrow> nat \<Rightarrow> nat list \<Rightarrow> (mp_reader, nat list) op" where
  "span_loop mp start 0 bounds r = (Inr bounds, r)"
| "span_loop mp start (Suc k) bounds r =
     (case has_next False r of
        Inl e \<Rightarrow> (Inl e, r)
      | Inr False \<Rightarrow> (Inr bounds, r)
      | Inr True \<Rightarrow>
          (case skip mp r of
             (Inl e, r') \<Rightarrow> (Inl e, r')
           | (Inr _, r') \<Rightarrow>
               (case pos r' of
                  None \<Rightarrow> (Inl Overrun, r')
                | Some p \<Rightarrow> span_loop mp start k (bounds @ [(p - start) mod 2 ^ 32]) r')))"

text \<open>Reading into a new span, which is what \<^verbatim>\<open>read<maxN>()\<close> and the constructor of a span do.\<close>

definition read_span :: "msgpuck \<Rightarrow> nat \<Rightarrow> (mp_reader, mp_view) op" where
  "read_span mp max_n r =
     seq (span_loop mp (case pos r of None \<Rightarrow> 0 | Some p \<Rightarrow> p) max_n [])
       (\<lambda>bounds r'. (Inr \<lparr>vmem = vmem (view r), vkind = Span (length bounds) bounds,
           vbegin = pos r, vend = pos r'\<rparr>, r')) r"

definition mp_span :: "msgpuck \<Rightarrow> nat \<Rightarrow> bytes \<Rightarrow> nat option \<Rightarrow> nat option \<Rightarrow> mp_view result" where
  "mp_span mp max_n m b e = fst (read_span mp max_n (mp_reader (mp_plain m b e)))"

text \<open>
  \<^verbatim>\<open>sub<maxResN>(first, last)\<close>: a span of \<open>max_res\<close> places into which the right bounds are copied as
  they are, relative to the first item of the original span.
\<close>

definition span_sub :: "nat \<Rightarrow> nat \<Rightarrow> nat \<Rightarrow> mp_view \<Rightarrow> mp_view result" where
  "span_sub max_res first_ind last_ind v =
     (case (vkind v, vbegin v) of
        (Span c bounds, Some b) \<Rightarrow>
          if last_ind < first_ind then Inl (ReaderError ''first_ind > last_ind'')
          else if c \<le> last_ind then Inl (ReaderError ''read out of bounds'')
          else let n = last_ind - first_ind + 1 in
               if max_res < n then Inl Overrun
               else Inr \<lparr>vmem = vmem v, vkind = Span n (take n (drop first_ind bounds)),
                 vbegin = Some (b + (if first_ind = 0 then 0 else bounds ! (first_ind - 1))),
                 vend = Some (b + bounds ! last_ind)\<rparr>
      | _ \<Rightarrow> Inl Overrun)"

text \<open>An index behind the last item denotes nil, which truncated trailing fields are.\<close>

definition span_at :: "nat \<Rightarrow> mp_view \<Rightarrow> mp_view result" where
  "span_at i v =
     (case cardinality (vkind v) of
        None \<Rightarrow> Inl Overrun
      | Some c \<Rightarrow>
          if c \<le> i then Inr (mp_plain [0xc0] (Some 0) (Some 1))
          else map_sum id (\<lambda>s. mp_plain (vmem s) (vbegin s) (vend s)) (span_sub 1 i i v))"

text \<open>\<^verbatim>\<open>operator[]\<close> of a reader: a span knows where its items are, other views are skipped through.\<close>

definition reader_index :: "msgpuck \<Rightarrow> nat \<Rightarrow> mp_reader \<Rightarrow> mp_reader result" where
  "reader_index mp i r =
     (case vkind (view r) of
        Span c bounds \<Rightarrow> map_sum id mp_reader (span_at i (view r))
      | _ \<Rightarrow> reader_at mp i r)"

section \<open>Points in time\<close>

text \<open>
  The duration since the epoch a \<^verbatim>\<open>time_point\<close> is set to, before it is converted to the unit of its
  type: a number of the type's own ticks, the same as a floating point number, seconds or nanoseconds.
\<close>

datatype 'd since_epoch = Ticks int | FloatTicks 'd | Seconds int | Nanoseconds int

text \<open>The bytes of an integer as they lie in the memory of a little-endian machine (\<^verbatim>\<open>memcpy\<close>).\<close>

definition of_le :: "nat \<Rightarrow> bytes \<Rightarrow> int" where
  "of_le k bs = signed_take_bit (8 * k - 1) (int (of_be (rev (take k bs))))"

text \<open>
  \<open>rd\<close> is \<^verbatim>\<open>read<double>()\<close>. The computation in nanoseconds is one of 64 bits, whose overflow C++
  leaves undefined.
\<close>

definition datetime :: "bytes \<Rightarrow> 'd since_epoch result" where
  "datetime data =
     (let epoch = of_le 8 data;
          nsec = (if length data = 8 then 0 else of_le 4 (drop 8 data));
          ns = nsec + epoch * 1000000000 in
      if nsec = 0 then Inr (Seconds epoch)
      else if - (2 ^ 63) \<le> epoch * 1000000000 \<and> epoch * 1000000000 < 2 ^ 63 \<and> - (2 ^ 63) \<le> ns \<and> ns < 2 ^ 63
      then Inr (Nanoseconds ns)
      else Inl Overrun)"

definition read_time :: "msgpuck \<Rightarrow> (mp_reader, 'd) op \<Rightarrow> (mp_reader, 'd since_epoch) op" where
  "read_time mp rd r =
     (if pos r = None then (Inl no_data, r)
      else case peek_type mp r of
          Inl e \<Rightarrow> (Inl e, r)
        | Inr t \<Rightarrow>
            if t = MP_UINT \<or> t = MP_INT then seq (read_int mp True 64) (\<lambda>i. ret (Ticks i)) r
            else if t = MP_FLOAT \<or> t = MP_DOUBLE then seq rd (\<lambda>d. ret (FloatTicks d)) r
            else if t = MP_EXT
            then let (len, ext_type, k) = mp_decode_extl mp (at_pos r);
                     data = take (unat len) (drop k (at_pos r)) in
                 if ext_type \<noteq> mp_ext_datetime mp
                 then (Inl (ReaderError (''unable to extract time_point from '' @ mpuck_type_name t)), r)
                 else if unat len \<noteq> 8 \<and> unat len \<noteq> 16
                 then (Inl (ReaderError ''unexpected MP_DATETIME value''), r)
                 else if length data < unat len then (Inl Overrun, r)
                 else (case datetime data of
                     Inl e \<Rightarrow> (Inl e, r)
                   | Inr v \<Rightarrow> seq (skip mp) (\<lambda>_. ret v) r)
            else (Inl (ReaderError (''unable to get time_point from '' @ mpuck_type_name t)), r))"

section \<open>The text of errors\<close>

text \<open>
  \<^verbatim>\<open>hex_dump_mp\<close>: a view without a right bound is dumped up to where its items end. An error takes its
  view as an \<^verbatim>\<open>mp_plain\<close>, so that its dump needs the right bound.
\<close>

definition dump_range :: "bytes \<Rightarrow> nat \<Rightarrow> nat \<Rightarrow> nat option \<Rightarrow> string result" where
  "dump_range m b e p =
     (if e < b then Inl (LengthError ''basic_string::reserve'')
      else if length m < e then Inl Overrun
      else Inr (hex_dump (take (e - b) (drop b m)) (map_option (\<lambda>q. int q - int b) p)))"

definition hex_dump_mp :: "msgpuck \<Rightarrow> mp_view \<Rightarrow> nat option \<Rightarrow> string result" where
  "hex_dump_mp mp v p =
     (case vbegin v of
        None \<Rightarrow> Inr ''''
      | Some b \<Rightarrow>
          (case vend v of
             Some e \<Rightarrow> dump_range (vmem v) b e p
           | None \<Rightarrow>
               (case cardinality (vkind v) of
                  None \<Rightarrow> Inr ''''
                | Some c \<Rightarrow>
                    (case skip_n (skip mp) c (mp_reader v) of
                       (Inl er, _) \<Rightarrow> Inl er
                     | (Inr _, tmp) \<Rightarrow>
                         (case pos tmp of None \<Rightarrow> Inl Overrun | Some e \<Rightarrow> dump_range (vmem v) b e p)))))"

definition error_text :: "msgpuck \<Rightarrow> string \<Rightarrow> mp_view \<Rightarrow> nat option \<Rightarrow> string result" where
  "error_text mp msg v p =
     map_sum id (\<lambda>d. msg @ [CHR 0x0A] @ d) (hex_dump_mp mp (mp_plain (vmem v) (vbegin v) (vend v)) p)"

end
