(* ===== verification/Reader_Laws.thy ===== *)
theory Reader_Laws
  imports Mp_Decode
begin

text \<open>
  Reading typed values: the overloads of \<^verbatim>\<open>operator>>\<close> as one recursive function over a
  datatype of C++ types, and its agreement with a reference interpretation of MessagePack
  values.
\<close>

section \<open>Typed reading\<close>

datatype rty = TInt bool nat | TBool | TString | TView | TOpt rty | TVec rty | TTup "rty list" | TMap rty rty

datatype rval =
    VInt int | VBool bool | VString bytes | VView "bytes option" | VOpt "rval option"
  | VVec "rval list" | VTup "rval list" | VMap "(rval \<times> rval) list"

lemma read_each_cong:
  "ts = us \<Longrightarrow> (\<And>t. t \<in> set us \<Longrightarrow> f t = g t) \<Longrightarrow> read_each f ts = read_each g us"
  by (induction ts arbitrary: us) auto

lemma read_tuple_cong [fundef_cong]:
  "mp = mq \<Longrightarrow> ts = us \<Longrightarrow> (\<And>t. t \<in> set us \<Longrightarrow> f t = g t) \<Longrightarrow> read_tuple mp f ts = read_tuple mq g us"
  unfolding read_tuple_def using read_each_cong [of ts us f g] by simp

definition returning :: "('a \<Rightarrow> 'b) \<Rightarrow> ('s, 'a) op \<Rightarrow> ('s, 'b) op" where
  "returning f rd = seq rd (\<lambda>x. ret (f x))"

fun read_val :: "msgpuck \<Rightarrow> rty \<Rightarrow> (mp_reader, rval) op" where
  "read_val mp (TInt sg w) = returning VInt (read_int mp sg w)"
| "read_val mp TBool = returning VBool (read_bool mp)"
| "read_val mp TString = returning VString (read_string mp 0 0)"
| "read_val mp TView = returning VView (read_string_view mp)"
| "read_val mp (TOpt t) = returning VOpt (read_optional mp (read_val mp t))"
| "read_val mp (TVec t) = returning VVec (read_vector mp (read_val mp t))"
| "read_val mp (TTup ts) = returning VTup (read_tuple mp (read_val mp) ts)"
| "read_val mp (TMap tk tv) = returning VMap (read_std_map mp (read_val mp tk) (read_val mp tv))"

section \<open>What a MessagePack value denotes as a value of a type\<close>

fun pair_up :: "'a list \<Rightarrow> ('a \<times> 'a) list" where
  "pair_up (k # v # xs) = (k, v) # pair_up xs"
| "pair_up _ = []"

lemma set_zip_size [termination_simp]: "(t, v) \<in> set (zip ts vs) \<Longrightarrow> size t < Suc (size_list size ts)"
  by (drule set_zip_leftD, drule size_list_estimation' [of _ _ "size _" size]) auto

definition all_some :: "'a option list \<Rightarrow> 'a list option" where
  "all_some xs = (if None \<in> set xs then None else Some (map the xs))"

fun as_read :: "rty \<Rightarrow> mpv \<Rightarrow> rval option" where
  "as_read (TInt sg w) v =
     (case v of
        MUint n \<Rightarrow> if int n \<le> int_max sg w then Some (VInt (int n)) else None
      | MInt i \<Rightarrow> if int_min sg w \<le> i \<and> i \<le> int_max sg w then Some (VInt i) else None
      | _ \<Rightarrow> None)"
| "as_read TBool v = (case v of MBool b \<Rightarrow> Some (VBool b) | _ \<Rightarrow> None)"
| "as_read TString v = (case v of MStr s \<Rightarrow> Some (VString s) | _ \<Rightarrow> None)"
| "as_read TView v = (case v of MStr s \<Rightarrow> Some (VView (Some s)) | MNil \<Rightarrow> Some (VView None) | _ \<Rightarrow> None)"
| "as_read (TOpt t) v =
     (if v = MNil then Some (VOpt None) else map_option (\<lambda>x. VOpt (Some x)) (as_read t v))"
| "as_read (TVec t) v =
     (case v of MArray vs \<Rightarrow> map_option VVec (all_some (map (as_read t) vs)) | _ \<Rightarrow> None)"
| "as_read (TTup ts) v =
     (case v of
        MArray vs \<Rightarrow>
          if length ts \<le> length vs
          then map_option VTup (all_some (map (\<lambda>(t, v). as_read t v) (zip ts vs))) else None
      | _ \<Rightarrow> None)"
| "as_read (TMap tk tv) v =
     (case v of
        MMap vs \<Rightarrow>
          if length vs < 2 ^ 32
          then map_option (\<lambda>kvs. VMap (fold (\<lambda>(k, v). AList.update k v) kvs []))
            (all_some (map (\<lambda>(k, v). case (as_read tk k, as_read tv v) of
                (Some x, Some y) \<Rightarrow> Some (x, y) | _ \<Rightarrow> None) (pair_up vs)))
          else None
      | _ \<Rightarrow> None)"

section \<open>The cursor on an item\<close>

text \<open>
  The cursor stands on the encoding \<open>e\<close> of \<open>v\<close>; \<open>r'\<close> is the cursor behind it. A reading operation
  delivers \<open>x\<close> for \<open>v\<close> if on any such cursor it gives \<open>x\<close> and stops behind the item.
\<close>

definition item_at :: "msgpuck \<Rightarrow> mp_reader \<Rightarrow> mpv \<Rightarrow> mpv list \<Rightarrow> bytes \<Rightarrow> bytes \<Rightarrow> mp_reader \<Rightarrow> bool" where
  "item_at mp r v vs e rest r' \<longleftrightarrow>
     at_pos r = e @ rest \<and> wire v e \<and> peek_type mp r = Inr (mpv_type v)
     \<and> mp_typeof mp (hd (e @ rest)) = mpv_type v
     \<and> skip mp r = (Inr (), r') \<and> reads r' vs \<and> pos r \<noteq> None \<and> view r' = view r
     \<and> has_next True r = Inr True \<and> has_next False r = Inr True
     \<and> pos r' = map_option (\<lambda>p. p + length e) (pos r)"

definition delivers :: "(mp_reader, 'a) op \<Rightarrow> mpv \<Rightarrow> 'a \<Rightarrow> bool" where
  "delivers rd v x \<longleftrightarrow> (\<forall>r vs. reads r (v # vs) \<longrightarrow> (\<exists>r'. rd r = (Inr x, r') \<and> reads r' vs))"

lemma deliversE:
  assumes "delivers rd v x" and "reads r (v # vs)"
  obtains r' where "rd r = (Inr x, r')" and "reads r' vs"
  using assms by (auto simp: delivers_def)

lemma delivers_returning: "delivers rd v x \<Longrightarrow> delivers (returning f rd) v (f x)"
  by (fastforce simp: delivers_def returning_def seq_def)

context msgpuck_lib
begin

lemma reads_item:
  assumes r: "reads r (v # vs)"
  obtains e rest r' where "item_at mp r v vs e rest r'"
proof -
  from r obtain pre e1 e2 post where m: "vmem (view r) = pre @ (e1 @ e2) @ post"
    and p: "pos r = Some (length pre)" and e1: "wire v e1" and e2: "wires vs e2"
    unfolding reads_def wires_Cons_iff by auto
  from e1 obtain b bs where b: "e1 = b # bs" by (cases e1) (auto dest: wire_nonempty)
  from reads_skip [OF r] obtain r' where r': "skip mp r = (Inr (), r')" "reads r' vs" "view r' = view r"
    by blast
  have "mp_next mp (drop (length pre) (vmem (view r))) = length e1"
    using next_item [OF e1] m by simp
  with r'(1) p have "pos r' = Some (length pre + length e1)"
    by (auto simp: skip_def Let_def split: if_splits)
  moreover have "peek_type mp r = Inr (mpv_type v)"
    using typeof_wire [OF e1] m p b by (simp add: peek_type_def deref_def)
  ultimately have "item_at mp r v vs e1 (e2 @ post) r'"
    using m p e1 r' b reads_has_next [OF r] typeof_wire [OF e1] by (simp add: item_at_def at_pos_def)
  then show thesis by (rule that)
qed

lemma deliversI:
  assumes "\<And>r vs e rest r'. item_at mp r v vs e rest r' \<Longrightarrow> rd r = (Inr x, r')"
  shows "delivers rd v x"
  unfolding delivers_def
proof (intro allI impI)
  fix r vs
  assume r: "reads r (v # vs)"
  then obtain e rest r' where "item_at mp r v vs e rest r'" by (rule reads_item)
  then show "\<exists>r'. rd r = (Inr x, r') \<and> reads r' vs"
    using assms [of r vs e rest r'] by (auto simp: item_at_def)
qed

lemma delivers_uint:
  assumes "int n \<le> int_max sg w"
  shows "delivers (read_int mp sg w) (MUint n) (int n)"
proof (rule deliversI)
  fix r vs e rest r'
  assume i: "item_at mp r (MUint n) vs e rest r'"
  then have h: "hdr_uint n e" by (auto simp: item_at_def elim: wire.cases)
  then have "n < 2 ^ 64" by (auto simp: hdr_uint_def)
  then have "uint (of_nat n :: u64) = int n"
    by (simp add: unsigned_of_nat take_bit_nat_eq_self)
  with i assms dec_uint [OF h] show "read_int mp sg w r = (Inr (int n), r')"
    by (simp add: item_at_def read_int_def seq_def Let_def)
qed

lemma delivers_int:
  assumes "int_min sg w \<le> k" and "k \<le> int_max sg w"
  shows "delivers (read_int mp sg w) (MInt k) k"
proof (rule deliversI)
  fix r vs e rest r'
  assume i: "item_at mp r (MInt k) vs e rest r'"
  then have h: "hdr_int k e" by (auto simp: item_at_def elim: wire.cases)
  then have b: "- (2 ^ 63) \<le> k \<and> k < 2 ^ 63" by (auto simp: hdr_int_def)
  then have s: "sint (of_int k :: u64) = k"
    by (simp add: signed_of_int signed_take_bit_int_eq_self)
  have u: "uint (of_int k :: u64) = k" if "\<not> sg"
    using b that assms(1) by (simp add: unsigned_of_int int_min_def take_bit_int_eq_self)
  show "read_int mp sg w r = (Inr k, r')"
    using i assms dec_int [OF h] s u
    by (cases "\<not> sg \<and> w = 64") (auto simp: item_at_def read_int_def seq_def Let_def)
qed

lemma delivers_bool: "delivers (read_bool mp) (MBool b) b"
proof (rule deliversI)
  fix r vs e rest r'
  assume i: "item_at mp r (MBool b) vs e rest r'"
  then have "e = [if b then 0xc3 else 0xc2]" by (auto simp: item_at_def elim: wire.cases)
  with i dec_bool [of b rest] show "read_bool mp r = (Inr b, r')"
    by (simp add: item_at_def read_bool_def seq_def Let_def)
qed

lemma delivers_view: "delivers (read_string_view mp) (MStr s) (Some s)"
proof (rule deliversI)
  fix r vs e rest r'
  assume i: "item_at mp r (MStr s) vs e rest r'"
  then obtain h where h: "e = h @ s" "hdr_str (length s) h" by (auto simp: item_at_def elim: wire.cases)
  then have "length s < 2 ^ 32" by (auto simp: hdr_str_def)
  then have "unat (of_nat (length s) :: u32) = length s"
    by (simp add: unat_of_nat take_bit_nat_eq_self)
  with i h(1) dec_strl [OF h(2), of "s @ rest"] show "read_string_view mp r = (Inr (Some s), r')"
    by (simp add: item_at_def read_string_view_def seq_def Let_def)
qed

lemma delivers_null_view: "delivers (read_string_view mp) MNil None"
  by (rule deliversI) (simp add: item_at_def read_string_view_def seq_def)

lemma delivers_string: "delivers (read_string mp uf n) (MStr s) s"
proof (rule deliversI)
  fix r vs e rest r'
  assume i: "item_at mp r (MStr s) vs e rest r'"
  then obtain h where h: "e = h @ s" "hdr_str (length s) h" by (auto simp: item_at_def elim: wire.cases)
  then have "length s < 2 ^ 32" by (auto simp: hdr_str_def)
  then have "unat (of_nat (length s) :: u32) = length s"
    by (simp add: unat_of_nat take_bit_nat_eq_self)
  with i h(1) dec_strl [OF h(2), of "s @ rest"] show "read_string mp uf n r = (Inr s, r')"
    by (simp add: item_at_def read_string_def read_string_view_def seq_def Let_def)
qed

lemma type_nil: "mpv_type v = MP_NIL \<longleftrightarrow> v = MNil"
  by (cases v) auto

lemma delivers_optional_nil: "delivers (read_optional mp rd) MNil None"
  by (rule deliversI) (simp add: item_at_def read_optional_def seq_def)

lemma delivers_optional:
  assumes "v \<noteq> MNil" and "delivers rd v y"
  shows "delivers (read_optional mp rd) v (Some y)"
  unfolding delivers_def
proof (intro allI impI)
  fix r vs
  assume r: "reads r (v # vs)"
  then obtain e rest r' where i: "item_at mp r v vs e rest r'" by (rule reads_item)
  from assms(2) r obtain r1 where "rd r = (Inr y, r1)" "reads r1 vs" by (rule deliversE)
  with i assms(1) show "\<exists>r'. read_optional mp rd r = (Inr (Some y), r') \<and> reads r' vs"
    by (auto simp: item_at_def read_optional_def seq_def type_nil)
qed

text \<open>The reader of a container stands before its items.\<close>

lemma sub_reads:
  assumes i: "item_at mp r v vs (h @ es) rest r'" and us: "wires us es"
    and lim: "item_limit k = Some (length us)" "length us < 2 ^ 32" and p: "pos r = Some p"
  shows "reads (mp_reader \<lparr>vmem = vmem (view r), vkind = k, vbegin = Some (p + length h), vend = pos r'\<rparr>) us"
  unfolding reads_def
proof (rule exI, rule exI, rule exI, intro conjI)
  have at: "drop p (vmem (view r)) = h @ es @ rest" "pos r' = Some (p + length (h @ es))"
    using i p by (simp_all add: item_at_def at_pos_def)
  then have l: "p \<le> length (vmem (view r))"
    using wire_nonempty [of v "h @ es"] i by (cases "p \<le> length (vmem (view r))") (auto simp: item_at_def)
  have "vmem (view r) = take p (vmem (view r)) @ drop p (vmem (view r))" by simp
  then show "vmem (view (mp_reader \<lparr>vmem = vmem (view r), vkind = k, vbegin = Some (p + length h), vend = pos r'\<rparr>))
      = (take p (vmem (view r)) @ h) @ es @ rest"
    by (simp add: mp_reader_def at(1))
  show "pos (mp_reader \<lparr>vmem = vmem (view r), vkind = k, vbegin = Some (p + length h), vend = pos r'\<rparr>)
      = Some (length (take p (vmem (view r)) @ h))"
    using l by (simp add: mp_reader_def)
  show "case vend (view (mp_reader \<lparr>vmem = vmem (view r), vkind = k, vbegin = Some (p + length h), vend = pos r'\<rparr>)) of
      None \<Rightarrow> item_limit (vkind (view (mp_reader \<lparr>vmem = vmem (view r), vkind = k,
         vbegin = Some (p + length h), vend = pos r'\<rparr>))) \<noteq> None
    | Some q \<Rightarrow> q = length (take p (vmem (view r)) @ h) + length es"
    using l by (simp add: mp_reader_def at(2))
qed (use us lim in \<open>simp_all add: mp_reader_def\<close>)

lemma array_item:
  assumes i: "item_at mp r (MArray us) vs e rest r'"
  obtains arr where "read_array mp r = (Inr arr, r')" and "reads arr us" and "card_of arr = length us"
proof -
  from i obtain h es where e: "e = h @ es" "hdr_array (length us) h" "wires us es"
    by (auto simp: item_at_def elim: wire.cases)
  from i obtain p where p: "pos r = Some p" by (auto simp: item_at_def)
  have n: "length us < 2 ^ 32" using e(2) by (auto simp: hdr_array_def)
  then have u: "unat (of_nat (length us) :: u32) = length us"
    by (simp add: unat_of_nat take_bit_nat_eq_self)
  let ?arr = "mp_reader \<lparr>vmem = vmem (view r), vkind = Array (length us), vbegin = Some (p + length h), vend = pos r'\<rparr>"
  have d: "drop p (vmem (view r)) = h @ es @ rest" using i p e(1) by (simp add: item_at_def at_pos_def)
  have "mp_array mp (vmem (view r)) (pos r) None
      = Inr \<lparr>vmem = vmem (view r), vkind = Array (length us), vbegin = Some (p + length h), vend = None\<rparr>"
    using i p e u d dec_array [OF e(2), of "es @ rest"]
    by (auto simp: item_at_def mp_array_def peek_type_def deref_def split: if_splits)
  with i p have "read_array mp r = (Inr ?arr, r')"
    by (auto simp: item_at_def read_array_def seq_def)
  moreover have "reads ?arr us"
    using sub_reads [OF i [unfolded e(1)] e(3) _ n p] by simp
  moreover have "card_of ?arr = length us" by (simp add: card_of_def mp_reader_def)
  ultimately show thesis by (rule that)
qed

lemma map_item:
  assumes i: "item_at mp r (MMap us) vs e rest r'" and n: "length us < 2 ^ 32"
  obtains m where "read_map mp r = (Inr m, r')" and "reads m us" and "2 * card_of m = length us"
proof -
  from i obtain h es k where e: "e = h @ es" "length us = 2 * k" "hdr_map k h" "wires us es"
    by (auto simp: item_at_def elim: wire.cases)
  from i obtain p where p: "pos r = Some p" by (auto simp: item_at_def)
  from n e(2) have u: "unat (of_nat k :: u32) = k"
    by (simp add: unat_of_nat take_bit_nat_eq_self)
  let ?m = "mp_reader \<lparr>vmem = vmem (view r), vkind = Map k, vbegin = Some (p + length h), vend = pos r'\<rparr>"
  have d: "drop p (vmem (view r)) = h @ es @ rest" using i p e(1) by (simp add: item_at_def at_pos_def)
  have "mp_map mp (vmem (view r)) p None
      = Inr \<lparr>vmem = vmem (view r), vkind = Map k, vbegin = Some (p + length h), vend = None\<rparr>"
    using i p e u d dec_map [OF e(3), of "es @ rest"]
    by (auto simp: item_at_def mp_map_def peek_type_def deref_def split: if_splits)
  with i p have "read_map mp r = (Inr ?m, r')"
    by (auto simp: item_at_def read_map_def seq_def)
  moreover have "item_limit (Map k) = Some (length us)"
    using n e(2) by simp
  with sub_reads [OF i [unfolded e(1)] e(4) _ n p] have "reads ?m us" by simp
  moreover have "2 * card_of ?m = length us" by (simp add: card_of_def mp_reader_def e(2))
  ultimately show thesis by (rule that)
qed

text \<open>Reading the items one after another.\<close>

lemma delivers_n:
  assumes "list_all2 (delivers rd) us xs" and "reads r (us @ ws)"
  shows "\<exists>r'. read_n rd (length us) r = (Inr xs, r') \<and> reads r' ws"
  using assms
proof (induction us xs arbitrary: r)
  case Nil
  then show ?case by simp
next
  case (Cons u us x xs)
  then obtain r1 where r1: "rd r = (Inr x, r1)" "reads r1 (us @ ws)" by (auto elim: deliversE)
  with Cons.IH [OF r1(2)] show ?case by (auto simp: seq_def)
qed

lemma delivers_each:
  assumes "length ts \<le> length us" and "list_all2 (\<lambda>(t, u). delivers (rd t) u) (zip ts us) xs" and "reads r us"
  shows "\<exists>r'. read_each rd ts r = (Inr xs, r')"
  using assms
proof (induction ts arbitrary: us xs r)
  case Nil
  then show ?case by simp
next
  case (Cons t ts)
  then obtain u us' where us: "us = u # us'" by (cases us) auto
  with Cons.prems obtain x xs' where xs: "xs = x # xs'" "delivers (rd t) u x"
      "list_all2 (\<lambda>(t, u). delivers (rd t) u) (zip ts us') xs'"
    by (auto simp: list_all2_Cons1)
  from xs(2) Cons.prems(3) us obtain r1 where r1: "rd t r = (Inr x, r1)" "reads r1 us'"
    by (auto elim: deliversE)
  from Cons.IH [of us' xs' r1] Cons.prems(1) us xs(3) r1(2) obtain r2
    where "read_each rd ts r1 = (Inr xs', r2)" by auto
  with r1(1) xs(1) show ?case by (simp add: seq_def)
qed

lemma delivers_pairs:
  assumes "list_all2 (\<lambda>(k, v) (x, y). delivers rk k x \<and> delivers rv v y) (pair_up us) xys"
    and "reads r us" and "length us = 2 * n"
  shows "\<exists>r'. read_n (read_pair rk rv) n r = (Inr xys, r')"
  using assms
proof (induction us arbitrary: xys r n rule: pair_up.induct)
  case (1 k v us)
  then obtain x y xys' where xy: "xys = (x, y) # xys'" "delivers rk k x" "delivers rv v y"
      "list_all2 (\<lambda>(k, v) (x, y). delivers rk k x \<and> delivers rv v y) (pair_up us) xys'"
    by (auto simp: list_all2_Cons1)
  from "1.prems"(3) obtain m where n: "n = Suc m" "length us = 2 * m" by (cases n) auto
  from xy(2) "1.prems"(2) obtain r1 where r1: "rk r = (Inr x, r1)" "reads r1 (v # us)" by (rule deliversE)
  from xy(3) r1(2) obtain r2 where r2: "rv r1 = (Inr y, r2)" "reads r2 us" by (rule deliversE)
  from "1.IH" [OF xy(4) r2(2) n(2)] r1(1) r2(1) xy(1) n(1) show ?case
    by (auto simp: read_pair_def seq_def)
qed auto

lemma all_some_map: "all_some (map f xs) = Some ys \<longleftrightarrow> list_all2 (\<lambda>x y. f x = Some y) xs ys"
proof (induction xs arbitrary: ys)
  case Nil
  then show ?case by (auto simp: all_some_def)
next
  case (Cons x xs)
  have "all_some (map f (x # xs)) = Some ys \<longleftrightarrow>
      (\<exists>y zs. ys = y # zs \<and> f x = Some y \<and> all_some (map f xs) = Some zs)"
    by (cases "f x") (auto simp: all_some_def)
  then show ?case by (auto simp: Cons list_all2_Cons1)
qed

lemma delivers_container:
  assumes "\<And>r vs e rest r'. item_at mp r v vs e rest r' \<Longrightarrow> rd r = (Inr x, r')"
  shows "delivers (returning f rd) v (f x)"
  by (rule delivers_returning, rule deliversI) (rule assms)

lemma delivers_val: "as_read t v = Some x \<Longrightarrow> delivers (read_val mp t) v x"
proof (induction t arbitrary: v x)
  case (TInt sg w)
  then show ?case
    by (auto intro!: delivers_returning delivers_uint delivers_int split: mpv.splits if_splits)
next
  case TBool
  then show ?case by (auto intro!: delivers_returning delivers_bool split: mpv.splits)
next
  case TString
  then show ?case by (auto intro!: delivers_returning delivers_string split: mpv.splits)
next
  case TView
  then show ?case by (auto intro!: delivers_returning delivers_view delivers_null_view split: mpv.splits)
next
  case (TOpt t)
  then show ?case
    by (auto intro!: delivers_returning delivers_optional_nil delivers_optional split: if_splits)
next
  case (TVec t)
  from TVec.prems obtain us xs where u: "v = MArray us" "x = VVec xs"
      "list_all2 (\<lambda>u x. as_read t u = Some x) us xs"
    by (auto simp: all_some_map split: mpv.splits)
  then have d: "list_all2 (delivers (read_val mp t)) us xs"
    using TVec.IH by (auto elim: list_all2_mono)
  have "read_vector mp (read_val mp t) r = (Inr xs, r')" if "item_at mp r (MArray us) vs e rest r'"
    for r vs e rest r'
  proof -
    from that obtain arr where a: "read_array mp r = (Inr arr, r')" "reads arr us" "card_of arr = length us"
      by (rule array_item)
    with delivers_n [OF d, of arr "[]"] show ?thesis by (auto simp: read_vector_def seq_def)
  qed
  with u show ?case by (auto intro: delivers_container)
next
  case (TTup ts)
  from TTup.prems obtain us xs where u: "v = MArray us" "x = VTup xs" "length ts \<le> length us"
      "list_all2 (\<lambda>(t, u) x. as_read t u = Some x) (zip ts us) xs"
    by (auto simp: all_some_map split_def split: mpv.splits if_splits)
  have d: "list_all2 (\<lambda>(t, u). delivers (read_val mp t) u) (zip ts us) xs"
    using u(4) TTup.IH by (intro list.rel_mono_strong [OF u(4)]) (auto dest: set_zip_leftD)
  have "read_tuple mp (read_val mp) ts r = (Inr xs, r')" if "item_at mp r (MArray us) vs e rest r'"
    for r vs e rest r'
  proof -
    from that obtain arr where a: "read_array mp r = (Inr arr, r')" "reads arr us"
      by (rule array_item)
    with delivers_each [OF u(3) d, of arr] show ?thesis by (auto simp: read_tuple_def seq_def)
  qed
  with u show ?case by (auto intro: delivers_container)
next
  case (TMap tk tv)
  from TMap.prems obtain us kvs where u: "v = MMap us" "x = VMap (fold (\<lambda>(k, v). AList.update k v) kvs [])"
      "length us < 2 ^ 32"
      "list_all2 (\<lambda>(k, v) xy. (case (as_read tk k, as_read tv v) of
                (Some x, Some y) \<Rightarrow> Some (x, y) | _ \<Rightarrow> None) = Some xy) (pair_up us) kvs"
    by (auto simp: all_some_map split_def split: mpv.splits if_splits)
  have d: "list_all2 (\<lambda>(k, v) (x, y). delivers (read_val mp tk) k x \<and> delivers (read_val mp tv) v y)
      (pair_up us) kvs"
    by (rule list.rel_mono_strong [OF u(4)])
       (auto intro: TMap.IH split: option.splits)
  have "read_std_map mp (read_val mp tk) (read_val mp tv) r = (Inr (fold (\<lambda>(k, v). AList.update k v) kvs []), r')"
    if "item_at mp r (MMap us) vs e rest r'" for r vs e rest r'
  proof -
    from that u(3) obtain m where m: "read_map mp r = (Inr m, r')" "reads m us" "2 * card_of m = length us"
      by (rule map_item)
    with delivers_pairs [OF d m(2), of "card_of m"] show ?thesis
      by (auto simp: read_std_map_def seq_def)
  qed
  with u show ?case by (auto intro: delivers_container)
qed

end

end
