(* ===== verification/Msgpack_Ref.thy ===== *)
theory Msgpack_Ref
  imports Msgpuck
begin

text \<open>
  A concrete MessagePack library: plain decoders and encoders written from the format. It
  meets every law of \<open>msgpuck_lib\<close>; the concrete runs of the development use it.
\<close>

section \<open>Decoding\<close>

definition ref_typeof :: "u8 \<Rightarrow> mp_type" where
  "ref_typeof b =
     (let n = unat b in
      if n < 0x80 then MP_UINT else if n < 0x90 then MP_MAP else if n < 0xa0 then MP_ARRAY
      else if n < 0xc0 then MP_STR else if n = 0xc0 then MP_NIL else if n = 0xc1 then MP_EXT
      else if n < 0xc4 then MP_BOOL else if n < 0xc7 then MP_BIN else if n < 0xca then MP_EXT
      else if n = 0xca then MP_FLOAT else if n = 0xcb then MP_DOUBLE else if n < 0xd0 then MP_UINT
      else if n < 0xd4 then MP_INT else if n < 0xd9 then MP_EXT else if n < 0xdc then MP_STR
      else if n < 0xde then MP_ARRAY else if n < 0xe0 then MP_MAP else MP_INT)"

text \<open>The \<open>k\<close> bytes behind the first one as a number, unsigned and signed.\<close>

definition be :: "nat \<Rightarrow> bytes \<Rightarrow> nat" where
  "be k bs = of_be (take k (tl bs))"

definition be_signed :: "nat \<Rightarrow> bytes \<Rightarrow> int" where
  "be_signed k bs = (let n = be k bs in if n < 2 ^ (8 * k - 1) then int n else int n - 2 ^ (8 * k))"

definition ref_uint :: "bytes \<Rightarrow> u64 \<times> nat" where
  "ref_uint bs =
     (let b = hd bs in
      if b = 0xcc then (of_nat (be 1 bs), 2) else if b = 0xcd then (of_nat (be 2 bs), 3)
      else if b = 0xce then (of_nat (be 4 bs), 5) else if b = 0xcf then (of_nat (be 8 bs), 9)
      else (ucast b, 1))"

definition ref_int :: "bytes \<Rightarrow> u64 \<times> nat" where
  "ref_int bs =
     (let b = hd bs in
      if b = 0xd0 then (of_int (be_signed 1 bs), 2) else if b = 0xd1 then (of_int (be_signed 2 bs), 3)
      else if b = 0xd2 then (of_int (be_signed 4 bs), 5) else if b = 0xd3 then (of_int (be_signed 8 bs), 9)
      else (scast b, 1))"

definition ref_sized :: "nat \<Rightarrow> u8 \<Rightarrow> u8 \<Rightarrow> bytes \<Rightarrow> u32 \<times> nat" where
  "ref_sized fix_base m16 m32 bs =
     (let b = hd bs in
      if b = m16 then (of_nat (be 2 bs), 3) else if b = m32 then (of_nat (be 4 bs), 5)
      else (of_nat (unat b - fix_base), 1))"

definition ref_strl :: "bytes \<Rightarrow> u32 \<times> nat" where
  "ref_strl bs = (if hd bs = 0xd9 then (of_nat (be 1 bs), 2) else ref_sized 0xa0 0xda 0xdb bs)"

definition ref_extl :: "bytes \<Rightarrow> u32 \<times> u8 \<times> nat" where
  "ref_extl bs =
     (let b = hd bs; t = (\<lambda>i. hd (drop i bs)) in
      if b = 0xd4 then (1, t 1, 2) else if b = 0xd5 then (2, t 1, 2) else if b = 0xd6 then (4, t 1, 2)
      else if b = 0xd7 then (8, t 1, 2) else if b = 0xd8 then (16, t 1, 2)
      else if b = 0xc7 then (of_nat (be 1 bs), t 2, 3) else if b = 0xc8 then (of_nat (be 2 bs), t 3, 4)
      else (of_nat (be 4 bs), t 5, 6))"

text \<open>
  The bytes of an item without its elements, and the number of its elements; \<open>mp_next\<close> and
  \<open>mp_check\<close> keep count of the items still to pass.
\<close>

definition item_head :: "bytes \<Rightarrow> nat \<times> nat" where
  "item_head bs =
     (let n = unat (hd bs) in
      if n < 0x80 then (1, 0) else if n < 0x90 then (1, 2 * (n - 0x80)) else if n < 0xa0 then (1, n - 0x90)
      else if n < 0xc0 then (1 + (n - 0xa0), 0) else if n < 0xc4 then (1, 0)
      else if n = 0xc4 then (2 + be 1 bs, 0) else if n = 0xc5 then (3 + be 2 bs, 0)
      else if n = 0xc6 then (5 + be 4 bs, 0) else if n = 0xc7 then (3 + be 1 bs, 0)
      else if n = 0xc8 then (4 + be 2 bs, 0) else if n = 0xc9 then (6 + be 4 bs, 0)
      else if n = 0xca then (5, 0) else if n = 0xcb then (9, 0) else if n = 0xcc then (2, 0)
      else if n = 0xcd then (3, 0) else if n = 0xce then (5, 0) else if n = 0xcf then (9, 0)
      else if n = 0xd0 then (2, 0) else if n = 0xd1 then (3, 0) else if n = 0xd2 then (5, 0)
      else if n = 0xd3 then (9, 0) else if n = 0xd4 then (3, 0) else if n = 0xd5 then (4, 0)
      else if n = 0xd6 then (6, 0) else if n = 0xd7 then (10, 0) else if n = 0xd8 then (18, 0)
      else if n = 0xd9 then (2 + be 1 bs, 0) else if n = 0xda then (3 + be 2 bs, 0)
      else if n = 0xdb then (5 + be 4 bs, 0) else if n = 0xdc then (3, be 2 bs)
      else if n = 0xdd then (5, be 4 bs) else if n = 0xde then (3, 2 * be 2 bs)
      else if n = 0xdf then (5, 2 * be 4 bs) else (1, 0))"

lemma item_head_pos: "0 < fst (item_head bs)"
  by (simp add: item_head_def Let_def)

function ref_skip :: "nat \<Rightarrow> bytes \<Rightarrow> nat option" where
  "ref_skip k bs =
     (if k = 0 then Some 0
      else if bs = [] then None
      else if length bs < fst (item_head bs) then None
      else map_option ((+) (fst (item_head bs)))
        (ref_skip (k - 1 + snd (item_head bs)) (drop (fst (item_head bs)) bs)))"
  by pat_completeness auto
termination
  by (relation "measure (\<lambda>(k, bs). length bs)") (auto simp: item_head_pos)

declare ref_skip.simps [simp del]

definition ref_mp :: msgpuck where
  "ref_mp = \<lparr>
     mp_typeof = ref_typeof,
     mp_encode_nil = [0xc0],
     mp_encode_bool = (\<lambda>b. [if b then 0xc3 else 0xc2]),
     mp_encode_uint = (\<lambda>u. min_uint (unat u)),
     mp_encode_int = (\<lambda>i. min_int (sint i)),
     mp_encode_float = (\<lambda>f. 0xca # to_be 4 (unat f)),
     mp_encode_double = (\<lambda>d. 0xcb # to_be 8 (unat d)),
     mp_encode_strl = (\<lambda>n. min_str (unat n)),
     mp_encode_str = (\<lambda>s. min_str (length s) @ s),
     mp_encode_array = (\<lambda>n. min_array (unat n)),
     mp_encode_map = (\<lambda>n. min_map (unat n)),
     mp_sizeof_array = (\<lambda>n. of_nat (length (min_array (unat n)))),
     mp_sizeof_map = (\<lambda>n. of_nat (length (min_map (unat n)))),
     mp_store_u8 = (\<lambda>v. to_be 1 (unat v)),
     mp_store_u16 = (\<lambda>v. to_be 2 (unat v)),
     mp_store_u32 = (\<lambda>v. to_be 4 (unat v)),
     mp_store_u64 = (\<lambda>v. to_be 8 (unat v)),
     mp_decode_bool = (\<lambda>bs. (hd bs = 0xc3, 1)),
     mp_decode_uint = ref_uint,
     mp_decode_int = ref_int,
     mp_decode_float = (\<lambda>bs. (of_nat (be 4 bs), 5)),
     mp_decode_double = (\<lambda>bs. (of_nat (be 8 bs), 9)),
     mp_decode_strl = ref_strl,
     mp_decode_array = ref_sized 0x90 0xdc 0xdd,
     mp_decode_map = ref_sized 0x80 0xde 0xdf,
     mp_decode_extl = ref_extl,
     mp_next = (\<lambda>bs. case ref_skip 1 bs of None \<Rightarrow> 0 | Some n \<Rightarrow> n),
     mp_check = ref_skip 1,
     mp_snprint = (\<lambda>_ _. None),
     mp_ext_error = 3, mp_ext_interval = 6, mp_ext_datetime = 4\<rparr>"

section \<open>The laws\<close>

lemma be_hdr [simp]: "n < 256 ^ k \<Longrightarrow> be k (m # to_be k n @ r) = n"
  by (simp add: be_def of_be_to_be)

lemma be_hdr' [simp]: "n < 256 ^ k \<Longrightarrow> be k (m # to_be k n) = n"
  using be_hdr [of n k m "[]"] by simp

lemma unat_small [simp]: "n < 256 \<Longrightarrow> unat (of_nat n :: u8) = n"
  by (simp add: unat_of_nat take_bit_nat_eq_self)

lemma be_1 [simp]: "be 1 (m # b # r) = unat b" "be (Suc 0) (m # b # r) = unat b"
  by (simp_all add: be_def of_be_def)

text \<open>The first byte of a header and what is behind it.\<close>

lemma typeof_hdr:
  "hdr_uint n h \<Longrightarrow> ref_typeof (hd h) = MP_UINT"
  "hdr_array n h \<Longrightarrow> ref_typeof (hd h) = MP_ARRAY"
  "hdr_map n h \<Longrightarrow> ref_typeof (hd h) = MP_MAP"
  "hdr_str n h \<Longrightarrow> ref_typeof (hd h) = MP_STR"
  "hdr_bin n h \<Longrightarrow> ref_typeof (hd h) = MP_BIN"
  "hdr_ext t n h \<Longrightarrow> ref_typeof (hd h) = MP_EXT"
  unfolding hdr_uint_def hdr_array_def hdr_map_def hdr_str_def hdr_bin_def hdr_ext_def
  by (elim disjE conjE; simp add: ref_typeof_def Let_def del: of_nat_add split del: if_split)+

lemma small_int_byte: "- 32 \<le> i \<Longrightarrow> i < 0 \<Longrightarrow> int (unat (of_int i :: u8)) = 256 + i"
proof -
  assume "- 32 \<le> i" "i < 0"
  then have "(256 + i) mod 256 = 256 + i"
    by (intro mod_pos_pos_trivial) auto
  then have "i mod 256 = 256 + i"
    by (simp only: mod_add_self1)
  then show ?thesis by (simp add: uint_word_of_int)
qed

lemma small_int_ge: "- 32 \<le> i \<Longrightarrow> i < 0 \<Longrightarrow> 224 \<le> unat (of_int i :: u8)"
  using small_int_byte [of i] by linarith

lemma typeof_int: "hdr_int i h \<Longrightarrow> ref_typeof (hd h) = MP_INT"
proof -
  assume h: "hdr_int i h"
  show ?thesis
  proof (cases "- 32 \<le> i \<and> i < 0 \<and> h = [of_int i]")
    case True
    with small_int_ge [of i] have "224 \<le> unat (hd h)" by auto
    then show ?thesis by (simp add: ref_typeof_def Let_def)
  next
    case False
    with h show ?thesis
      unfolding hdr_int_def
      by (elim disjE conjE; simp add: ref_typeof_def Let_def del: of_nat_add split del: if_split)
  qed
qed

lemma head_hdr:
  "hdr_uint n h \<Longrightarrow> item_head (h @ r) = (length h, 0)"
  "hdr_array n h \<Longrightarrow> item_head (h @ r) = (length h, n)"
  "hdr_map n h \<Longrightarrow> item_head (h @ r) = (length h, 2 * n)"
  "hdr_str n h \<Longrightarrow> item_head (h @ r) = (length h + n, 0)"
  "hdr_bin n h \<Longrightarrow> item_head (h @ r) = (length h + n, 0)"
  "hdr_ext t n h \<Longrightarrow> item_head (h @ r) = (length h + n, 0)"
  unfolding hdr_uint_def hdr_array_def hdr_map_def hdr_str_def hdr_bin_def hdr_ext_def
  by (elim disjE conjE; simp add: item_head_def Let_def del: of_nat_add split del: if_split)+

lemma head_int: "hdr_int i h \<Longrightarrow> item_head (h @ r) = (length h, 0)"
proof -
  assume h: "hdr_int i h"
  show ?thesis
  proof (cases "- 32 \<le> i \<and> i < 0 \<and> h = [of_int i]")
    case True
    with small_int_ge [of i] have "224 \<le> unat (hd (h @ r))" "length h = 1" by auto
    then show ?thesis by (simp add: item_head_def Let_def)
  next
    case False
    with h show ?thesis
      unfolding hdr_int_def
      by (elim disjE conjE; simp add: item_head_def Let_def del: of_nat_add split del: if_split)
  qed
qed

text \<open>Passing the items of a sequence, one by one.\<close>

lemma ref_skip_0 [simp]: "ref_skip 0 bs = Some 0"
  by (simp add: ref_skip.simps)

lemma ref_skip_step:
  "item_head (e @ r) = (l, m) \<Longrightarrow> e \<noteq> [] \<Longrightarrow> l \<le> length (e @ r) \<Longrightarrow>
     ref_skip (Suc k) (e @ r) = map_option ((+) l) (ref_skip (k + m) (drop l (e @ r)))"
  by (subst ref_skip.simps) simp

lemma ref_skip_head:
  "item_head (e @ r) = (length e, 0) \<Longrightarrow> e \<noteq> [] \<Longrightarrow>
     ref_skip (Suc k) (e @ r) = map_option ((+) (length e)) (ref_skip k r)"
  by (simp add: ref_skip_step)

lemma ref_skip_payload:
  "item_head (h @ s @ r) = (length h + length s, 0) \<Longrightarrow> h \<noteq> [] \<Longrightarrow>
     ref_skip (Suc k) (h @ s @ r) = map_option ((+) (length h + length s)) (ref_skip k r)"
  using ref_skip_step [of h "s @ r" "length h + length s" 0 k] by simp

lemma ref_skip_wire:
  "wire v e \<Longrightarrow> \<forall>k r. ref_skip (Suc k) (e @ r) = map_option ((+) (length e)) (ref_skip k r)"
  "wires vs es \<Longrightarrow> \<forall>k r. ref_skip (length vs + k) (es @ r) = map_option ((+) (length es)) (ref_skip k r)"
proof (induction v e and vs es rule: wire_wires.inducts)
  case (wire_array vs h e)
  have "ref_skip (Suc k) (h @ e @ r) = map_option ((+) (length h))
      (map_option ((+) (length e)) (ref_skip k r))" for k r
    using wire_array(3) head_hdr(2) [OF wire_array(1), of "e @ r"]
      ref_skip_step [of h "e @ r" "length h" "length vs" k] hdr_nonempty(1) [OF wire_array(1)]
    by (simp add: add.commute [of k])
  then show ?case by (simp add: option.map_comp comp_def add.assoc)
next
  case (wire_map vs n h e)
  have "ref_skip (Suc k) (h @ e @ r) = map_option ((+) (length h))
      (map_option ((+) (length e)) (ref_skip k r))" for k r
    using wire_map(1,4) head_hdr(3) [OF wire_map(2), of "e @ r"]
      ref_skip_step [of h "e @ r" "length h" "2 * n" k] hdr_nonempty(2) [OF wire_map(2)]
    by (simp add: add.commute [of k])
  then show ?case by (simp add: option.map_comp comp_def add.assoc)
next
  case wires_nil
  then show ?case by (simp add: option.map_ident)
next
  case (wires_cons v e vs es)
  then show ?case by (simp add: option.map_comp comp_def add.assoc)
next
  case (wire_nil)
  then show ?case by (intro allI ref_skip_head) (simp_all add: item_head_def)
next
  case (wire_bool b)
  then show ?case by (intro allI ref_skip_head) (simp_all add: item_head_def)
next
  case (wire_float f)
  then show ?case by (intro allI ref_skip_head) (simp_all add: item_head_def)
next
  case (wire_double d)
  then show ?case by (intro allI ref_skip_head) (simp_all add: item_head_def)
next
  case (wire_uint n h)
  then show ?case by (intro allI ref_skip_head) (simp_all add: head_hdr hdr_nonempty)
next
  case (wire_int i h)
  then show ?case by (intro allI ref_skip_head) (simp_all add: head_int hdr_nonempty)
next
  case (wire_str s h)
  then show ?case
    using ref_skip_payload [OF head_hdr(4) [OF wire_str] hdr_nonempty(3) [OF wire_str]] by simp
next
  case (wire_bin s h)
  then show ?case
    using ref_skip_payload [OF head_hdr(5) [OF wire_bin] hdr_nonempty(6) [OF wire_bin]] by simp
next
  case (wire_ext t s h)
  then show ?case
    using ref_skip_payload [OF head_hdr(6) [OF wire_ext] hdr_nonempty(7) [OF wire_ext]] by simp
qed

text \<open>The decoders on the headers.\<close>

lemma signed_digits:
  assumes "- (2 ^ (8 * Suc k - 1)) \<le> i" and "i < 2 ^ (8 * Suc k - 1)"
  shows "be_signed (Suc k) (m # to_be (Suc k) (nat (i mod 2 ^ (8 * Suc k))) @ r) = i"
proof -
  let ?N = "2 ^ (8 * Suc k) :: int" and ?H = "2 ^ (8 * Suc k - 1) :: int"
  have N: "?N = 2 * ?H" by (simp flip: power_Suc)
  have 256: "(256 :: nat) ^ Suc k = 2 ^ (8 * Suc k)" by (simp only: power_mult) simp
  have b: "nat (i mod ?N) < 256 ^ Suc k"
    unfolding 256 by (simp add: nat_less_iff)
  have m: "i mod ?N = (if 0 \<le> i then i else i + ?N)"
  proof (cases "0 \<le> i")
    case True
    with assms(2) N show ?thesis by simp
  next
    case False
    with assms(1) N have "(i + ?N) mod ?N = i + ?N" by (intro mod_pos_pos_trivial) auto
    with False show ?thesis by simp
  qed
  have "nat (i mod ?N) < 2 ^ (8 * Suc k - 1) \<longleftrightarrow> i mod ?N < ?H"
    by (simp add: nat_less_iff)
  then show ?thesis
    using assms N m be_hdr [OF b, of m r]
    by (simp add: be_signed_def Let_def del: to_be.simps power_Suc mult_Suc_right split: if_splits)
qed

lemma signed_hdr:
  assumes "0 < k" and "- (2 ^ (8 * k - 1)) \<le> i" and "i < 2 ^ (8 * k - 1)"
  shows "be_signed k (m # to_be k (nat (i mod 2 ^ (8 * k))) @ r) = i"
  using signed_digits [of "k - 1" i m r] assms by (simp only: Suc_diff_1)

lemma dec_uint_hdr: "hdr_uint k h \<Longrightarrow> ref_uint (h @ r) = (of_nat k, length h)"
proof -
  assume h: "hdr_uint k h"
  have small: "ucast (of_nat k :: u8) = (of_nat k :: u64)" "of_nat k \<noteq> (0xcc :: u8)"
      "of_nat k \<noteq> (0xcd :: u8)" "of_nat k \<noteq> (0xce :: u8)" "of_nat k \<noteq> (0xcf :: u8)" if "k < 128"
    using that by (simp_all add: word_unat_eq_iff unsigned_ucast_eq unat_of_nat take_bit_nat_eq_self)
  from h show ?thesis
    unfolding hdr_uint_def
    by (elim disjE conjE; simp add: ref_uint_def Let_def small)
qed

lemma dec_sized_hdr:
  assumes "m16 \<noteq> m32" and "fix_base + 16 \<le> unat m16" and "fix_base + 16 \<le> unat m32"
    and "(n < 16 \<and> h = [of_nat (fix_base + n)]) \<or> (n < 2 ^ 16 \<and> h = m16 # to_be 2 n)
      \<or> (n < 2 ^ 32 \<and> h = m32 # to_be 4 n)"
  shows "ref_sized fix_base m16 m32 (h @ r) = (of_nat n, length h)"
proof -
  have m: "unat m16 < 2 ^ LENGTH(8)" by (rule unsigned_less)
  have small: "unat (of_nat (fix_base + n) :: u8) = fix_base + n" if "n < 16"
    using assms(2) that m by (intro unat_small) simp
  then have "of_nat (fix_base + n) \<noteq> m16" "of_nat (fix_base + n) \<noteq> m32" if "n < 16"
    using assms(2,3) that by (auto simp del: of_nat_add)
  with small assms(1,4) show ?thesis
    by (elim disjE conjE) (simp_all add: ref_sized_def Let_def del: of_nat_add)
qed

lemma dec_strl_hdr: "hdr_str k h \<Longrightarrow> ref_strl (h @ r) = (of_nat k, length h)"
proof -
  assume h: "hdr_str k h"
  have n: "of_nat (160 + k) \<noteq> (0xd9 :: u8)" "of_nat (160 + k) \<noteq> (0xda :: u8)"
      "of_nat (160 + k) \<noteq> (0xdb :: u8)" if "k < 32"
    using that by (simp_all add: word_unat_eq_iff unat_of_nat take_bit_nat_eq_self del: of_nat_add)
  from h n show ?thesis
    unfolding hdr_str_def
    by (elim disjE conjE) (simp_all add: ref_strl_def ref_sized_def Let_def del: of_nat_add)
qed

lemma dec_int_hdr: "hdr_int j h \<Longrightarrow> ref_int (h @ r) = (of_int j, length h)"
proof -
  assume h: "hdr_int j h"
  have small: "scast (of_int j :: u8) = (of_int j :: u64)" if "- 32 \<le> j" "j < 0"
  proof -
    have "sint (of_int j :: u8) = j"
      using that by (simp add: signed_of_int signed_take_bit_int_eq_self)
    then show ?thesis by (metis scast_eq)
  qed
  have ne: "of_int j \<noteq> (0xd0 :: u8)" "of_int j \<noteq> (0xd1 :: u8)" "of_int j \<noteq> (0xd2 :: u8)"
      "of_int j \<noteq> (0xd3 :: u8)" if "- 32 \<le> j" "j < 0"
    using small_int_ge [OF that] by (auto simp: word_unat_eq_iff)
  from h show ?thesis
    unfolding hdr_int_def
    using signed_hdr [of 1 j _ r] signed_hdr [of 2 j _ r] signed_hdr [of 4 j _ r]
      signed_hdr [of 8 j _ r]
    by (elim disjE conjE) (simp_all add: ref_int_def Let_def small ne del: to_be.simps)
qed

lemma dec_ext_hdr: "hdr_ext t k h \<Longrightarrow> ref_extl (h @ r) = (of_nat k, t, length h)"
  unfolding hdr_ext_def
  by (elim disjE conjE)
     (simp_all add: ref_extl_def Let_def be_def of_be_to_be del: to_be.simps)

text \<open>The library meets the documented behaviour.\<close>

lemma ref_typeof_wire: "wire v e \<Longrightarrow> ref_typeof (hd e) = mpv_type v"
  by (cases rule: wire.cases)
     (auto simp: typeof_hdr typeof_int hdr_nonempty ref_typeof_def [of "0xc0"] ref_typeof_def [of "0xc2"]
        ref_typeof_def [of "0xc3"] ref_typeof_def [of "0xca"] ref_typeof_def [of "0xcb"] Let_def)

lemma ref_skip_one: "wire v e \<Longrightarrow> ref_skip 1 (e @ r) = Some (length e)"
  using ref_skip_wire(1) [of v e] by (simp add: eval_nat_numeral)

interpretation ref: msgpuck_lib ref_mp
proof
  fix u d :: u64 and f n :: u32 and b16 :: u16 and r s h e :: bytes and k :: nat and j :: int
  show "unat (mp_sizeof_array ref_mp n) = length (mp_encode_array ref_mp n)"
    by (simp add: ref_mp_def min_array_def)
  show "unat (mp_sizeof_map ref_mp n) = length (mp_encode_map ref_mp n)"
    by (simp add: ref_mp_def min_map_def)
  show "mp_encode_str ref_mp s = mp_encode_strl ref_mp (of_nat (length s)) @ s" if "length s < 2 ^ 32"
    using that by (simp add: ref_mp_def unat_of_nat take_bit_nat_eq_self)
  have "unat f < 2 ^ LENGTH(32)" "unat d < 2 ^ LENGTH(64)" by (rule unsigned_less)+
  then have f: "unat f < 256 ^ 4" and d: "unat d < 256 ^ 8" by simp_all
  show "mp_decode_float ref_mp (0xca # to_be 4 (unat f) @ r) = (f, 5)"
    using be_hdr [OF f] by (simp add: ref_mp_def)
  show "mp_decode_double ref_mp (0xcb # to_be 8 (unat d) @ r) = (d, 9)"
    using be_hdr [OF d] by (simp add: ref_mp_def)
  show "mp_decode_array ref_mp (h @ r) = (of_nat k, length h)" if "hdr_array k h"
    using that dec_sized_hdr [of "0xdc" "0xdd" "0x90" k h r]
    by (simp add: ref_mp_def hdr_array_def)
  show "mp_decode_map ref_mp (h @ r) = (of_nat k, length h)" if "hdr_map k h"
    using that dec_sized_hdr [of "0xde" "0xdf" "0x80" k h r]
    by (simp add: ref_mp_def hdr_map_def)
qed (auto simp: ref_mp_def typeof_hdr ref_typeof_wire dec_uint_hdr dec_int_hdr dec_strl_hdr
    dec_ext_hdr ref_skip_one simp del: to_be.simps One_nat_def)

text \<open>Evaluation of the library on concrete values.\<close>

lemma ref_eval:
  "mp_encode_nil ref_mp = [0xc0]" "mp_encode_bool ref_mp b = [if b then 0xc3 else 0xc2]"
  "mp_encode_uint ref_mp u = min_uint (unat u)" "mp_encode_int ref_mp u = min_int (sint u)"
  "mp_encode_strl ref_mp n = min_str (unat n)" "mp_encode_str ref_mp s = min_str (length s) @ s"
  "mp_encode_array ref_mp n = min_array (unat n)" "mp_encode_map ref_mp n = min_map (unat n)"
  "mp_sizeof_array ref_mp n = of_nat (length (min_array (unat n)))"
  "mp_sizeof_map ref_mp n = of_nat (length (min_map (unat n)))"
  "mp_typeof ref_mp x = ref_typeof x" "mp_decode_uint ref_mp bs = ref_uint bs"
  "mp_decode_int ref_mp bs = ref_int bs" "mp_decode_strl ref_mp bs = ref_strl bs"
  "mp_decode_array ref_mp bs = ref_sized 0x90 0xdc 0xdd bs"
  "mp_decode_map ref_mp bs = ref_sized 0x80 0xde 0xdf bs"
  "mp_decode_extl ref_mp bs = ref_extl bs"
  "mp_next ref_mp bs = (case ref_skip 1 bs of None \<Rightarrow> 0 | Some n \<Rightarrow> n)"
  "mp_check ref_mp bs = ref_skip 1 bs" "mp_decode_bool ref_mp bs = (hd bs = 0xc3, 1)"
  by (simp_all add: ref_mp_def)

lemma to_be_numeral:
  "to_be (numeral k) n = to_be (pred_numeral k) (n div 256) @ [of_nat (n mod 256)]"
  by (simp only: numeral_eq_Suc [of k] to_be.simps)

lemmas ref_bytes = ref_eval min_uint_def min_int_def min_str_def min_array_def min_map_def to_be_numeral

end
