(* ===== verification/Wtf_Buffer.thy ===== *)
theory Wtf_Buffer
  imports Prelude
begin

text \<open>
  \<^verbatim>\<open>wtf_buffer\<close>: a growable byte buffer over a vector it owns, a vector it borrows or a raw
  block. The pointers \<^verbatim>\<open>head\<close>, \<^verbatim>\<open>end\<close> and \<^verbatim>\<open>end_of_storage\<close> become the block
  \<open>mem\<close> (the bytes from \<^verbatim>\<open>head\<close> up to \<^verbatim>\<open>end_of_storage\<close>) and the offset
  \<open>endp\<close> of \<^verbatim>\<open>end\<close>. The public pointer \<^verbatim>\<open>end\<close>, through which msgpuck writes
  directly, is covered by \<open>put\<close>, which reports a write that would leave the block.
\<close>

section \<open>State and operations\<close>

text \<open>
  The alternatives of the variant \<^verbatim>\<open>target\<close>. For a vector the number is its
  \<^verbatim>\<open>size()\<close>, which may be less than its capacity; a raw block carries the optional
  reallocation function, from the requested size and the old block to the new block.
\<close>

datatype target =
    RawTarget "(nat \<Rightarrow> bytes \<Rightarrow> bytes) option"
  | VecRef nat
  | VecOwn nat

record wtf_buffer =
  target :: target
  mem :: bytes
  endp :: nat

definition buf_of_size :: "nat \<Rightarrow> wtf_buffer" where
  "buf_of_size n = \<lparr>target = VecOwn n, mem = replicate n 0, endp = 0\<rparr>"

text \<open>A vector is its elements and the bytes of its spare capacity.\<close>

definition buf_of_vec_ref :: "bytes \<Rightarrow> bytes \<Rightarrow> nat \<Rightarrow> wtf_buffer" where
  "buf_of_vec_ref v spare offset =
     \<lparr>target = VecRef (length v), mem = v @ spare, endp = offset\<rparr>"

definition buf_of_vec_own :: "bytes \<Rightarrow> bytes \<Rightarrow> nat \<Rightarrow> wtf_buffer" where
  "buf_of_vec_own v spare offset =
     \<lparr>target = VecOwn (length v), mem = v @ spare, endp = offset\<rparr>"

definition buf_of_raw :: "bytes option \<Rightarrow> (nat \<Rightarrow> bytes \<Rightarrow> bytes) option \<Rightarrow> wtf_buffer result" where
  "buf_of_raw data realloc =
     (case data of
        None \<Rightarrow> Inl (InvalidArgument ''nullptr data is not allowed'')
      | Some m \<Rightarrow> Inr \<lparr>target = RawTarget realloc, mem = m, endp = 0\<rparr>)"

definition capacity :: "wtf_buffer \<Rightarrow> nat" where
  "capacity b = length (mem b)"

definition buf_size :: "wtf_buffer \<Rightarrow> nat" where
  "buf_size b = endp b"

text \<open>Differences of pointers, converted to the unsigned \<^verbatim>\<open>size_t\<close>.\<close>

definition available :: "wtf_buffer \<Rightarrow> nat" where
  "available b = nat ((int (capacity b) - int (endp b)) mod 2 ^ 64)"

text \<open>\<^verbatim>\<open>std::vector::resize\<close> to a size above its capacity: the elements move, the rest is zero.\<close>

definition vec_resize :: "nat \<Rightarrow> nat \<Rightarrow> bytes \<Rightarrow> bytes" where
  "vec_resize old new m = take old m @ replicate (new - old) 0"

definition reserve :: "nat \<Rightarrow> (wtf_buffer, unit) op" where
  "reserve n b =
     (if n \<le> capacity b then (Inr (), b)
      else (case target b of
          RawTarget None \<Rightarrow> (Inl (RuntimeError ''unable to resize raw buffer''), b)
        | RawTarget (Some realloc) \<Rightarrow> (Inr (), b\<lparr>mem := realloc n (mem b)\<rparr>)
        | VecRef k \<Rightarrow> (Inr (), b\<lparr>target := VecRef n, mem := vec_resize k n (mem b)\<rparr>)
        | VecOwn k \<Rightarrow> (Inr (), b\<lparr>target := VecOwn n, mem := vec_resize k n (mem b)\<rparr>)))"

definition resize :: "nat \<Rightarrow> (wtf_buffer, unit) op" where
  "resize n b =
     (if capacity b < n
      then andthen (reserve n) (\<lambda>c. (Inr (), c\<lparr>endp := n\<rparr>)) b
      else (Inr (), b\<lparr>endp := n\<rparr>))"

definition clear :: "wtf_buffer \<Rightarrow> wtf_buffer" where
  "clear b = b\<lparr>endp := 0\<rparr>"

text \<open>
  Direct writes: \<^verbatim>\<open>end = mp_encode_x(end, ...)\<close> and copies to \<^verbatim>\<open>end\<close> (\<open>put\<close>),
  \<^verbatim>\<open>end += n\<close> (\<open>advance\<close>), and stores into the block (\<open>poke\<close>).
\<close>

definition append_bytes :: "bytes \<Rightarrow> wtf_buffer \<Rightarrow> wtf_buffer" where
  "append_bytes bs b = b\<lparr>mem := overwrite (endp b) bs (mem b), endp := endp b + length bs\<rparr>"

definition put :: "bytes \<Rightarrow> (wtf_buffer, unit) op" where
  "put bs b =
     (if endp b + length bs \<le> capacity b then (Inr (), append_bytes bs b)
      else (Inl Overrun, b))"

definition advance :: "nat \<Rightarrow> (wtf_buffer, unit) op" where
  "advance n b = (Inr (), b\<lparr>endp := endp b + n\<rparr>)"

definition poke :: "nat \<Rightarrow> bytes \<Rightarrow> (wtf_buffer, unit) op" where
  "poke i bs b =
     (if i + length bs \<le> capacity b then (Inr (), b\<lparr>mem := overwrite i bs (mem b)\<rparr>)
      else (Inl Overrun, b))"

definition content :: "wtf_buffer \<Rightarrow> bytes" where
  "content b = take (endp b) (mem b)"

section \<open>Well-formed buffers\<close>

text \<open>
  \<^verbatim>\<open>end\<close> lies in the block; a vector's elements fill its block; a reallocation function
  returns a block of the requested size that starts with the old bytes, as \<^verbatim>\<open>realloc\<close> does.
\<close>

definition realloc_ok :: "(nat \<Rightarrow> bytes \<Rightarrow> bytes) \<Rightarrow> bool" where
  "realloc_ok r \<longleftrightarrow> (\<forall>n m. length m \<le> n \<longrightarrow> length (r n m) = n \<and> take (length m) (r n m) = m)"

definition target_ok :: "target \<Rightarrow> nat \<Rightarrow> bool" where
  "target_ok t cap \<longleftrightarrow>
     (case t of
        RawTarget None \<Rightarrow> True
      | RawTarget (Some r) \<Rightarrow> realloc_ok r
      | VecRef k \<Rightarrow> k = cap
      | VecOwn k \<Rightarrow> k = cap)"

definition wf_buf :: "wtf_buffer \<Rightarrow> bool" where
  "wf_buf b \<longleftrightarrow> endp b \<le> capacity b \<and> target_ok (target b) (capacity b)"

definition growable :: "wtf_buffer \<Rightarrow> bool" where
  "growable b \<longleftrightarrow> target b \<noteq> RawTarget None"

named_theorems buf_simps \<open>unfolding of the buffer's operations\<close>

lemmas [buf_simps] = capacity_def buf_size_def content_def

lemma buf_size_content: "wf_buf b \<Longrightarrow> length (content b) = endp b"
  by (simp add: wf_buf_def content_def capacity_def)

lemma content_clear [simp]: "content (clear b) = []"
  by (simp add: content_def clear_def)

lemma endp_clear [simp]: "endp (clear b) = 0"
  by (simp add: clear_def)

lemma capacity_clear [simp]: "capacity (clear b) = capacity b"
  by (simp add: clear_def capacity_def)

lemma wf_clear [simp]: "wf_buf b \<Longrightarrow> wf_buf (clear b)"
  by (simp add: clear_def wf_buf_def capacity_def)

lemma growable_clear [simp]: "growable (clear b) = growable b"
  by (simp add: growable_def clear_def)

lemma available_wf:
  assumes "wf_buf b" and "capacity b < 2 ^ 64"
  shows "available b = capacity b - endp b"
proof -
  have "int (capacity b) - int (endp b) = int (capacity b - endp b)"
    using assms(1) by (simp add: wf_buf_def of_nat_diff)
  moreover have "int (capacity b - endp b) mod 2 ^ 64 = int (capacity b - endp b)"
    using assms(2) by (intro mod_pos_pos_trivial) auto
  ultimately show ?thesis
    unfolding available_def by (simp only: nat_int)
qed

lemma wf_buf_of_size [simp]: "wf_buf (buf_of_size n)"
  by (simp add: wf_buf_def buf_of_size_def target_ok_def capacity_def)

lemma growable_buf_of_size [simp]: "growable (buf_of_size n)"
  by (simp add: growable_def buf_of_size_def)

lemma capacity_buf_of_size [simp]: "capacity (buf_of_size n) = n"
  by (simp add: capacity_def buf_of_size_def)

lemma content_buf_of_size [simp]: "content (buf_of_size n) = []"
  by (simp add: content_def buf_of_size_def)

lemma endp_buf_of_size [simp]: "endp (buf_of_size n) = 0"
  by (simp add: buf_of_size_def)

section \<open>What every operation promises\<close>

lemma reserve_enough: "n \<le> capacity b \<Longrightarrow> reserve n b = (Inr (), b)"
  by (simp add: reserve_def)

lemma reserve_grow:
  assumes "wf_buf b" and "growable b" and "capacity b < n"
  shows "\<exists>c. reserve n b = (Inr (), c) \<and> wf_buf c \<and> growable c \<and> capacity c = n
           \<and> endp c = endp b \<and> content c = content b"
proof (cases "target b")
  case (RawTarget r)
  with assms obtain f where "r = Some f" "realloc_ok f"
    by (auto simp: growable_def wf_buf_def target_ok_def split: option.splits)
  with RawTarget assms show ?thesis
    by (auto simp: reserve_def wf_buf_def target_ok_def growable_def realloc_ok_def buf_simps
        intro: arg_cong [where f = "take (endp b)"] dest!: spec [of _ n] spec [of _ "mem b"])
       (metis min.absorb1 take_take)
qed (use assms in \<open>auto simp: reserve_def wf_buf_def target_ok_def growable_def vec_resize_def
      buf_simps\<close>)

lemma reserve_ok:
  assumes "wf_buf b" and "growable b"
  obtains c where "reserve n b = (Inr (), c)" and "wf_buf c" and "growable c"
    and "capacity c = max n (capacity b)" and "endp c = endp b" and "content c = content b"
proof (cases "n \<le> capacity b")
  case True
  with assms that [of b] show ?thesis by (auto simp: reserve_enough max_def)
next
  case False
  with reserve_grow [OF assms, of n] that show ?thesis by (auto simp: max_def)
qed

lemma reserve_fixed:
  "\<not> growable b \<Longrightarrow> capacity b < n \<Longrightarrow>
     reserve n b = (Inl (RuntimeError ''unable to resize raw buffer''), b)"
  by (simp add: reserve_def growable_def)

lemma resize_within:
  "n \<le> capacity b \<Longrightarrow> resize n b = (Inr (), b\<lparr>endp := n\<rparr>)"
  by (simp add: resize_def)

lemma wf_shrink: "wf_buf b \<Longrightarrow> n \<le> capacity b \<Longrightarrow> wf_buf (b\<lparr>endp := n\<rparr>)"
  by (simp add: wf_buf_def capacity_def)

lemma content_shrink: "n \<le> endp b \<Longrightarrow> content (b\<lparr>endp := n\<rparr>) = take n (content b)"
  by (simp add: content_def min_absorb1)

lemma resize_ok:
  assumes "wf_buf b" and "growable b"
  obtains c where "resize n b = (Inr (), c)" and "wf_buf c" and "growable c"
    and "capacity c = max n (capacity b)" and "endp c = n"
    and "take (min n (endp b)) (mem c) = take (min n (endp b)) (mem b)"
proof (cases "n \<le> capacity b")
  case True
  with assms that [of "b\<lparr>endp := n\<rparr>"] show ?thesis
    by (auto simp: resize_within wf_shrink max_def growable_def capacity_def)
next
  case False
  with reserve_grow [OF assms, of n] obtain d where d: "reserve n b = (Inr (), d)" "wf_buf d"
      "growable d" "capacity d = n" "endp d = endp b" "content d = content b"
    by auto
  have "take (min n (endp b)) (mem d) = take (min n (endp b)) (mem b)"
    using d(5,6) by (metis content_def min.commute take_take)
  with d False that [of "d\<lparr>endp := n\<rparr>"] show ?thesis
    by (auto simp: resize_def andthen_Inr wf_shrink max_def growable_def capacity_def)
qed

lemma put_room: "endp b + length bs \<le> capacity b \<Longrightarrow> put bs b = (Inr (), append_bytes bs b)"
  by (simp add: put_def)

lemma put_full: "capacity b < endp b + length bs \<Longrightarrow> put bs b = (Inl Overrun, b)"
  by (simp add: put_def)

lemma append_bytes_simps [simp]:
  "endp (append_bytes bs b) = endp b + length bs"
  "target (append_bytes bs b) = target b"
  "endp b + length bs \<le> capacity b \<Longrightarrow> capacity (append_bytes bs b) = capacity b"
  by (simp_all add: append_bytes_def capacity_def)

lemma content_append_bytes [simp]:
  "endp b + length bs \<le> capacity b \<Longrightarrow> content (append_bytes bs b) = content b @ bs"
  by (simp add: append_bytes_def content_def take_overwrite_end capacity_def)

lemma wf_append_bytes [simp]:
  "wf_buf b \<Longrightarrow> endp b + length bs \<le> capacity b \<Longrightarrow> wf_buf (append_bytes bs b)"
  by (simp add: wf_buf_def)

lemma growable_append_bytes [simp]: "growable (append_bytes bs b) = growable b"
  by (simp add: growable_def)

lemma append_bytes_Nil [simp]: "append_bytes [] b = b"
  by (simp add: append_bytes_def overwrite_def)

lemma append_bytes_append:
  "endp b + length xs + length ys \<le> capacity b \<Longrightarrow>
     append_bytes ys (append_bytes xs b) = append_bytes (xs @ ys) b"
  by (simp add: append_bytes_def capacity_def overwrite_adjacent add.assoc)

section \<open>The contract of a byte sink\<close>

text \<open>
  What a client that only appends relies on: a write within the room left succeeds and adds
  its bytes to the content, a larger one is refused.
\<close>

locale byte_sink =
  fixes put :: "bytes \<Rightarrow> ('b, unit) op"
    and content :: "'b \<Rightarrow> bytes"
    and room :: "'b \<Rightarrow> nat"
    and inv :: "'b \<Rightarrow> bool"
  assumes put_fits: "inv b \<Longrightarrow> length bs \<le> room b \<Longrightarrow>
      \<exists>c. put bs b = (Inr (), c) \<and> inv c \<and> content c = content b @ bs
        \<and> room c = room b - length bs"
    and put_over: "inv b \<Longrightarrow> room b < length bs \<Longrightarrow> put bs b = (Inl Overrun, b)"
begin

lemma puts_fit:
  "inv b \<Longrightarrow> length (concat bss) \<le> room b \<Longrightarrow>
     \<exists>c. for_each put bss b = (Inr (), c) \<and> inv c \<and> content c = content b @ concat bss
       \<and> room c = room b - length (concat bss)"
proof (induction bss arbitrary: b)
  case Nil
  then show ?case by simp
next
  case (Cons bs bss)
  from Cons.prems put_fits [of b bs] obtain c where c: "put bs b = (Inr (), c)" "inv c"
      "content c = content b @ bs" "room c = room b - length bs" by auto
  moreover from Cons.prems c(4) have "length (concat bss) \<le> room c" by simp
  ultimately show ?case using Cons.IH [of c] by (auto simp: andthen_Inr)
qed

lemma puts_over:
  "inv b \<Longrightarrow> room b < length (concat bss) \<Longrightarrow> \<exists>c. for_each put bss b = (Inl Overrun, c)"
proof (induction bss arbitrary: b)
  case Nil
  then show ?case by simp
next
  case (Cons bs bss)
  show ?case
  proof (cases "length bs \<le> room b")
    case True
    with Cons.prems(1) put_fits [of b bs] obtain c where c: "put bs b = (Inr (), c)" "inv c"
        "room c = room b - length bs" by auto
    with Cons.prems True have "room c < length (concat bss)" by simp
    with Cons.IH [OF c(2)] c(1) show ?thesis by (auto simp: andthen_Inr)
  next
    case False
    with Cons.prems(1) put_over [of b bs] show ?thesis by (auto simp: andthen_Inl)
  qed
qed

end

interpretation wb: byte_sink put content "\<lambda>b. capacity b - endp b" wf_buf
proof (unfold_locales, goal_cases)
  case (1 b bs)
  then show ?case by (auto simp: put_room wf_buf_def)
next
  case (2 b bs)
  then show ?case by (intro put_full) (simp add: wf_buf_def)
qed

end
