(* ===== verification/Wtf_Stack.thy ===== *)
theory Wtf_Stack
  imports Prelude
begin

text \<open>
  \<^verbatim>\<open>mp_writer::wtf_stack\<close>: a stack in a fixed array, with the contract its client relies on.
\<close>

section \<open>State and operations\<close>

record 'a wtf_stack =
  slots :: "'a list"
  ssize :: nat

definition stack_new :: "nat \<Rightarrow> 'a \<Rightarrow> 'a wtf_stack" where
  "stack_new n x = \<lparr>slots = replicate n x, ssize = 0\<rparr>"

definition push :: "'a \<Rightarrow> ('a wtf_stack, unit) op" where
  "push x s =
     (if ssize s < length (slots s)
      then (Inr (), s\<lparr>slots := (slots s)[ssize s := x], ssize := ssize s + 1\<rparr>)
      else (Inl Overrun, s))"

definition pop :: "'a wtf_stack \<Rightarrow> 'a \<times> 'a wtf_stack" where
  "pop s = (if ssize s = 0 then (slots s ! 0, s) else (slots s ! (ssize s - 1), s\<lparr>ssize := ssize s - 1\<rparr>))"

definition top_index :: "'a wtf_stack \<Rightarrow> nat" where
  "top_index s = (if ssize s \<noteq> 0 then ssize s - 1 else ssize s)"

definition top :: "'a wtf_stack \<Rightarrow> 'a" where
  "top s = slots s ! top_index s"

text \<open>A write through the reference \<^verbatim>\<open>top()\<close> returns.\<close>

definition set_top :: "('a \<Rightarrow> 'a) \<Rightarrow> 'a wtf_stack \<Rightarrow> 'a wtf_stack" where
  "set_top f s = s\<lparr>slots := (slots s)[top_index s := f (top s)]\<rparr>"

definition is_empty :: "'a wtf_stack \<Rightarrow> bool" where
  "is_empty s \<longleftrightarrow> ssize s = 0"

definition stack_clear :: "'a wtf_stack \<Rightarrow> 'a wtf_stack" where
  "stack_clear s = s\<lparr>ssize := 0\<rparr>"

section \<open>The contract of a bounded stack\<close>

locale bounded_stack =
  fixes push :: "'a \<Rightarrow> ('s, unit) op"
    and pop :: "'s \<Rightarrow> 'a \<times> 's"
    and set_top :: "('a \<Rightarrow> 'a) \<Rightarrow> 's \<Rightarrow> 's"
    and is_empty :: "'s \<Rightarrow> bool"
    and stk :: "'s \<Rightarrow> 'a list"
    and free :: "'s \<Rightarrow> nat"
    and inv :: "'s \<Rightarrow> bool"
  assumes push_free: "inv s \<Longrightarrow> 0 < free s \<Longrightarrow>
      \<exists>t. push x s = (Inr (), t) \<and> inv t \<and> stk t = x # stk s \<and> free t = free s - 1"
    and push_full: "inv s \<Longrightarrow> free s = 0 \<Longrightarrow> push x s = (Inl Overrun, s)"
    and pop_top: "inv s \<Longrightarrow> stk s = x # xs \<Longrightarrow>
      \<exists>t. pop s = (x, t) \<and> inv t \<and> stk t = xs \<and> free t = free s + 1"
    and set_top_stk: "inv s \<Longrightarrow> stk s = x # xs \<Longrightarrow>
      inv (set_top f s) \<and> stk (set_top f s) = f x # xs \<and> free (set_top f s) = free s"
    and empty_iff: "inv s \<Longrightarrow> is_empty s = (stk s = [])"
begin

lemma push_pop: "inv s \<Longrightarrow> 0 < free s \<Longrightarrow> push x s = (Inr (), t) \<Longrightarrow>
    \<exists>u. pop t = (x, u) \<and> inv u \<and> stk u = stk s \<and> free u = free s"
  using push_free [of s x] pop_top [of t x "stk s"] by force

lemma push_nonempty: "inv s \<Longrightarrow> push x s = (Inr (), t) \<Longrightarrow> \<not> is_empty t"
  using push_free [of s x] push_full [of s x] by (cases "0 < free s") (auto simp: empty_iff)

end

definition stk_list :: "'a wtf_stack \<Rightarrow> 'a list" where
  "stk_list s = rev (take (ssize s) (slots s))"

definition stk_free :: "'a wtf_stack \<Rightarrow> nat" where
  "stk_free s = length (slots s) - ssize s"

definition wf_stack :: "'a wtf_stack \<Rightarrow> bool" where
  "wf_stack s \<longleftrightarrow> ssize s \<le> length (slots s)"

lemma stk_list_pop:
  assumes "wf_stack s" and "stk_list s = x # xs"
  shows "0 < ssize s" and "slots s ! (ssize s - 1) = x" and "rev (take (ssize s - 1) (slots s)) = xs"
proof -
  show pos: "0 < ssize s" using assms by (cases "ssize s") (auto simp: stk_list_def)
  have "take (ssize s) (slots s) = take (ssize s - 1) (slots s) @ [slots s ! (ssize s - 1)]"
    using assms(1) pos take_Suc_conv_app_nth [of "ssize s - 1" "slots s"]
    by (simp add: wf_stack_def)
  with assms(2) show "slots s ! (ssize s - 1) = x" "rev (take (ssize s - 1) (slots s)) = xs"
    by (auto simp: stk_list_def)
qed

interpretation st: bounded_stack push pop set_top is_empty stk_list stk_free wf_stack
proof (unfold_locales, goal_cases)
  case (1 s x)
  then show ?case
    by (auto simp: push_def wf_stack_def stk_list_def stk_free_def take_Suc_conv_app_nth)
next
  case (2 s x)
  then show ?case by (simp add: push_def wf_stack_def stk_free_def)
next
  case (3 s x xs)
  with stk_list_pop [OF 3] show ?case
    by (auto simp: pop_def wf_stack_def stk_list_def stk_free_def)
next
  case (4 s x xs f)
  have "take (ssize s) ((slots s)[ssize s - 1 := f x])
      = take (ssize s - 1) (slots s) @ [f x]"
    using 4 stk_list_pop(1) [OF 4] take_Suc_conv_app_nth [of "ssize s - 1" "(slots s)[ssize s - 1 := f x]"]
    by (simp add: wf_stack_def)
  with 4 stk_list_pop [OF 4] show ?case
    by (auto simp: set_top_def top_def top_index_def wf_stack_def stk_list_def stk_free_def)
next
  case (5 s)
  then show ?case by (auto simp: is_empty_def stk_list_def wf_stack_def)
qed

lemma ssize_stk: "wf_stack s \<Longrightarrow> ssize s = length (stk_list s)"
  by (simp add: wf_stack_def stk_list_def)

lemma stk_clear [simp]: "wf_stack (stack_clear s)" "stk_list (stack_clear s) = []"
  by (simp_all add: wf_stack_def stack_clear_def stk_list_def)

lemma stk_new [simp]: "wf_stack (stack_new n x)" "stk_list (stack_new n x) = []"
  "stk_free (stack_new n x) = n"
  by (simp_all add: wf_stack_def stack_new_def stk_list_def stk_free_def)

lemma wf_set_top [simp]: "wf_stack s \<Longrightarrow> wf_stack (set_top f s)"
  by (simp add: wf_stack_def set_top_def)

end
