(* ===== verification/Mp_Writer.thy ===== *)
theory Mp_Writer
  imports Wtf_Buffer Wtf_Stack Mp_Reader
begin

text \<open>
  \<^verbatim>\<open>mp_writer\<close>: composes MessagePack in a buffer. Headers of arrays and maps are written with
  the expected cardinality and corrected by \<open>finalize\<close> once the items are counted.
\<close>

section \<open>State\<close>

record container_meta =
  head_offset :: nat
  max_cardinality :: u32
  items_count :: u32

record mp_writer =
  buf :: wtf_buffer
  opened :: "container_meta wtf_stack"

definition mp_writer :: "wtf_buffer \<Rightarrow> mp_writer" where
  "mp_writer b = \<lparr>buf = b, opened = stack_new 16 \<lparr>head_offset = 0, max_cardinality = 0, items_count = 0\<rparr>\<rparr>"

definition on_buf :: "(wtf_buffer, 'a) op \<Rightarrow> (mp_writer, 'a) op" where
  "on_buf f w = (case f (buf w) of (r, b) \<Rightarrow> (r, w\<lparr>buf := b\<rparr>))"

definition on_stack :: "(container_meta wtf_stack, 'a) op \<Rightarrow> (mp_writer, 'a) op" where
  "on_stack f w = (case f (opened w) of (r, s) \<Rightarrow> (r, w\<lparr>opened := s\<rparr>))"

text \<open>\<^verbatim>\<open>_buf.end = mp_encode_x(_buf.end, ...)\<close>: the encoded bytes go to \<^verbatim>\<open>end\<close>.\<close>

definition emit :: "bytes \<Rightarrow> (mp_writer, unit) op" where
  "emit bs = on_buf (put bs)"

section \<open>Containers\<close>

definition increment_container_counter :: "nat \<Rightarrow> mp_writer \<Rightarrow> mp_writer" where
  "increment_container_counter items_added w =
     (if \<not> is_empty (opened w)
      then w\<lparr>opened := set_top (\<lambda>c. c\<lparr>items_count := items_count c + of_nat items_added\<rparr>) (opened w)\<rparr>
      else w)"

definition counted :: "(mp_writer, unit) op" where
  "counted w = (Inr (), increment_container_counter 1 w)"

definition begin_array :: "msgpuck \<Rightarrow> u32 \<Rightarrow> (mp_writer, unit) op" where
  "begin_array mp mx w0 =
     (let w = increment_container_counter 1 w0 in
      andthen (on_stack (push \<lparr>head_offset = buf_size (buf w), max_cardinality = mx, items_count = 0\<rparr>))
        (emit (mp_encode_array mp mx)) w)"

definition begin_map :: "msgpuck \<Rightarrow> u32 \<Rightarrow> (mp_writer, unit) op" where
  "begin_map mp mx w0 =
     (let w = increment_container_counter 1 w0 in
      andthen (on_stack (push \<lparr>head_offset = buf_size (buf w), max_cardinality = mx, items_count = 0\<rparr>))
        (emit (mp_encode_map mp mx)) w)"

text \<open>The end of \<open>finalize\<close>: the cardinality is stored behind the header's first byte.\<close>

definition store_cardinality :: "msgpuck \<Rightarrow> nat \<Rightarrow> u32 \<Rightarrow> u32 \<Rightarrow> (mp_writer, unit) op" where
  "store_cardinality mp head max_num_bytes actual =
     (if max_num_bytes = 3 then on_buf (poke (head + 1) (mp_store_u16 mp (ucast actual)))
      else if max_num_bytes = 5 then on_buf (poke (head + 1) (mp_store_u32 mp actual))
      else throw (RuntimeError ''previously not implemented container cardinality''))"

text \<open>
  The adjustment of a header to the counted cardinality. The code has this sequence of checks
  twice, with the functions for arrays and with those for maps.
\<close>

definition adjust_header ::
  "msgpuck \<Rightarrow> (u32 \<Rightarrow> bytes) \<Rightarrow> (u32 \<Rightarrow> u32) \<Rightarrow> string \<Rightarrow> nat \<Rightarrow> u32 \<Rightarrow> u32 \<Rightarrow> (mp_writer, unit) op" where
  "adjust_header mp encode sizeof msg head mx actual =
     (if actual = mx then ret ()
      else
        let max_num_bytes = sizeof mx in
        if mx < actual \<and> max_num_bytes < sizeof actual then throw (OverflowError msg)
        else if max_num_bytes = 1 then on_buf (poke head (encode actual))
        else store_cardinality mp head max_num_bytes actual)"

definition finalize :: "msgpuck \<Rightarrow> (mp_writer, unit) op" where
  "finalize mp w =
     (if is_empty (opened w) then (Inl (RangeError ''no container to finalize''), w)
      else
        let (c, st) = pop (opened w);
            w1 = w\<lparr>opened := st\<rparr>;
            head = head_offset c
        in case deref (mem (buf w)) head of
             Inl e \<Rightarrow> (Inl e, w1)
           | Inr hd0 \<Rightarrow>
               (case mp_typeof mp hd0 of
                  MP_ARRAY \<Rightarrow>
                    adjust_header mp (mp_encode_array mp) (mp_sizeof_array mp)
                      ''array header size exceeded'' head (max_cardinality c) (items_count c) w1
                | MP_MAP \<Rightarrow>
                    (if odd (unat (items_count c))
                     then (Inl (RuntimeError ''odd number of map items''), w1)
                     else adjust_header mp (mp_encode_map mp) (mp_sizeof_map mp)
                       ''map header size exceeded'' head (max_cardinality c) (items_count c div 2) w1)
                | _ \<Rightarrow> (Inl (RuntimeError ''unexpected container header''), w1)))"

text \<open>Every call of \<open>finalize\<close> takes a container off the stack, so the loop ends.\<close>

lemma on_buf_opened [simp]: "opened (snd (on_buf f w)) = opened w"
  by (simp add: on_buf_def split: prod.splits)

lemma store_cardinality_opened [simp]: "opened (snd (store_cardinality mp h n a w)) = opened w"
  by (simp add: store_cardinality_def)

lemma adjust_header_opened [simp]:
  "opened (snd (adjust_header mp enc sz msg h mx a w)) = opened w"
  by (simp add: adjust_header_def Let_def)

lemma finalize_ssize:
  "\<not> is_empty (opened w) \<Longrightarrow> ssize (opened (snd (finalize mp w))) < ssize (opened w)"
  by (auto simp: finalize_def pop_def is_empty_def Let_def split: prod.splits sum.splits mp_type.splits)

function finalize_all :: "msgpuck \<Rightarrow> (mp_writer, unit) op" where
  "finalize_all mp w =
     (if is_empty (opened w) then (Inr (), w)
      else case finalize mp w of (Inl e, w') \<Rightarrow> (Inl e, w') | (Inr _, w') \<Rightarrow> finalize_all mp w')"
  by pat_completeness auto
termination
  by (relation "measure (\<lambda>(mp, w). ssize (opened w))")
     (auto, metis finalize_ssize snd_conv)

declare finalize_all.simps [simp del]

section \<open>Raw MessagePack\<close>

text \<open>
  \<^verbatim>\<open>write(begin, end, cardinality)\<close>. The copy goes to the address \<^verbatim>\<open>end\<close> had before the call
  of \<^verbatim>\<open>resize\<close>: where the buffer had to grow, that is an address of the block given up.
\<close>

definition copy_to_old_end :: "bytes \<Rightarrow> (wtf_buffer, unit) op" where
  "copy_to_old_end bs b =
     (case resize (endp b + length bs) b of
        (Inl e, b') \<Rightarrow> (Inl e, b')
      | (Inr _, b') \<Rightarrow>
          if capacity b < endp b + length bs then (Inl Overrun, b')
          else poke (endp b) bs b')"

definition write_mp :: "msgpuck \<Rightarrow> bytes \<Rightarrow> nat \<Rightarrow> (mp_writer, unit) op" where
  "write_mp mp bs card_in =
     andthen (on_buf (copy_to_old_end bs))
       (\<lambda>w. if is_empty (opened w) then (Inr (), w)
            else if card_in = 0
            then (case drain (has_next False) (skip mp) (length bs) 0 (reader_of bs) of
                    (Inl e, _) \<Rightarrow> (Inl e, w)
                  | (Inr n, _) \<Rightarrow> (Inr (), increment_container_counter n w))
            else (Inr (), increment_container_counter card_in w))"

text \<open>
  \<^verbatim>\<open>fill\<close>: the loop ends because the counter of the open container grows; a zero-length view
  whose items cannot be counted makes it run forever.
\<close>

fun fill_loop :: "msgpuck \<Rightarrow> bytes \<Rightarrow> nat \<Rightarrow> u32 \<Rightarrow> nat \<Rightarrow> (mp_writer, unit) op" where
  "fill_loop mp bs card_in goal_count fuel w =
     (let c = top (opened w) in
      if items_count c < goal_count \<and> unat (items_count c) + card_in \<le> unat goal_count
      then (case fuel of
          0 \<Rightarrow> (Inl Diverged, w)
        | Suc k \<Rightarrow> andthen (write_mp mp bs card_in) (fill_loop mp bs card_in goal_count k) w)
      else (Inr (), w))"

declare fill_loop.simps [simp del]

definition fill :: "msgpuck \<Rightarrow> bytes \<Rightarrow> nat \<Rightarrow> u32 \<Rightarrow> (mp_writer, unit) op" where
  "fill mp bs card_in goal_count w =
     (if is_empty (opened w) then (Inl (RuntimeError ''no opened containers''), w)
      else fill_loop mp bs card_in goal_count (unat goal_count) w)"

definition reset :: "mp_writer \<Rightarrow> mp_writer" where
  "reset w = w\<lparr>opened := stack_clear (opened w), buf := clear (buf w)\<rparr>"

text \<open>\<^verbatim>\<open>get_state\<close> and \<^verbatim>\<open>set_state\<close>: undoing the last writes.\<close>

record writer_state =
  content_len :: nat
  opened_containers :: "container_meta wtf_stack"

definition get_state :: "mp_writer \<Rightarrow> writer_state" where
  "get_state w = \<lparr>content_len = buf_size (buf w), opened_containers = opened w\<rparr>"

definition set_state :: "writer_state \<Rightarrow> (mp_writer, unit) op" where
  "set_state st w =
     (if content_len st \<le> capacity (buf w)
      then (Inr (), w\<lparr>buf := (buf w)\<lparr>endp := content_len st\<rparr>, opened := opened_containers st\<rparr>)
      else (Inl (OverflowError ''destination buffer was truncated''), w))"

end
