(* ===== verification/Writer_Laws.thy ===== *)
theory Writer_Laws
  imports Mp_Writer
begin

text \<open>
  What the container operations of \<open>mp_writer\<close> promise: a small calculus of composing
  operations (\<open>emits\<close>), in which the higher-level writers are described, and the
  correction of array and map headers by \<open>finalize\<close>.
\<close>

section \<open>Well-formed writers\<close>

definition wf_writer :: "mp_writer \<Rightarrow> bool" where
  "wf_writer w \<longleftrightarrow> wf_buf (buf w) \<and> wf_stack (opened w)"

definition room :: "mp_writer \<Rightarrow> nat" where
  "room w = capacity (buf w) - endp (buf w)"

definition written :: "mp_writer \<Rightarrow> bytes" where
  "written w = content (buf w)"

definition open_containers :: "mp_writer \<Rightarrow> container_meta list" where
  "open_containers w = stk_list (opened w)"

text \<open>Counting items in the innermost of the open containers.\<close>

fun bump :: "nat \<Rightarrow> container_meta list \<Rightarrow> container_meta list" where
  "bump n [] = []"
| "bump n (c # cs) = c\<lparr>items_count := items_count c + of_nat n\<rparr> # cs"

lemma bump_0 [simp]: "bump 0 cs = cs"
  by (cases cs) auto

lemma bump_bump [simp]: "bump n (bump m cs) = bump (m + n) cs"
  by (cases cs) (auto simp: add.assoc)

text \<open>
  \<open>wrote w bs n w'\<close>: from \<open>w\<close> to \<open>w'\<close> exactly the bytes \<open>bs\<close> were appended and
  \<open>n\<close> items counted; \<open>emits f bs n d\<close>: that is what \<open>f\<close> does, wherever the buffer has
  room for the bytes and the stack for \<open>d\<close> more containers.
\<close>

definition wrote :: "mp_writer \<Rightarrow> bytes \<Rightarrow> nat \<Rightarrow> mp_writer \<Rightarrow> bool" where
  "wrote w bs n w' \<longleftrightarrow> wf_writer w' \<and> buf w' = append_bytes bs (buf w)
     \<and> open_containers w' = bump n (open_containers w) \<and> stk_free (opened w') = stk_free (opened w)"

definition emits :: "(mp_writer, unit) op \<Rightarrow> bytes \<Rightarrow> nat \<Rightarrow> nat \<Rightarrow> bool" where
  "emits f bs n d \<longleftrightarrow>
     (\<forall>w. wf_writer w \<longrightarrow> length bs \<le> room w \<longrightarrow> d \<le> stk_free (opened w)
        \<longrightarrow> (\<exists>w'. f w = (Inr (), w') \<and> wrote w bs n w'))"

lemma wf_writer_room: "wf_writer w \<Longrightarrow> length bs \<le> room w \<Longrightarrow>
    endp (buf w) + length bs \<le> capacity (buf w)"
  by (auto simp: wf_writer_def wf_buf_def room_def)

lemma emitsI:
  assumes "\<And>w. wf_writer w \<Longrightarrow> length bs \<le> room w \<Longrightarrow> d \<le> stk_free (opened w)
      \<Longrightarrow> \<exists>w'. f w = (Inr (), w') \<and> wrote w bs n w'"
  shows "emits f bs n d"
  using assms by (simp add: emits_def)

lemma emitsE:
  assumes "emits f bs n d" and "wf_writer w" and "length bs \<le> room w"
    and "d \<le> stk_free (opened w)"
  obtains w' where "f w = (Inr (), w')" and "wrote w bs n w'"
  using assms by (auto simp: emits_def)

lemma wrote_room:
  "wf_writer w \<Longrightarrow> length bs \<le> room w \<Longrightarrow> wrote w bs n w' \<Longrightarrow> room w' = room w - length bs"
  by (frule (1) wf_writer_room) (auto simp: wrote_def room_def)

lemma wrote_written:
  "wf_writer w \<Longrightarrow> length bs \<le> room w \<Longrightarrow> wrote w bs n w' \<Longrightarrow> written w' = written w @ bs"
  by (frule (1) wf_writer_room) (auto simp: wrote_def written_def)

lemma wrote_trans:
  assumes "wf_writer w" and "length (xs @ ys) \<le> room w"
    and "wrote w xs n w1" and "wrote w1 ys m w2"
  shows "wrote w (xs @ ys) (n + m) w2"
proof -
  from assms(1,2) have "endp (buf w) + length xs + length ys \<le> capacity (buf w)"
    using wf_writer_room [of w "xs @ ys"] by simp
  with assms(3,4) show ?thesis
    by (auto simp: wrote_def append_bytes_append)
qed

lemma emits_ret: "emits (ret ()) [] 0 d"
  by (rule emitsI) (simp add: wrote_def)

lemma emits_andthen:
  assumes f: "emits f xs n d" and g: "emits g ys m e"
  shows "emits (andthen f g) (xs @ ys) (n + m) (max d e)"
proof (rule emitsI)
  fix w
  assume w: "wf_writer w" "length (xs @ ys) \<le> room w" "max d e \<le> stk_free (opened w)"
  then obtain w1 where w1: "f w = (Inr (), w1)" "wrote w xs n w1"
    using f by (auto elim: emitsE)
  then have "wf_writer w1" "length ys \<le> room w1" "e \<le> stk_free (opened w1)"
    using w wrote_room [of w xs n w1] by (auto simp: wrote_def)
  with g obtain w2 where "g w1 = (Inr (), w2)" "wrote w1 ys m w2"
    by (auto elim: emitsE)
  with w w1 wrote_trans [of w xs ys n w1 m w2]
  show "\<exists>w'. andthen f g w = (Inr (), w') \<and> wrote w (xs @ ys) (n + m) w'"
    by (auto simp: andthen_Inr)
qed

lemma emits_deeper: "emits f bs n d \<Longrightarrow> d \<le> e \<Longrightarrow> emits f bs n e"
  by (auto simp: emits_def)

lemma emits_seq:
  "emits f xs n d \<Longrightarrow> emits g ys m d \<Longrightarrow> emits (andthen f g) (xs @ ys) (n + m) d"
  using emits_andthen [of f xs n d g ys m d] by simp

lemma emits_noexcept: "emits f bs n d \<Longrightarrow> emits (noexcept f) bs n d"
  by (fastforce simp: emits_def intro: noexcept_Inr)

lemma emits_for_each:
  "(\<And>x. x \<in> set xs \<Longrightarrow> emits (f x) (e x) (c x) d) \<Longrightarrow>
     emits (for_each f xs) (concat (map e xs)) (sum_list (map c xs)) d"
proof (induction xs)
  case Nil
  show ?case unfolding for_each.simps list.map concat.simps sum_list.Nil by (rule emits_ret)
next
  case (Cons x xs)
  then show ?case by (auto intro: emits_seq)
qed

lemma emits_emit: "emits (emit bs) bs 0 d"
  by (rule emitsI, frule (1) wf_writer_room)
     (auto simp: emit_def on_buf_def put_room wrote_def wf_writer_def open_containers_def)

lemma open_increment:
  assumes "wf_writer w"
  shows "wf_writer (increment_container_counter n w)"
    and "buf (increment_container_counter n w) = buf w"
    and "open_containers (increment_container_counter n w) = bump n (open_containers w)"
    and "stk_free (opened (increment_container_counter n w)) = stk_free (opened w)"
  using assms
  by (cases "stk_list (opened w)";
      auto simp: increment_container_counter_def wf_writer_def open_containers_def
        st.empty_iff st.set_top_stk)+

lemma wrote_increment:
  "wf_writer w \<Longrightarrow> wrote w [] n (increment_container_counter n w)"
  by (simp add: wrote_def open_increment)

lemma emits_counted: "emits counted [] 1 d"
  by (rule emitsI) (auto simp: counted_def intro: wrote_increment)

section \<open>Containers of the announced cardinality\<close>

lemma begin_container:
  assumes w: "wf_writer w" "length h \<le> room w" "0 < stk_free (opened w)"
  obtains w1 where
    "(let v = increment_container_counter 1 w in
      andthen (on_stack (push \<lparr>head_offset = buf_size (buf v), max_cardinality = mx, items_count = 0\<rparr>))
        (emit h) v) = (Inr (), w1)"
    and "wf_writer w1" and "buf w1 = append_bytes h (buf w)"
    and "open_containers w1 = \<lparr>head_offset = endp (buf w), max_cardinality = mx, items_count = 0\<rparr>
           # bump 1 (open_containers w)"
    and "stk_free (opened w1) = stk_free (opened w) - 1"
proof -
  let ?v = "increment_container_counter 1 w"
  let ?c = "\<lparr>head_offset = endp (buf w), max_cardinality = mx, items_count = 0\<rparr>"
  note v = open_increment [OF w(1), of 1]
  from v(1,4) w(3) st.push_free [of "opened ?v" ?c] obtain s where s:
    "push ?c (opened ?v) = (Inr (), s)" "wf_stack s"
    "stk_list s = ?c # stk_list (opened ?v)" "stk_free s = stk_free (opened w) - 1"
    by (auto simp: wf_writer_def)
  let ?u = "?v\<lparr>opened := s\<rparr>"
  have fits: "endp (buf w) + length h \<le> capacity (buf w)"
    using w(1,2) by (rule wf_writer_room)
  show thesis
  proof (rule that [of "?u\<lparr>buf := append_bytes h (buf w)\<rparr>"])
    show "(let v = increment_container_counter 1 w in
      andthen (on_stack (push \<lparr>head_offset = buf_size (buf v), max_cardinality = mx, items_count = 0\<rparr>))
        (emit h) v) = (Inr (), ?u\<lparr>buf := append_bytes h (buf w)\<rparr>)"
      using v(2) s(1) fits
      by (auto simp: Let_def buf_size_def on_stack_def andthen_def seq_def emit_def on_buf_def put_room)
  qed (use v s w fits in \<open>auto simp: wf_writer_def open_containers_def\<close>)
qed

lemma deref_appended:
  "h \<noteq> [] \<Longrightarrow> endp b + length (h @ bs) \<le> capacity b \<Longrightarrow>
     deref (mem (append_bytes (h @ bs) b)) (endp b) = Inr (hd h)"
  by (auto simp: deref_def append_bytes_def overwrite_nth capacity_def neq_Nil_conv)

lemma pop_container:
  assumes "wf_writer w" and "open_containers w = c # cs"
  obtains s where "pop (opened w) = (c, s)" and "wf_stack s" and "stk_list s = cs"
    and "stk_free s = stk_free (opened w) + 1" and "\<not> is_empty (opened w)"
  using assms st.pop_top [of "opened w" c cs] st.empty_iff [of "opened w"]
  by (auto simp: wf_writer_def open_containers_def)

text \<open>
  Opening a container, composing its items and closing it. \<open>closes\<close> says that the count
  agrees with the header, so that closing leaves the buffer as it is.
\<close>

definition closes :: "msgpuck \<Rightarrow> bytes \<Rightarrow> u32 \<Rightarrow> nat \<Rightarrow> bool" where
  "closes mp h mx n \<longleftrightarrow> h \<noteq> [] \<and>
     (\<forall>w c s. \<not> is_empty (opened w) \<longrightarrow> pop (opened w) = (c, s) \<longrightarrow> max_cardinality c = mx \<longrightarrow>
        items_count c = of_nat n \<longrightarrow> deref (mem (buf w)) (head_offset c) = Inr (hd h) \<longrightarrow>
        finalize mp w = (Inr (), w\<lparr>opened := s\<rparr>))"

lemma emits_container:
  assumes opener: "opener = (\<lambda>w. let v = increment_container_counter 1 w in
      andthen (on_stack (push \<lparr>head_offset = buf_size (buf v), max_cardinality = mx, items_count = 0\<rparr>))
        (emit h) v)"
    and body: "emits body bs n d" and cl: "closes mp h mx n"
  shows "emits (andthen opener (andthen body (finalize mp))) (h @ bs) 1 (d + 1)"
proof (rule emitsI)
  fix w
  assume w: "wf_writer w" "length (h @ bs) \<le> room w" "d + 1 \<le> stk_free (opened w)"
  then have "length h \<le> room w" "0 < stk_free (opened w)" by auto
  with w(1) obtain w1 where w1: "opener w = (Inr (), w1)" "wf_writer w1"
      "buf w1 = append_bytes h (buf w)"
      "open_containers w1 = \<lparr>head_offset = endp (buf w), max_cardinality = mx, items_count = 0\<rparr>
         # bump 1 (open_containers w)"
      "stk_free (opened w1) = stk_free (opened w) - 1"
    unfolding opener by (rule begin_container)
  have fits: "endp (buf w) + length (h @ bs) \<le> capacity (buf w)"
    using w(1,2) by (rule wf_writer_room)
  with w1(3) have "length bs \<le> room w1" by (simp add: room_def)
  with body w w1(2,5) obtain w2 where w2: "body w1 = (Inr (), w2)" "wrote w1 bs n w2"
    by (auto elim: emitsE)
  let ?c = "\<lparr>head_offset = endp (buf w), max_cardinality = mx, items_count = of_nat n\<rparr>"
  have c: "open_containers w2 = ?c # bump 1 (open_containers w)" and wf2: "wf_writer w2"
    and b2: "buf w2 = append_bytes (h @ bs) (buf w)"
    using w2(2) w1(3,4) fits by (auto simp: wrote_def append_bytes_append)
  from wf2 c obtain s where s: "pop (opened w2) = (?c, s)" "wf_stack s"
      "stk_list s = bump 1 (open_containers w)" "stk_free s = stk_free (opened w2) + 1"
      "\<not> is_empty (opened w2)"
    by (rule pop_container)
  have "finalize mp w2 = (Inr (), w2\<lparr>opened := s\<rparr>)"
    using cl s(1,5) b2 deref_appended [of h "buf w" bs] fits by (auto simp: closes_def)
  moreover have "wrote w (h @ bs) 1 (w2\<lparr>opened := s\<rparr>)"
    using s w1(5) w2(2) b2 wf2 w(3) by (auto simp: wrote_def wf_writer_def open_containers_def)
  ultimately show "\<exists>w'. andthen opener (andthen body (finalize mp)) w = (Inr (), w')
      \<and> wrote w (h @ bs) 1 w'"
    using w1(1) w2(1) by (auto simp: andthen_Inr)
qed

context msgpuck_lib
begin

lemma closes_array:
  assumes n: "n < 2 ^ 32"
  shows "closes mp (mp_encode_array mp (of_nat n)) (of_nat n) n"
proof -
  have hd: "hdr_array n (mp_encode_array mp (of_nat n))"
    using hdr_encode_array [of "of_nat n"] n by (simp add: unat_of_nat take_bit_nat_eq_self)
  then show ?thesis
    using hdr_nonempty(1) [OF hd] typeof_array_hdr [OF hd]
    by (simp add: closes_def finalize_def adjust_header_def)
qed

lemma closes_map:
  assumes n: "2 * n < 2 ^ 32"
  shows "closes mp (mp_encode_map mp (of_nat n)) (of_nat n) (2 * n)"
proof -
  have hd: "hdr_map n (mp_encode_map mp (of_nat n))"
    using hdr_encode_map [of "of_nat n"] n by (simp add: unat_of_nat take_bit_nat_eq_self)
  have "even (unat (of_nat (2 * n) :: u32))" and "(of_nat (2 * n) :: u32) div 2 = of_nat n"
    using n by (simp_all only: unat_of_nat take_bit_nat_eq_self word_arith_nat_div) simp_all
  with hd show ?thesis
    using hdr_nonempty(2) [OF hd] typeof_map_hdr [OF hd]
    by (simp add: closes_def finalize_def adjust_header_def)
qed

lemma emits_array:
  assumes "emits body bs n d" and "n < 2 ^ 32"
  shows "emits (andthen (begin_array mp (of_nat n)) (andthen body (finalize mp)))
           (mp_encode_array mp (of_nat n) @ bs) 1 (d + 1)"
  by (rule emits_container [OF _ assms(1) closes_array [OF assms(2)]])
     (simp add: begin_array_def fun_eq_iff)

lemma emits_map:
  assumes "emits body bs (2 * n) d" and "2 * n < 2 ^ 32"
  shows "emits (andthen (begin_map mp (of_nat n)) (andthen body (finalize mp)))
           (mp_encode_map mp (of_nat n) @ bs) 1 (d + 1)"
  by (rule emits_container [OF _ assms(1) closes_map [OF assms(2)]])
     (simp add: begin_map_def fun_eq_iff)

end

section \<open>Containers of another cardinality\<close>

text \<open>
  What the two kinds of containers have in common: the length of a header depends on the
  cardinality only, and a header of 3 or 5 bytes can hold any smaller cardinality as well.
\<close>

locale container_kind =
  fixes encode :: "u32 \<Rightarrow> bytes" and sizeof :: "u32 \<Rightarrow> u32" and hdr :: "nat \<Rightarrow> bytes \<Rightarrow> bool"
    and mark16 mark32 :: u8
  assumes sizeof_length: "unat (sizeof n) = length (encode n)"
    and encode_hdr: "hdr (unat n) (encode n)"
    and encode_1: "n < 16 \<Longrightarrow> length (encode n) = 1"
    and encode_3: "16 \<le> n \<Longrightarrow> n < 0x10000 \<Longrightarrow> encode n = mark16 # to_be 2 (unat n)"
    and encode_5: "0x10000 \<le> n \<Longrightarrow> encode n = mark32 # to_be 4 (unat n)"
    and hdr_3: "k < 2 ^ 16 \<Longrightarrow> hdr k (mark16 # to_be 2 k)"
    and hdr_5: "k < 2 ^ 32 \<Longrightarrow> hdr k (mark32 # to_be 4 k)"
begin

lemma length_encode: "length (encode n) = (if n < 16 then 1 else if n < 0x10000 then 3 else 5)"
  using encode_1 encode_3 encode_5 by (auto simp: not_less)

lemma sizeof_cases: "sizeof n = (if n < 16 then 1 else if n < 0x10000 then 3 else 5)"
  using sizeof_length [of n] by (auto simp: length_encode word_unat_eq_iff split: if_splits)

end

sublocale msgpuck_lib \<subseteq> arr: container_kind "mp_encode_array mp" "mp_sizeof_array mp" hdr_array "0xdc" "0xdd"
  by (unfold_locales, rule sizeof_array, rule hdr_encode_array)
     (auto simp: enc_array min_array_def word_less_nat_alt word_le_nat_alt hdr_array_def)

sublocale msgpuck_lib \<subseteq> mapk: container_kind "mp_encode_map mp" "mp_sizeof_map mp" hdr_map "0xde" "0xdf"
  by (unfold_locales, rule sizeof_map, rule hdr_encode_map)
     (auto simp: enc_map min_map_def word_less_nat_alt word_le_nat_alt hdr_map_def)

lemma content_poke:
  "wf_buf b \<Longrightarrow> i + length bs \<le> endp b \<Longrightarrow>
     poke i bs b = (Inr (), b\<lparr>mem := overwrite i bs (mem b)\<rparr>)
     \<and> content (b\<lparr>mem := overwrite i bs (mem b)\<rparr>) = overwrite i bs (content b)
     \<and> wf_buf (b\<lparr>mem := overwrite i bs (mem b)\<rparr>)"
  by (auto simp: poke_def content_def wf_buf_def capacity_def take_overwrite_inside)

text \<open>Storing over a stretch of the content that has the length of the new bytes.\<close>

lemma poke_content:
  assumes "wf_buf b" and "content b = xs @ ys @ zs" and "length bs = length ys"
  shows "poke (length xs) bs b = (Inr (), b\<lparr>mem := overwrite (length xs) bs (mem b)\<rparr>)
     \<and> content (b\<lparr>mem := overwrite (length xs) bs (mem b)\<rparr>) = xs @ bs @ zs
     \<and> wf_buf (b\<lparr>mem := overwrite (length xs) bs (mem b)\<rparr>)"
proof -
  have "length xs + length bs \<le> endp b"
    using assms buf_size_content [OF assms(1)] by simp
  with content_poke [OF assms(1), of "length xs" bs] assms(2,3) show ?thesis
    by (simp add: overwrite_append_mid)
qed

context container_kind
begin

text \<open>
  The adjusted header is one of the announced length that denotes the counted cardinality;
  the bytes before and behind it stay, and a count that needs a longer header is refused.
\<close>

lemma adjust_fits:
  assumes lib: "msgpuck_lib mp" and w: "wf_writer w" "written w = pre @ encode mx @ body"
    and k: "length (encode k) \<le> length (encode mx)"
  obtains w' h where "adjust_header mp encode sizeof msg (length pre) mx k w = (Inr (), w')"
    and "written w' = pre @ h @ body" and "hdr (unat k) h" and "length h = length (encode mx)"
    and "wf_writer w'" and "opened w' = opened w"
proof -
  note result = that
  have sz: "\<not> sizeof mx < sizeof k"
    using k by (simp add: word_less_nat_alt sizeof_length)
  have patch: thesis if "adjust_header mp encode sizeof msg (length pre) mx k w
        = on_buf (poke (length (pre @ xs)) bs) w"
      and e: "encode mx = xs @ ys" "length bs = length ys" "hdr (unat k) (xs @ bs)" for xs ys bs
  proof -
    have "content (buf w) = (pre @ xs) @ ys @ body" using w(2) e(1) by (simp add: written_def)
    from poke_content [OF _ this e(2)] w(1) that(1) e
    show thesis
      by (intro result [of "w\<lparr>buf := (buf w)\<lparr>mem := overwrite (length (pre @ xs)) bs (mem (buf w))\<rparr>\<rparr>"
            "xs @ bs"]) (auto simp: on_buf_def wf_writer_def written_def)
  qed
  consider "k = mx" | "k \<noteq> mx" "mx < 16" | "k \<noteq> mx" "16 \<le> mx" "mx < 0x10000" | "k \<noteq> mx" "0x10000 \<le> mx"
    by fastforce
  then show thesis
  proof cases
    case 1
    with w show thesis
      by (intro result [of w "encode mx"]) (auto simp: adjust_header_def encode_hdr)
  next
    case 2
    with k show thesis
      using encode_hdr [of k] sz
      by (intro patch [of "[]" "encode k" "encode mx"])
         (auto simp: adjust_header_def sizeof_cases Let_def length_encode split: if_splits)
  next
    case 3
    with k have k16: "unat k < 2 ^ 16"
      by (auto simp: length_encode word_less_nat_alt split: if_splits)
    then have "mp_store_u16 mp (ucast k) = to_be 2 (unat k)"
      using msgpuck_lib.store_u16 [OF lib, of "ucast k"] by (simp add: unsigned_ucast_eq take_bit_nat_eq_self)
    with 3 sz k16 show thesis
      by (intro patch [of "[mark16]" "to_be 2 (unat k)" "to_be 2 (unat mx)"])
         (auto simp: adjust_header_def sizeof_cases Let_def store_cardinality_def encode_3 hdr_3)
  next
    case 4
    have "mp_store_u32 mp k = to_be 4 (unat k)" "unat k < 2 ^ 32"
      using msgpuck_lib.store_u32 [OF lib, of k] unsigned_less [of k] by simp_all
    moreover have "\<not> mx < 16" "\<not> mx < 0x10000"
      using 4(2) by (simp_all add: word_less_nat_alt word_le_nat_alt)
    ultimately show thesis
      using 4 sz
      by (intro patch [of "[mark32]" "to_be 4 (unat k)" "to_be 4 (unat mx)"])
         (auto simp: adjust_header_def sizeof_cases Let_def store_cardinality_def encode_5 hdr_5)
  qed
qed

lemma adjust_exceeded:
  assumes "length (encode mx) < length (encode k)"
  shows "adjust_header mp encode sizeof msg head mx k w = (Inl (OverflowError msg), w)"
proof -
  from assms have "sizeof mx < sizeof k" by (simp add: word_less_nat_alt sizeof_length)
  moreover from assms have "mx < k"
    by (auto simp: length_encode split: if_splits)
  ultimately show ?thesis by (auto simp: adjust_header_def Let_def)
qed

end

lemma deref_content:
  assumes "wf_buf b" and "content b = pre @ h @ post" and "h \<noteq> []"
  shows "deref (mem b) (length pre) = Inr (hd h)"
proof -
  have "length pre < endp b" "endp b \<le> length (mem b)"
    using assms buf_size_content [OF assms(1)] by (cases h; auto simp: wf_buf_def capacity_def)+
  moreover have "content b ! length pre = hd h"
    using assms(2,3) by (simp add: nth_append hd_conv_nth)
  ultimately show ?thesis by (simp add: deref_def content_def)
qed

text \<open>Closing an array or a map whose header announced another cardinality.\<close>

context msgpuck_lib
begin

lemma finalize_array:
  assumes w: "wf_writer w" "open_containers w = c # cs"
    and b: "written w = pre @ mp_encode_array mp (max_cardinality c) @ body" "head_offset c = length pre"
    and k: "length (mp_encode_array mp (items_count c)) \<le> length (mp_encode_array mp (max_cardinality c))"
  obtains w' h where "finalize mp w = (Inr (), w')" and "written w' = pre @ h @ body"
    and "hdr_array (unat (items_count c)) h" and "length h = length (mp_encode_array mp (max_cardinality c))"
    and "wf_writer w'" and "open_containers w' = cs"
proof -
  from w obtain s where s: "pop (opened w) = (c, s)" "wf_stack s" "stk_list s = cs"
      "\<not> is_empty (opened w)"
    by (rule pop_container)
  let ?w = "w\<lparr>opened := s\<rparr>"
  have "wf_writer ?w" "written ?w = pre @ mp_encode_array mp (max_cardinality c) @ body"
    using w(1) b(1) s(2) by (auto simp: wf_writer_def written_def)
  from arr.adjust_fits [OF msgpuck_lib_axioms this k, of "''array header size exceeded''"]
  obtain w' h where "adjust_header mp (mp_encode_array mp) (mp_sizeof_array mp)
        ''array header size exceeded'' (length pre) (max_cardinality c) (items_count c) ?w = (Inr (), w')"
      "written w' = pre @ h @ body" "hdr_array (unat (items_count c)) h"
      "length h = length (mp_encode_array mp (max_cardinality c))" "wf_writer w'" "opened w' = s"
    by auto
  moreover have "deref (mem (buf w)) (length pre) = Inr (hd (mp_encode_array mp (max_cardinality c)))"
    using deref_content [of "buf w" pre _ body] w(1) b(1) hdr_nonempty(1) [OF hdr_encode_array]
    by (simp add: wf_writer_def written_def)
  ultimately show thesis
    using s b(2) typeof_array_hdr [OF hdr_encode_array]
    by (intro that [of w' h]) (auto simp: finalize_def open_containers_def)
qed

lemma finalize_map:
  assumes w: "wf_writer w" "open_containers w = c # cs"
    and b: "written w = pre @ mp_encode_map mp (max_cardinality c) @ body" "head_offset c = length pre"
    and ev: "even (unat (items_count c))"
    and k: "length (mp_encode_map mp (items_count c div 2)) \<le> length (mp_encode_map mp (max_cardinality c))"
  obtains w' h where "finalize mp w = (Inr (), w')" and "written w' = pre @ h @ body"
    and "hdr_map (unat (items_count c) div 2) h"
    and "length h = length (mp_encode_map mp (max_cardinality c))"
    and "wf_writer w'" and "open_containers w' = cs"
proof -
  from w obtain s where s: "pop (opened w) = (c, s)" "wf_stack s" "stk_list s = cs"
      "\<not> is_empty (opened w)"
    by (rule pop_container)
  let ?w = "w\<lparr>opened := s\<rparr>"
  have half: "unat (items_count c div 2) = unat (items_count c) div 2"
    by (simp add: unat_div)
  have "wf_writer ?w" "written ?w = pre @ mp_encode_map mp (max_cardinality c) @ body"
    using w(1) b(1) s(2) by (auto simp: wf_writer_def written_def)
  from mapk.adjust_fits [OF msgpuck_lib_axioms this k, of "''map header size exceeded''"]
  obtain w' h where "adjust_header mp (mp_encode_map mp) (mp_sizeof_map mp)
        ''map header size exceeded'' (length pre) (max_cardinality c) (items_count c div 2) ?w = (Inr (), w')"
      "written w' = pre @ h @ body" "hdr_map (unat (items_count c) div 2) h"
      "length h = length (mp_encode_map mp (max_cardinality c))" "wf_writer w'" "opened w' = s"
    using half by auto
  moreover have "deref (mem (buf w)) (length pre) = Inr (hd (mp_encode_map mp (max_cardinality c)))"
    using deref_content [of "buf w" pre _ body] w(1) b(1) hdr_nonempty(2) [OF hdr_encode_map]
    by (simp add: wf_writer_def written_def)
  ultimately show thesis
    using s b(2) ev typeof_map_hdr [OF hdr_encode_map]
    by (intro that [of w' h]) (auto simp: finalize_def open_containers_def)
qed

end

end
