(* ===== verification/Mp_Values.thy ===== *)
theory Mp_Values
  imports Writer_Laws
begin

text \<open>
  \<^verbatim>\<open>operator<<\<close> of \<^verbatim>\<open>mp_writer\<close>. The overload set is the datatype \<open>wval\<close>, one
  constructor per overload; \<open>write_val\<close> is the operator. The one for \<^verbatim>\<open>std::optional\<close> is
  \<^verbatim>\<open>noexcept\<close>: an error of the value inside ends the program. A reference encoder \<open>enc_val\<close>
  states what arrives in the buffer.
\<close>

section \<open>Doubles\<close>

text \<open>
  A double is its 64 bits: sign, 11 bits of exponent, 52 bits of fraction. The checks of the
  writer are \<^verbatim>\<open>std::isfinite(val)\<close> and, for finite values, the comparison with
  \<^verbatim>\<open>std::numeric_limits<double>::min()\<close>, the smallest positive normal number
  \<^verbatim>\<open>0x0010000000000000\<close>; \<^verbatim>\<open>val <= max()\<close> holds for every finite value.
\<close>

definition double_sign :: "u64 \<Rightarrow> bool" where
  "double_sign d \<longleftrightarrow> 2 ^ 63 \<le> unat d"

definition double_finite :: "u64 \<Rightarrow> bool" where
  "double_finite d \<longleftrightarrow> (unat d div 2 ^ 52) mod 2 ^ 11 \<noteq> 0x7ff"

definition double_ge_min :: "u64 \<Rightarrow> bool" where
  "double_ge_min d \<longleftrightarrow> \<not> double_sign d \<and> 2 ^ 52 \<le> unat d"

definition write_double :: "msgpuck \<Rightarrow> u64 \<Rightarrow> (mp_writer, unit) op" where
  "write_double mp d =
     (if \<not> double_finite d \<or> double_ge_min d
      then andthen (emit (mp_encode_double mp d)) counted
      else throw (OverflowError ''unable to fit floating point value into msgpack''))"

section \<open>Scalars\<close>

definition write_nil :: "msgpuck \<Rightarrow> (mp_writer, unit) op" where
  "write_nil mp = andthen (emit (mp_encode_nil mp)) counted"

definition write_bool :: "msgpuck \<Rightarrow> bool \<Rightarrow> (mp_writer, unit) op" where
  "write_bool mp b = andthen (emit (mp_encode_bool mp b)) counted"

definition write_float :: "msgpuck \<Rightarrow> u32 \<Rightarrow> (mp_writer, unit) op" where
  "write_float mp f = andthen (emit (mp_encode_float mp f)) counted"

text \<open>Any integral type of at most 8 bytes; its value is between \<open>- (2 ^ 63)\<close> and \<open>2 ^ 64 - 1\<close>.\<close>

definition write_int :: "msgpuck \<Rightarrow> int \<Rightarrow> (mp_writer, unit) op" where
  "write_int mp i =
     andthen (emit (if 0 \<le> i then mp_encode_uint mp (of_int i) else mp_encode_int mp (of_int i))) counted"

text \<open>\<^verbatim>\<open>strict_uint\<close>: the wide formats also for small values.\<close>

definition write_strict16 :: "msgpuck \<Rightarrow> u16 \<Rightarrow> (mp_writer, unit) op" where
  "write_strict16 mp v =
     andthen (emit (mp_store_u8 mp 0xcd)) (andthen (emit (mp_store_u16 mp v)) counted)"

definition write_strict32 :: "msgpuck \<Rightarrow> u32 \<Rightarrow> (mp_writer, unit) op" where
  "write_strict32 mp v =
     andthen (emit (mp_store_u8 mp 0xce)) (andthen (emit (mp_store_u32 mp v)) counted)"

definition write_strict64 :: "msgpuck \<Rightarrow> u64 \<Rightarrow> (mp_writer, unit) op" where
  "write_strict64 mp v =
     andthen (emit (mp_store_u8 mp 0xcf)) (andthen (emit (mp_store_u64 mp v)) counted)"

text \<open>A \<^verbatim>\<open>string_view\<close> without data stands for nil.\<close>

definition write_str :: "msgpuck \<Rightarrow> bytes option \<Rightarrow> (mp_writer, unit) op" where
  "write_str mp val =
     (case val of
        None \<Rightarrow> andthen (emit (mp_encode_nil mp)) counted
      | Some s \<Rightarrow>
          if 2 ^ 32 - 1 < length s then throw (OverflowError ''too long string'')
          else andthen (emit (mp_encode_str mp s)) counted)"

text \<open>
  An \<^verbatim>\<open>mp_plain\<close>: its items one by one, each as a raw view of one item
  (\<^verbatim>\<open>operator<< (mp_reader &)\<close>).
\<close>

definition write_next :: "msgpuck \<Rightarrow> (mp_reader \<times> mp_writer, unit) op" where
  "write_next mp s =
     (case s of (r, w) \<Rightarrow>
        (case skip mp r of
           (Inl e, r') \<Rightarrow> (Inl e, (r', w))
         | (Inr _, r') \<Rightarrow>
             (case (pos r, pos r') of
                (Some a, Some b) \<Rightarrow>
                  (case write_mp mp (take (b - a) (drop a (vmem (view r)))) 1 w of
                     (x, w') \<Rightarrow> (x, (r', w')))
              | _ \<Rightarrow> (Inl Overrun, (r', w)))))"

definition write_plain :: "msgpuck \<Rightarrow> mp_view \<Rightarrow> (mp_writer, unit) op" where
  "write_plain mp v w =
     (case drain (\<lambda>(r, _). has_next True r) (write_next mp) (length (vmem v)) 0 (mp_reader v, w) of
        (Inl e, (_, w')) \<Rightarrow> (Inl e, w')
      | (Inr _, (_, w')) \<Rightarrow> (Inr (), w'))"

section \<open>All overloads\<close>

datatype wval =
    WNull
  | WBool bool
  | WInt int
  | WFloat u32
  | WDouble u64
  | WStrict16 u16
  | WStrict32 u32
  | WStrict64 u64
  | WStr "bytes option"
  | WRaw bytes nat
  | WOptional "wval option"
  | WVector "wval list"
  | WTuple "wval list"
  | WMap "(wval \<times> wval) list"

lemma size_pair_list [termination_simp]:
  "kv \<in> set kvs \<Longrightarrow> size (fst kv) < Suc (size_list (size_prod size size) kvs)"
  "kv \<in> set kvs \<Longrightarrow> size (snd kv) < Suc (size_list (size_prod size size) kvs)"
  by (induction kvs) (auto simp: prod.size_gen(1) less_Suc_eq_le split_beta intro: le_SucI trans_le_add2)

fun write_val :: "msgpuck \<Rightarrow> wval \<Rightarrow> (mp_writer, unit) op" where
  "write_val mp WNull = write_nil mp"
| "write_val mp (WBool b) = write_bool mp b"
| "write_val mp (WInt i) = write_int mp i"
| "write_val mp (WFloat f) = write_float mp f"
| "write_val mp (WDouble d) = write_double mp d"
| "write_val mp (WStrict16 v) = write_strict16 mp v"
| "write_val mp (WStrict32 v) = write_strict32 mp v"
| "write_val mp (WStrict64 v) = write_strict64 mp v"
| "write_val mp (WStr s) = write_str mp s"
| "write_val mp (WRaw bs n) = write_mp mp bs n"
| "write_val mp (WOptional None) = write_nil mp"
| "write_val mp (WOptional (Some v)) = noexcept (write_val mp v)"
| "write_val mp (WVector vs) =
     andthen (begin_array mp (of_nat (length vs)))
       (andthen (for_each (write_val mp) vs) (finalize mp))"
| "write_val mp (WTuple vs) =
     andthen (begin_array mp (of_nat (length vs)))
       (andthen (for_each (write_val mp) vs) (finalize mp))"
| "write_val mp (WMap kvs) =
     andthen (begin_map mp (of_nat (length kvs)))
       (andthen (for_each (\<lambda>kv. andthen (write_val mp (fst kv)) (write_val mp (snd kv))) kvs)
         (finalize mp))"

section \<open>The reference encoder\<close>

fun enc_val :: "msgpuck \<Rightarrow> wval \<Rightarrow> bytes" where
  "enc_val mp WNull = mp_encode_nil mp"
| "enc_val mp (WBool b) = mp_encode_bool mp b"
| "enc_val mp (WInt i) = (if 0 \<le> i then mp_encode_uint mp (of_int i) else mp_encode_int mp (of_int i))"
| "enc_val mp (WFloat f) = mp_encode_float mp f"
| "enc_val mp (WDouble d) = mp_encode_double mp d"
| "enc_val mp (WStrict16 v) = 0xcd # to_be 2 (unat v)"
| "enc_val mp (WStrict32 v) = 0xce # to_be 4 (unat v)"
| "enc_val mp (WStrict64 v) = 0xcf # to_be 8 (unat v)"
| "enc_val mp (WStr None) = mp_encode_nil mp"
| "enc_val mp (WStr (Some s)) = mp_encode_str mp s"
| "enc_val mp (WRaw bs n) = bs"
| "enc_val mp (WOptional None) = mp_encode_nil mp"
| "enc_val mp (WOptional (Some v)) = enc_val mp v"
| "enc_val mp (WVector vs) = mp_encode_array mp (of_nat (length vs)) @ concat (map (enc_val mp) vs)"
| "enc_val mp (WTuple vs) = mp_encode_array mp (of_nat (length vs)) @ concat (map (enc_val mp) vs)"
| "enc_val mp (WMap kvs) = mp_encode_map mp (of_nat (length kvs))
     @ concat (map (\<lambda>kv. enc_val mp (fst kv) @ enc_val mp (snd kv)) kvs)"

text \<open>How many containers are open at once while a value is written.\<close>

fun depth :: "wval \<Rightarrow> nat" where
  "depth (WOptional (Some v)) = depth v"
| "depth (WVector vs) = 1 + foldr max (map depth vs) 0"
| "depth (WTuple vs) = 1 + foldr max (map depth vs) 0"
| "depth (WMap kvs) = 1 + foldr max (map (\<lambda>kv. max (depth (fst kv)) (depth (snd kv))) kvs) 0"
| "depth _ = 0"

text \<open>The values the writer takes: numbers in range, lengths that fit, raw views of one item.\<close>

fun writable :: "wval \<Rightarrow> bool" where
  "writable (WInt i) \<longleftrightarrow> - (2 ^ 63) \<le> i \<and> i < 2 ^ 64"
| "writable (WDouble d) \<longleftrightarrow> \<not> double_finite d \<or> double_ge_min d"
| "writable (WStr (Some s)) \<longleftrightarrow> length s < 2 ^ 32"
| "writable (WRaw bs n) \<longleftrightarrow> n = 1"
| "writable (WOptional (Some v)) \<longleftrightarrow> writable v"
| "writable (WVector vs) \<longleftrightarrow> length vs < 2 ^ 32 \<and> (\<forall>v \<in> set vs. writable v)"
| "writable (WTuple vs) \<longleftrightarrow> length vs < 2 ^ 32 \<and> (\<forall>v \<in> set vs. writable v)"
| "writable (WMap kvs) \<longleftrightarrow> 2 * length kvs < 2 ^ 32 \<and> (\<forall>kv \<in> set kvs. writable (fst kv) \<and> writable (snd kv))"
| "writable _ \<longleftrightarrow> True"

lemma foldr_max_ge: "x \<in> set xs \<Longrightarrow> x \<le> foldr max xs (0 :: nat)"
  by (induction xs) auto

section \<open>The writer implements the reference encoder\<close>

lemma emits_scalar: "emits (andthen (emit bs) counted) bs 1 d"
  using emits_seq [OF emits_emit emits_counted] by simp

lemma emits_scalar2: "emits (andthen (emit xs) (andthen (emit ys) counted)) (xs @ ys) 1 d"
  using emits_seq [OF emits_emit emits_scalar] by simp

lemma emits_strict: "emits (andthen (emit [b]) (andthen (emit ys) counted)) (b # ys) 1 d"
  using emits_scalar2 [of "[b]" ys d] by simp

lemma write_mp_within:
  assumes "wf_writer w" and "length bs \<le> room w" and "n \<noteq> 0"
  shows "write_mp mp bs n w = (Inr (), increment_container_counter n (w\<lparr>buf := append_bytes bs (buf w)\<rparr>))"
proof -
  have "endp (buf w) + length bs \<le> capacity (buf w)"
    using assms(1,2) by (rule wf_writer_room)
  then have "copy_to_old_end bs (buf w) = (Inr (), append_bytes bs (buf w))"
    by (simp add: copy_to_old_end_def resize_within poke_def append_bytes_def capacity_def)
  then show ?thesis
    using assms(3) by (simp add: write_mp_def on_buf_def andthen_Inr increment_container_counter_def)
qed

lemma emits_write_mp: "n \<noteq> 0 \<Longrightarrow> emits (write_mp mp bs n) bs n d"
proof (rule emitsI)
  fix w
  assume n: "n \<noteq> 0" and w: "wf_writer w" "length bs \<le> room w"
  let ?v = "w\<lparr>buf := append_bytes bs (buf w)\<rparr>"
  have "wf_writer ?v"
    using w wf_writer_room [OF w] by (simp add: wf_writer_def)
  then have "wrote w bs n (increment_container_counter n ?v)"
    using open_increment [of ?v n] by (simp add: wrote_def open_containers_def)
  with write_mp_within [OF w n, of mp]
  show "\<exists>w'. write_mp mp bs n w = (Inr (), w') \<and> wrote w bs n w'" by simp
qed

context msgpuck_lib
begin

lemma emits_items:
  assumes "\<And>v. v \<in> set vs \<Longrightarrow> emits (f v) (e v) 1 d"
  shows "emits (for_each f vs) (concat (map e vs)) (length vs) d"
  using emits_for_each [of vs f e "\<lambda>_. 1" d] assms by (simp add: sum_list_triv)

lemma emits_pairs:
  assumes "\<And>kv. kv \<in> set kvs \<Longrightarrow> emits (f kv) (e kv) 2 d"
  shows "emits (for_each f kvs) (concat (map e kvs)) (2 * length kvs) d"
  using emits_for_each [of kvs f e "\<lambda>_. 2" d] assms by (simp add: sum_list_triv mult.commute)

lemma emits_write_array:
  assumes IH: "\<And>v d. v \<in> set vs \<Longrightarrow> writable v \<Longrightarrow> depth v \<le> d \<Longrightarrow> emits (write_val mp v) (enc_val mp v) 1 d"
    and w: "length vs < 2 ^ 32" "\<forall>v \<in> set vs. writable v" and d: "1 + foldr max (map depth vs) 0 \<le> d"
  shows "emits (andthen (begin_array mp (of_nat (length vs)))
       (andthen (for_each (write_val mp) vs) (finalize mp)))
     (mp_encode_array mp (of_nat (length vs)) @ concat (map (enc_val mp) vs)) 1 d"
proof -
  let ?m = "foldr max (map depth vs) 0"
  have "emits (for_each (write_val mp) vs) (concat (map (enc_val mp) vs)) (length vs) ?m"
    using w(2) by (intro emits_items IH) (auto intro: foldr_max_ge)
  from emits_deeper [OF emits_array [OF this w(1)]] d show ?thesis by simp
qed

lemma emits_write_val:
  "writable v \<Longrightarrow> depth v \<le> d \<Longrightarrow> emits (write_val mp v) (enc_val mp v) 1 d"
proof (induction v arbitrary: d)
  case (WStr s)
  then show ?case by (cases s) (auto simp: write_str_def emits_scalar simp del: One_nat_def)
next
  case (WOptional u)
  then show ?case by (cases u) (auto simp: write_nil_def emits_scalar intro: emits_noexcept simp del: One_nat_def)
next
  case (WVector vs)
  from emits_write_array [of vs d, OF WVector.IH] WVector.prems show ?case by simp
next
  case (WTuple vs)
  from emits_write_array [of vs d, OF WTuple.IH] WTuple.prems show ?case by simp
next
  case (WMap kvs)
  let ?m = "foldr max (map (\<lambda>kv. max (depth (fst kv)) (depth (snd kv))) kvs) 0"
  have "emits (andthen (write_val mp (fst kv)) (write_val mp (snd kv)))
      (enc_val mp (fst kv) @ enc_val mp (snd kv)) 2 ?m" if "kv \<in> set kvs" for kv
  proof -
    have m: "max (depth (fst kv)) (depth (snd kv)) \<le> ?m"
      using that by (intro foldr_max_ge) auto
    have "emits (write_val mp (fst kv)) (enc_val mp (fst kv)) 1 ?m"
      by (rule WMap.IH(1) [OF that]) (use WMap.prems that m in \<open>auto simp: prod_set_defs\<close>)
    moreover have "emits (write_val mp (snd kv)) (enc_val mp (snd kv)) 1 ?m"
      by (rule WMap.IH(2) [OF that]) (use WMap.prems that m in \<open>auto simp: prod_set_defs\<close>)
    ultimately show ?thesis
      using emits_seq [of "write_val mp (fst kv)" _ 1 ?m "write_val mp (snd kv)" _ 1]
      by (simp only: one_add_one)
  qed
  from emits_map [OF emits_pairs [OF this], of kvs] WMap.prems
  have "emits (write_val mp (WMap kvs)) (enc_val mp (WMap kvs)) 1 (?m + 1)" by simp
  with WMap.prems show ?case by (auto intro: emits_deeper)
qed (auto simp: write_nil_def write_bool_def write_float_def write_int_def write_double_def
    write_strict16_def write_strict32_def write_strict64_def stores emits_scalar emits_write_mp
    emits_strict simp del: One_nat_def split: if_splits)

end

end
