(* ===== verification/Iproto.thy ===== *)
theory Iproto
  imports Prelude
begin

text \<open>
  \<^verbatim>\<open>iproto.h\<close> and \<^verbatim>\<open>iproto.cpp\<close>: the codes of Tarantool's binary protocol and the
  protocol version and features a side announces.
\<close>

section \<open>Sizes of the greeting\<close>

definition SCRAMBLE_SIZE :: nat where "SCRAMBLE_SIZE = 20"
definition GREETING_SIZE :: nat where "GREETING_SIZE = 128"
definition VERSION_SIZE :: nat where "VERSION_SIZE = 64"
definition SALT_SIZE :: nat where "SALT_SIZE = 44"

section \<open>Codes\<close>

datatype request_type =
    R_OK | R_SELECT | R_INSERT | R_REPLACE | R_UPDATE | R_DELETE | R_CALL_16 | R_AUTH | R_EVAL
  | R_UPSERT | R_CALL | R_EXECUTE | R_NOP | R_PREPARE | R_PING | R_PROTO_ID | R_WATCH | R_UNWATCH
  | R_EVENT | R_WATCH_ONCE

fun request_code :: "request_type \<Rightarrow> u8" where
  "request_code R_OK = 0x00"
| "request_code R_SELECT = 0x01"
| "request_code R_INSERT = 0x02"
| "request_code R_REPLACE = 0x03"
| "request_code R_UPDATE = 0x04"
| "request_code R_DELETE = 0x05"
| "request_code R_CALL_16 = 0x06"
| "request_code R_AUTH = 0x07"
| "request_code R_EVAL = 0x08"
| "request_code R_UPSERT = 0x09"
| "request_code R_CALL = 0x0a"
| "request_code R_EXECUTE = 0x0b"
| "request_code R_NOP = 0x0c"
| "request_code R_PREPARE = 0x0d"
| "request_code R_PING = 0x40"
| "request_code R_PROTO_ID = 0x49"
| "request_code R_WATCH = 0x4a"
| "request_code R_UNWATCH = 0x4b"
| "request_code R_EVENT = 0x4c"
| "request_code R_WATCH_ONCE = 0x4d"

datatype feature = STREAMS | TRANSACTIONS | ERROR_EXTENSION | WATCHERS | PAGINATION | F_invalid

fun feature_code :: "feature \<Rightarrow> nat" where
  "feature_code STREAMS = 0"
| "feature_code TRANSACTIONS = 1"
| "feature_code ERROR_EXTENSION = 2"
| "feature_code WATCHERS = 3"
| "feature_code PAGINATION = 4"
| "feature_code F_invalid = 5"

datatype body_field =
    B_SPACE | B_INDEX | B_LIMIT | B_OFFSET | B_ITERATOR | B_INDEX_BASE | B_KEY | B_TUPLE
  | B_FUNCTION_NAME | B_USER_NAME | B_SERVER_UUID | B_CLUSTER_UUID | B_VCLOCK | B_EXPRESSION
  | B_OPS | B_SQL_TEXT | B_SQL_BIND | B_VERSION | B_FEATURES | B_AUTH_TYPE

fun body_key :: "body_field \<Rightarrow> u64" where
  "body_key B_SPACE = 0x10"
| "body_key B_INDEX = 0x11"
| "body_key B_LIMIT = 0x12"
| "body_key B_OFFSET = 0x13"
| "body_key B_ITERATOR = 0x14"
| "body_key B_INDEX_BASE = 0x15"
| "body_key B_KEY = 0x20"
| "body_key B_TUPLE = 0x21"
| "body_key B_FUNCTION_NAME = 0x22"
| "body_key B_USER_NAME = 0x23"
| "body_key B_SERVER_UUID = 0x24"
| "body_key B_CLUSTER_UUID = 0x25"
| "body_key B_VCLOCK = 0x26"
| "body_key B_EXPRESSION = 0x27"
| "body_key B_OPS = 0x28"
| "body_key B_SQL_TEXT = 0x40"
| "body_key B_SQL_BIND = 0x41"
| "body_key B_VERSION = 0x54"
| "body_key B_FEATURES = 0x55"
| "body_key B_AUTH_TYPE = 0x5b"

datatype response_field = IPROTO_DATA | IPROTO_ERROR_24 | IPROTO_METADATA | IPROTO_SQL_INFO | IPROTO_ERROR

fun response_key :: "response_field \<Rightarrow> u64" where
  "response_key IPROTO_DATA = 0x30"
| "response_key IPROTO_ERROR_24 = 0x31"
| "response_key IPROTO_METADATA = 0x32"
| "response_key IPROTO_SQL_INFO = 0x42"
| "response_key IPROTO_ERROR = 0x52"

datatype header_field = H_CODE | H_SYNC | H_SERVER_ID | H_LSN | H_TIMESTAMP | H_SCHEMA_ID

fun header_key :: "header_field \<Rightarrow> u64" where
  "header_key H_CODE = 0x00"
| "header_key H_SYNC = 0x01"
| "header_key H_SERVER_ID = 0x02"
| "header_key H_LSN = 0x03"
| "header_key H_TIMESTAMP = 0x04"
| "header_key H_SCHEMA_ID = 0x05"

text \<open>
  The fields of an error of the error extension, the operations of an update (their codes are
  characters) and the fields of an event.
\<close>

datatype error_field =
    MP_ERROR_TYPE | MP_ERROR_FILE | MP_ERROR_LINE | MP_ERROR_MESSAGE | MP_ERROR_ERRNO | MP_ERROR_ERRCODE
  | MP_ERROR_FIELDS

fun error_key :: "error_field \<Rightarrow> u64" where
  "error_key MP_ERROR_TYPE = 0x00"
| "error_key MP_ERROR_FILE = 0x01"
| "error_key MP_ERROR_LINE = 0x02"
| "error_key MP_ERROR_MESSAGE = 0x03"
| "error_key MP_ERROR_ERRNO = 0x04"
| "error_key MP_ERROR_ERRCODE = 0x05"
| "error_key MP_ERROR_FIELDS = 0x06"

datatype update_operation = ADD | SUBSTRACT | AND_op | XOR_op | OR_op | DELETE | INSERT | ASSIGN | SPLICE

fun operation_code :: "update_operation \<Rightarrow> char" where
  "operation_code ADD = CHR ''+''"
| "operation_code SUBSTRACT = CHR ''-''"
| "operation_code AND_op = CHR ''&''"
| "operation_code XOR_op = CHR ''^''"
| "operation_code OR_op = CHR ''|''"
| "operation_code DELETE = CHR ''#''"
| "operation_code INSERT = CHR ''!''"
| "operation_code ASSIGN = CHR ''=''"
| "operation_code SPLICE = CHR '':''"

datatype subscription_field = EVENT_KEY | EVENT_DATA

fun subscription_key :: "subscription_field \<Rightarrow> u64" where
  "subscription_key EVENT_KEY = 0x57"
| "subscription_key EVENT_DATA = 0x58"

lemma request_code_inj: "request_code a = request_code b \<longleftrightarrow> a = b"
  by (cases a; cases b) simp_all

lemma feature_code_inj: "feature_code a = feature_code b \<longleftrightarrow> a = b"
  by (cases a; cases b) simp_all

lemma feature_code_less: "feature_code f < 6"
  by (cases f) simp_all

section \<open>proto_id\<close>

text \<open>\<^verbatim>\<open>std::bitset<32> features\<close> is a 32-bit word.\<close>

record proto_id =
  version :: u64
  auth :: bytes
  features :: u32

definition set_feature :: "nat \<Rightarrow> u32 \<Rightarrow> u32" where
  "set_feature i w = set_bit i w"

fun add_features :: "nat list \<Rightarrow> u32 \<Rightarrow> u32" where
  "add_features [] w = w"
| "add_features (f # fs) w = add_features fs (if f < 32 then set_feature f w else w)"

definition proto_id :: "feature list \<Rightarrow> u64 \<Rightarrow> bytes \<Rightarrow> proto_id" where
  "proto_id fs v a = \<lparr>version = v, auth = a, features = add_features (map feature_code fs) 0\<rparr>"

definition has_feature :: "proto_id \<Rightarrow> feature \<Rightarrow> bool" where
  "has_feature p f = bit (features p) (feature_code f)"

text \<open>\<^verbatim>\<open>for (size_t i = 0; i < features.size(); ++i)\<close>, from \<open>i\<close> on, \<open>n\<close> rounds left.\<close>

fun collect_features :: "u32 \<Rightarrow> nat \<Rightarrow> nat \<Rightarrow> u8 list" where
  "collect_features w i 0 = []"
| "collect_features w i (Suc n) =
     (if bit w i \<and> i < feature_code F_invalid then of_nat i # collect_features w (i + 1) n
      else collect_features w (i + 1) n)"

definition list_features :: "proto_id \<Rightarrow> u8 list" where
  "list_features p = collect_features (features p) 0 32"

lemma bit_add_features:
  "n < 32 \<Longrightarrow> bit (add_features fs w) n = (bit w n \<or> n \<in> set fs)"
  by (induction fs arbitrary: w) (auto simp: set_feature_def bit_simps)

lemma collect_features_eq:
  "collect_features w i n = map of_nat (filter (\<lambda>k. bit w k \<and> k < 5) [i ..< i + n])"
proof (induction n arbitrary: i)
  case 0
  then show ?case by simp
next
  case (Suc n)
  have "[i ..< i + Suc n] = i # [Suc i ..< Suc i + n]"
    by (simp add: upt_rec [of i])
  with Suc [of "i + 1"] show ?case by simp
qed

lemma list_features_eq:
  "list_features p = map of_nat (filter (\<lambda>k. bit (features p) k) [0 ..< 5])"
proof -
  have "filter (\<lambda>k. k < 5) [0 ..< 32] = [0 ..< (5 :: nat)]"
    by code_simp
  moreover have "filter (\<lambda>k. bit (features p) k \<and> k < 5) xs
      = filter (\<lambda>k. bit (features p) k) (filter (\<lambda>k. k < 5) xs)" for xs :: "nat list"
    by (induction xs) simp_all
  ultimately show ?thesis
    by (simp only: list_features_def collect_features_eq add_0 feature_code.simps)
qed

end
