(* ===== verification/Sha1.thy ===== *)
theory Sha1
  imports Prelude
begin

text \<open>
  \<^verbatim>\<open>third_party/sha1.c\<close>, used for the authentication scramble: the block transformation and
  the streaming interface. \<open>Sha1_Laws\<close> compares them with the standard.
\<close>

unbundle bit_operations_syntax

section \<open>The block transformation\<close>

definition rol :: "u32 \<Rightarrow> nat \<Rightarrow> u32" where
  "rol v n = push_bit n v OR drop_bit (32 - n) v"

text \<open>The block as 16 words, loaded by \<^verbatim>\<open>memcpy\<close> on a little-endian machine.\<close>

definition le32 :: "bytes \<Rightarrow> u32" where
  "le32 bs = foldr (\<lambda>b acc. ucast b OR push_bit 8 acc) bs 0"

definition load_block :: "bytes \<Rightarrow> u32 list" where
  "load_block bs = map (\<lambda>i. le32 (take 4 (drop (4 * i) bs))) [0 ..< 16]"

definition blk0 :: "nat \<Rightarrow> u32 list \<Rightarrow> u32 \<times> u32 list" where
  "blk0 i l =
     (let v = (rol (l ! i) 24 AND 0xFF00FF00) OR (rol (l ! i) 8 AND 0x00FF00FF)
      in (v, l[i := v]))"

definition blk :: "nat \<Rightarrow> u32 list \<Rightarrow> u32 \<times> u32 list" where
  "blk i l =
     (let v = rol (l ! ((i + 13) mod 16) XOR l ! ((i + 8) mod 16) XOR l ! ((i + 2) mod 16)
                   XOR l ! (i mod 16)) 1
      in (v, l[i mod 16 := v]))"

text \<open>
  One of the rounds \<^verbatim>\<open>R0\<close> to \<^verbatim>\<open>R4\<close>. The macros are applied to the five variables in
  rotation; here the tuple is rotated instead.
\<close>

type_synonym regs = "u32 \<times> u32 \<times> u32 \<times> u32 \<times> u32"

definition round_fun :: "nat \<Rightarrow> u32 \<Rightarrow> u32 \<Rightarrow> u32 \<Rightarrow> u32" where
  "round_fun t w x y =
     (if t < 20 then (w AND (x XOR y)) XOR y
      else if t < 40 then w XOR x XOR y
      else if t < 60 then ((w OR x) AND y) OR (w AND x)
      else w XOR x XOR y)"

definition round_const :: "nat \<Rightarrow> u32" where
  "round_const t =
     (if t < 20 then 0x5A827999 else if t < 40 then 0x6ED9EBA1
      else if t < 60 then 0x8F1BBCDC else 0xCA62C1D6)"

definition sha_round :: "nat \<Rightarrow> regs \<times> u32 list \<Rightarrow> regs \<times> u32 list" where
  "sha_round t s =
     (case s of ((v, w, x, y, z), l) \<Rightarrow>
        let (m, l') = (if t < 16 then blk0 t l else blk t l)
        in ((z + round_fun t w x y + m + round_const t + rol v 5, v, rol w 30, x, y), l'))"

fun rounds :: "nat \<Rightarrow> nat \<Rightarrow> regs \<times> u32 list \<Rightarrow> regs \<times> u32 list" where
  "rounds t 0 s = s"
| "rounds t (Suc n) s = rounds (t + 1) n (sha_round t s)"

definition SHA1Transform :: "regs \<Rightarrow> bytes \<Rightarrow> regs" where
  "SHA1Transform st buffer =
     (let ((a, b, c, d, e), _) = rounds 0 80 (st, load_block buffer);
          (s0, s1, s2, s3, s4) = st
      in (s0 + a, s1 + b, s2 + c, s3 + d, s4 + e))"

section \<open>The streaming interface\<close>

record sha1_ctx =
  state :: regs
  count0 :: u32
  count1 :: u32
  buffer :: bytes

definition SHA1Init :: "bytes \<Rightarrow> sha1_ctx" where
  "SHA1Init garbage =
     \<lparr>state = (0x67452301, 0xEFCDAB89, 0x98BADCFE, 0x10325476, 0xC3D2E1F0),
      count0 = 0, count1 = 0, buffer = garbage\<rparr>"

text \<open>\<^verbatim>\<open>for ( ; i + 63 < len; i += 64) SHA1Transform(state, &data[i])\<close>: what is left is returned.\<close>

function transform_all :: "regs \<Rightarrow> bytes \<Rightarrow> regs \<times> bytes" where
  "transform_all st data =
     (if 63 < length data then transform_all (SHA1Transform st (take 64 data)) (drop 64 data)
      else (st, data))"
  by pat_completeness auto
termination
  by (relation "measure (\<lambda>(st, data). length data)") auto

declare transform_all.simps [simp del]

text \<open>\<^verbatim>\<open>len\<close> is a 32-bit value in the code; lengths above \<open>2 ^ 32 - 64\<close> are outside the model.\<close>

definition SHA1Update :: "sha1_ctx \<Rightarrow> bytes \<Rightarrow> sha1_ctx" where
  "SHA1Update ctx data =
     (let len = of_nat (length data) :: u32;
          c0 = count0 ctx + push_bit 3 len;
          c1 = count1 ctx + (if c0 < count0 ctx then 1 else 0) + drop_bit 29 len;
          j = unat (drop_bit 3 (count0 ctx) AND 63)
      in if 63 < j + length data
         then let i = 64 - j;
                  first = overwrite j (take i data) (buffer ctx);
                  (st, rest) = transform_all (SHA1Transform (state ctx) first) (drop i data)
              in \<lparr>state = st, count0 = c0, count1 = c1, buffer = overwrite 0 rest first\<rparr>
         else ctx\<lparr>count0 := c0, count1 := c1, buffer := overwrite j data (buffer ctx)\<rparr>)"

definition finalcount :: "sha1_ctx \<Rightarrow> bytes" where
  "finalcount ctx =
     map (\<lambda>i. ucast (drop_bit ((3 - i mod 4) * 8) (if 4 \<le> i then count0 ctx else count1 ctx) AND 255))
       [0 ..< 8]"

text \<open>\<^verbatim>\<open>while ((count[0] & 504) != 448)\<close>: one zero byte at a time, at most 63 of them.\<close>

fun pad_zeros :: "nat \<Rightarrow> sha1_ctx \<Rightarrow> sha1_ctx" where
  "pad_zeros 0 ctx = ctx"
| "pad_zeros (Suc n) ctx =
     (if count0 ctx AND 504 \<noteq> 448 then pad_zeros n (SHA1Update ctx [0]) else ctx)"

definition digest_of :: "regs \<Rightarrow> bytes" where
  "digest_of st =
     (case st of (a, b, c, d, e) \<Rightarrow>
        map (\<lambda>i. ucast (drop_bit ((3 - i mod 4) * 8) ([a, b, c, d, e] ! (i div 4)) AND 255)) [0 ..< 20])"

definition SHA1Final :: "sha1_ctx \<Rightarrow> bytes" where
  "SHA1Final ctx =
     (let fc = finalcount ctx;
          padded = pad_zeros 64 (SHA1Update ctx [0x80])
      in digest_of (state (SHA1Update padded fc)))"

text \<open>Hashing one message, as every use in the repository does.\<close>

definition sha1 :: "bytes \<Rightarrow> bytes" where
  "sha1 m = SHA1Final (SHA1Update (SHA1Init (replicate 64 0)) m)"

end
