(* ===== verification/Base64.thy ===== *)
theory Base64
  imports Prelude
begin

text \<open>
  \<^verbatim>\<open>third_party/base64.c\<close>: the decoder that turns the salt of the server's greeting into
  bytes, and the encoder. The output area is a list that is written in place; an access behind
  its end is \<open>Overrun\<close>.
\<close>

unbundle bit_operations_syntax

section \<open>The decoder\<close>

text \<open>
  The value of a character; negative for a character to be ignored. The comparison
  \<^verbatim>\<open>codepos > decoding_size\<close> lets the index equal to the size of the table through.
\<close>

definition decoding :: "int list" where
  "decoding =
    [62, -1, -1, -1, 63, 52, 53, 54, 55, 56, 57, 58,
     59, 60, 61, -1, -1, -1, -2, -1, -1, -1,  0,  1,
     2,   3,  4,  5,  6,  7,  8,  9, 10, 11, 12, 13,
     14, 15, 16, 17, 18, 19, 20, 21, 22, 23, 24, 25,
     -1, -1, -1, -1, -1, -1, 26, 27, 28, 29, 30, 31,
     32, 33, 34, 35, 36, 37, 38, 39, 40, 41, 42, 43,
     44, 45, 46, 47, 48, 49, 50, 51]"

definition base64_decode_value :: "u8 \<Rightarrow> int result" where
  "base64_decode_value c =
     (let codepos = sint c - 43 in
      if codepos < 0 \<or> 80 < codepos then Inr (- 1)
      else if nat codepos < length decoding then Inr (decoding ! nat codepos)
      else Inl Overrun)"

datatype decode_step = step_a | step_b | step_c | step_d

text \<open>
  Leaving the loop: the unfinished byte is read back from the output area (also where that
  is full) into the decoder's state.
\<close>

definition decode_stop :: "bytes \<Rightarrow> nat \<Rightarrow> (nat \<times> bytes) result" where
  "decode_stop out p = (if p < length out then Inr (p, out) else Inl Overrun)"

definition or_at :: "nat \<Rightarrow> u8 \<Rightarrow> bytes \<Rightarrow> bytes" where
  "or_at p v out = out[p := out ! p OR v]"

definition set_if_room :: "nat \<Rightarrow> u8 \<Rightarrow> bytes \<Rightarrow> bytes" where
  "set_if_room p v out = (if p < length out then out[p := v] else out)"

fun decode_loop :: "decode_step \<Rightarrow> bytes \<Rightarrow> bytes \<Rightarrow> nat \<Rightarrow> (nat \<times> bytes) result" where
  "decode_loop st [] out p = decode_stop out p"
| "decode_loop st (c # cs) out p =
     (if length out \<le> p then decode_stop out p
      else case base64_decode_value c of
          Inl e \<Rightarrow> Inl e
        | Inr v \<Rightarrow>
            if v < 0 then decode_loop st cs out p
            else let fragment = (of_int v :: u8) in
              (case st of
                 step_a \<Rightarrow> decode_loop step_b cs (out[p := push_bit 2 (fragment AND 0x3f)]) p
               | step_b \<Rightarrow>
                   decode_loop step_c cs
                     (set_if_room (p + 1) (push_bit 4 (fragment AND 0x0f))
                        (or_at p (drop_bit 4 (fragment AND 0x30)) out)) (p + 1)
               | step_c \<Rightarrow>
                   decode_loop step_d cs
                     (set_if_room (p + 1) (push_bit 6 (fragment AND 0x03))
                        (or_at p (drop_bit 2 (fragment AND 0x3c)) out)) (p + 1)
               | step_d \<Rightarrow>
                   decode_loop step_a cs (or_at p (fragment AND 0x3f) out) (p + 1)))"

text \<open>\<^verbatim>\<open>base64_decode\<close>: \<^verbatim>\<open>*out_pos = state->result\<close> first stores 0.\<close>

definition base64_decode :: "bytes \<Rightarrow> bytes \<Rightarrow> (nat \<times> bytes) result" where
  "base64_decode in_base64 out =
     (if out = [] then Inl Overrun else decode_loop step_a in_base64 (out[0 := 0]) 0)"

section \<open>The encoder\<close>

definition encoding :: string where
  "encoding = ''ABCDEFGHIJKLMNOPQRSTUVWXYZabcdefghijklmnopqrstuvwxyz0123456789+/''"

text \<open>
  The literal has a terminating zero, which \<^verbatim>\<open>sizeof\<close> counts; \<^verbatim>\<open>(unsigned) value\<close> of a
  negative character is large.
\<close>

definition base64_encode_value :: "u8 \<Rightarrow> u8" where
  "base64_encode_value v =
     (let codepos = sint v in
      if codepos < 0 \<or> 64 < codepos then of_char (CHR ''='')
      else if codepos = 64 then 0
      else of_char (encoding ! nat codepos))"

datatype encode_step = step_A | step_B | step_C

record encode_state =
  estep :: encode_step
  eresult :: u8
  stepcount :: nat

text \<open>
  The encoder's loop, entered at the step of its state: \<open>n\<close> is the space left in the output
  area, \<open>acc\<close> what has been stored in it.
\<close>

fun encode_block :: "encode_step \<Rightarrow> u8 \<Rightarrow> nat \<Rightarrow> bytes \<Rightarrow> nat \<Rightarrow> bytes \<Rightarrow> encode_state \<Rightarrow> bytes \<times> encode_state" where
  "encode_block step_A res sc [] n acc st = (acc, st\<lparr>eresult := res, estep := step_A, stepcount := sc\<rparr>)"
| "encode_block step_A res sc (fragment # bs) n acc st =
     (if n = 0 then (acc, st\<lparr>eresult := res, estep := step_A, stepcount := sc\<rparr>)
      else encode_block step_B (push_bit 4 (fragment AND 0x03)) sc bs (n - 1)
             (acc @ [base64_encode_value (drop_bit 2 (fragment AND 0xfc))]) st)"
| "encode_block step_B res sc [] n acc st = (acc, st\<lparr>eresult := res, estep := step_B, stepcount := sc\<rparr>)"
| "encode_block step_B res sc (fragment # bs) n acc st =
     (if n = 0 then (acc, st\<lparr>eresult := res, estep := step_B, stepcount := sc\<rparr>)
      else encode_block step_C (push_bit 2 (fragment AND 0x0f)) sc bs (n - 1)
             (acc @ [base64_encode_value (res OR drop_bit 4 (fragment AND 0xf0))]) st)"
| "encode_block step_C res sc [] n acc st = (acc, st\<lparr>eresult := res, estep := step_C, stepcount := sc\<rparr>)"
| "encode_block step_C res sc (fragment # bs) n acc st =
     (if n \<le> 2 then (acc, st\<lparr>eresult := res, estep := step_C, stepcount := sc\<rparr>)
      else
        let acc' = acc @ [base64_encode_value (res OR drop_bit 6 (fragment AND 0xc0)),
                          base64_encode_value (fragment AND 0x3f)]
        in if (sc + 1) * 4 = 72
           then (if n - 2 = 0 then (acc', st\<lparr>stepcount := sc + 1\<rparr>)
                 else encode_block step_A (fragment AND 0x3f) 0 bs (n - 3) (acc' @ [10]) st)
           else encode_block step_A (fragment AND 0x3f) (sc + 1) bs (n - 2) acc' st)"

definition encode_blockend :: "nat \<Rightarrow> encode_state \<Rightarrow> bytes" where
  "encode_blockend n st =
     (case estep st of
        step_B \<Rightarrow> if n \<le> 2 then [] else [base64_encode_value (eresult st), of_char (CHR ''=''), of_char (CHR ''='')]
      | step_C \<Rightarrow> if n \<le> 1 then [] else [base64_encode_value (eresult st), of_char (CHR ''='')]
      | step_A \<Rightarrow> [])"

text \<open>The text \<^verbatim>\<open>base64_encode\<close> puts into an output area of \<open>n\<close> bytes.\<close>

definition base64_encode :: "bytes \<Rightarrow> nat \<Rightarrow> bytes" where
  "base64_encode in_bin n =
     (let (a, st) = encode_block step_A 0 0 in_bin n [] \<lparr>estep = step_A, eresult = 0, stepcount = 0\<rparr>
      in a @ encode_blockend (n - length a) st)"

end
