(* ===== verification/Iproto_Writer.thy ===== *)
theory Iproto_Writer
  imports Mp_Values Iproto Sha1 Base64
begin

text \<open>
  \<^verbatim>\<open>iproto_writer\<close>: composes requests and responses of Tarantool's protocol. A message is a
  container of its own kind, opened by \<open>start_message\<close>; its 5-byte length prefix is
  completed by \<open>finalize\<close>.
\<close>

unbundle bit_operations_syntax

section \<open>State and base functions\<close>

text \<open>
  \<^verbatim>\<open>get_request_id\<close> is a function the owner of the writer supplies: from the state of its
  counter to a number and the next state.
\<close>

record 'i iproto_writer =
  mpw :: mp_writer
  ids :: 'i

definition on_mp :: "(mp_writer, 'a) op \<Rightarrow> ('i iproto_writer, 'a) op" where
  "on_mp f w = (case f (mpw w) of (r, m) \<Rightarrow> (r, w\<lparr>mpw := m\<rparr>))"

definition iproto_finalize :: "msgpuck \<Rightarrow> (mp_writer, unit) op" where
  "iproto_finalize mp w =
     (if is_empty (opened w) then (Inl (RangeError ''no request to finalize''), w)
      else
        let c = top (opened w); head = head_offset c in
        case deref (mem (buf w)) head of
          Inl e \<Rightarrow> (Inl e, w)
        | Inr b \<Rightarrow>
            if b = 0xce
            then
              let w1 = w\<lparr>opened := snd (pop (opened w))\<rparr>;
                  size = nat ((int (endp (buf w)) - int head) mod 2 ^ 64) in
              if size = 0 then (Inr (), w1)
              else if unat (max_cardinality c) < size
              then (Inl (OverflowError ''request size exceeded''), w1)
              else on_buf (poke (head + 1) (mp_store_u32 mp (of_int (int size - 5)))) w1
            else finalize mp w)"

lemma iproto_finalize_ssize:
  "\<not> is_empty (opened w) \<Longrightarrow> iproto_finalize mp w = (Inr u, w') \<Longrightarrow>
     ssize (opened w') < ssize (opened w)"
  using finalize_ssize [of w mp]
  by (auto simp: iproto_finalize_def pop_def is_empty_def Let_def on_buf_def
      split: prod.splits sum.splits if_splits)

function iproto_finalize_all :: "msgpuck \<Rightarrow> (mp_writer, unit) op" where
  "iproto_finalize_all mp w =
     (if is_empty (opened w) then (Inr (), w)
      else case iproto_finalize mp w of
          (Inl e, w') \<Rightarrow> (Inl e, w')
        | (Inr _, w') \<Rightarrow> iproto_finalize_all mp w')"
  by pat_completeness auto
termination
  by (relation "measure (\<lambda>(mp, w). ssize (opened w))") (auto dest: iproto_finalize_ssize [OF _ sym])

declare iproto_finalize_all.simps [simp del]

text \<open>\<^verbatim>\<open>capacity() - size() < 1024\<close> is a comparison of unsigned numbers.\<close>

definition ensure_1k :: "(mp_writer, unit) op" where
  "ensure_1k w =
     (if nat ((int (capacity (buf w)) - int (buf_size (buf w))) mod 2 ^ 64) < 1024
      then on_buf (reserve (capacity (buf w) + 1024)) w
      else (Inr (), w))"

definition start_message :: "msgpuck \<Rightarrow> (mp_writer, unit) op" where
  "start_message mp =
     andthen (iproto_finalize_all mp)
       (andthen ensure_1k
         (\<lambda>w. andthen (on_stack (push \<lparr>head_offset = buf_size (buf w),
                  max_cardinality = 0xffffffff, items_count = 0\<rparr>))
            (andthen (on_buf (\<lambda>b. poke (endp b) (mp_store_u8 mp 0xce) b))
              (on_buf (advance 5))) w))"

section \<open>Headers\<close>

definition encode_request_header ::
  "msgpuck \<Rightarrow> ('i \<Rightarrow> u64 \<times> 'i) \<Rightarrow> request_type \<Rightarrow> ('i iproto_writer, unit) op" where
  "encode_request_header mp get_request_id req =
     andthen (on_mp (start_message mp))
       (andthen (on_mp (emit (mp_encode_map mp 2)))
         (andthen (on_mp (emit (mp_encode_uint mp (header_key H_CODE)
                    @ mp_encode_uint mp (ucast (request_code req)))))
           (\<lambda>w. let (i, s) = get_request_id (ids w) in
              on_mp (emit (mp_encode_uint mp (header_key H_SYNC) @ mp_encode_uint mp i))
                (w\<lparr>ids := s\<rparr>))))"

definition encode_response_header ::
  "msgpuck \<Rightarrow> ('i \<Rightarrow> u64 \<times> 'i) \<Rightarrow> u32 \<Rightarrow> u64 \<Rightarrow> ('i iproto_writer, unit) op" where
  "encode_response_header mp get_request_id error_code schema_version =
     (let code = (if error_code \<noteq> 0 then 0x8000 OR error_code else ucast (request_code R_OK)) in
      andthen (on_mp (start_message mp))
        (andthen (on_mp (emit (mp_encode_map mp 3)))
          (andthen (on_mp (emit (mp_encode_uint mp (header_key H_CODE) @ mp_encode_uint mp (ucast code))))
            (andthen
              (\<lambda>w. let (i, s) = get_request_id (ids w) in
                 on_mp (emit (mp_encode_uint mp (header_key H_SYNC) @ mp_encode_uint mp i))
                   (w\<lparr>ids := s\<rparr>))
              (on_mp (emit (mp_encode_uint mp (header_key H_SCHEMA_ID)
                 @ mp_encode_uint mp schema_version)))))))"

section \<open>Authentication\<close>

definition scramble_prepare :: "bytes \<Rightarrow> bytes \<Rightarrow> bytes" where
  "scramble_prepare salt pass =
     (let hash1 = sha1 pass;
          hash2 = sha1 hash1;
          ctx = SHA1Update (SHA1Update (SHA1Init (replicate 64 0)) (take SCRAMBLE_SIZE salt)) hash2
      in map2 (XOR) hash1 (SHA1Final ctx))"

text \<open>
  \<open>salt_area\<close> is the uninitialised local array \<^verbatim>\<open>char salt[64]\<close>. The user name is copied
  behind its header; the scramble is stored and then counted.
\<close>

definition encode_auth_request ::
  "msgpuck \<Rightarrow> ('i \<Rightarrow> u64 \<times> 'i) \<Rightarrow> bytes \<Rightarrow> bytes \<Rightarrow> bytes \<Rightarrow> bytes \<Rightarrow> bytes
     \<Rightarrow> ('i iproto_writer, unit) op" where
  "encode_auth_request mp get_request_id salt_area greeting user password auth_proto =
     andthen (encode_request_header mp get_request_id R_AUTH)
       (on_mp
         (andthen (emit (mp_encode_map mp 2))
         (andthen (emit (mp_encode_uint mp (body_key B_USER_NAME)
                           @ mp_encode_strl mp (of_nat (length user))))
         (andthen (emit user)
         (andthen (emit (mp_encode_uint mp (body_key B_TUPLE)))
         (andthen (emit (mp_encode_array mp 2))
         (andthen (emit (mp_encode_str mp auth_proto))
         (andthen (emit (mp_encode_strl mp (of_nat SCRAMBLE_SIZE)))
         (if length greeting < VERSION_SIZE + SALT_SIZE then throw Overrun
          else case base64_decode (take SALT_SIZE (drop VERSION_SIZE greeting)) salt_area of
              Inl e \<Rightarrow> throw e
            | Inr (_, salt) \<Rightarrow>
                andthen (emit (scramble_prepare salt password)) (iproto_finalize mp))))))))))"

section \<open>Requests\<close>

definition encode_id_request ::
  "msgpuck \<Rightarrow> ('i \<Rightarrow> u64 \<times> 'i) \<Rightarrow> proto_id \<Rightarrow> ('i iproto_writer, unit) op" where
  "encode_id_request mp get_request_id proto =
     andthen (encode_request_header mp get_request_id R_PROTO_ID)
       (on_mp
         (andthen (emit (mp_encode_map mp (1 + (if version proto \<noteq> 0 then 1 else 0)
                                             + (if auth proto = [] then 0 else 1))))
         (andthen (if version proto \<noteq> 0
                   then andthen (emit (mp_encode_uint mp (body_key B_VERSION)))
                          (emit (mp_encode_uint mp (version proto)))
                   else ret ())
         (andthen (emit (mp_encode_uint mp (body_key B_FEATURES)))
         (andthen (emit (mp_encode_array mp (of_nat (length (list_features proto)))))
         (andthen (for_each (\<lambda>f. emit (mp_encode_uint mp (ucast f))) (list_features proto))
         (andthen (if auth proto \<noteq> []
                   then andthen (emit (mp_encode_uint mp (body_key B_AUTH_TYPE)))
                          (emit (mp_encode_str mp (auth proto)))
                   else ret ())
           (iproto_finalize mp))))))))"

definition encode_ping_request ::
  "msgpuck \<Rightarrow> ('i \<Rightarrow> u64 \<times> 'i) \<Rightarrow> ('i iproto_writer, unit) op" where
  "encode_ping_request mp get_request_id =
     andthen (encode_request_header mp get_request_id R_PING)
       (on_mp (andthen (emit (mp_encode_map mp 0)) (iproto_finalize mp)))"

definition begin_call ::
  "msgpuck \<Rightarrow> ('i \<Rightarrow> u64 \<times> 'i) \<Rightarrow> bytes \<Rightarrow> ('i iproto_writer, unit) op" where
  "begin_call mp get_request_id fn_name =
     andthen (encode_request_header mp get_request_id R_CALL)
       (on_mp
         (andthen (emit (mp_encode_map mp 2))
         (andthen (emit (mp_encode_uint mp (body_key B_FUNCTION_NAME)))
         (andthen (emit (mp_encode_str mp fn_name))
           (emit (mp_encode_uint mp (body_key B_TUPLE)))))))"

definition begin_eval ::
  "msgpuck \<Rightarrow> ('i \<Rightarrow> u64 \<times> 'i) \<Rightarrow> bytes \<Rightarrow> ('i iproto_writer, unit) op" where
  "begin_eval mp get_request_id script =
     andthen (encode_request_header mp get_request_id R_EVAL)
       (on_mp
         (andthen (emit (mp_encode_map mp 2))
         (andthen (emit (mp_encode_uint mp (body_key B_EXPRESSION)))
         (andthen (emit (mp_encode_str mp script))
           (emit (mp_encode_uint mp (body_key B_TUPLE)))))))"

definition call ::
  "msgpuck \<Rightarrow> ('i \<Rightarrow> u64 \<times> 'i) \<Rightarrow> bytes \<Rightarrow> wval list \<Rightarrow> ('i iproto_writer, unit) op" where
  "call mp get_request_id fn_name args =
     andthen (begin_call mp get_request_id fn_name)
       (on_mp
         (andthen (begin_array mp (of_nat (length args)))
         (andthen (for_each (write_val mp) args)
           (iproto_finalize_all mp))))"

definition eval_request ::
  "msgpuck \<Rightarrow> ('i \<Rightarrow> u64 \<times> 'i) \<Rightarrow> bytes \<Rightarrow> wval list \<Rightarrow> ('i iproto_writer, unit) op" where
  "eval_request mp get_request_id script args =
     andthen (begin_eval mp get_request_id script)
       (on_mp
         (andthen (begin_array mp (of_nat (length args)))
         (andthen (for_each (write_val mp) args)
           (iproto_finalize_all mp))))"

end
