(* ===== verification/Iproto_Laws.thy ===== *)
theory Iproto_Laws
  imports Iproto_Writer
begin

text \<open>
  Messages of \<open>iproto_writer\<close> as byte strings: what is between \<open>start_message\<close> and
  \<open>finalize\<close>, the frame that results, and the requests byte for byte.
\<close>

section \<open>A message under construction\<close>

definition frame :: "bytes \<Rightarrow> bytes" where
  "frame body = 0xce # to_be 4 (length body) @ body"

text \<open>A writer between messages: no open container, a buffer that can grow.\<close>

definition idle :: "mp_writer \<Rightarrow> bool" where
  "idle w \<longleftrightarrow> wf_writer w \<and> growable (buf w) \<and> open_containers w = [] \<and> capacity (buf w) < 2 ^ 63"

text \<open>The capacity once room for a message is made: \<open>start_message\<close> wants a kilobyte.\<close>

definition reserved :: "mp_writer \<Rightarrow> nat" where
  "reserved w = (if room w < 1024 then capacity (buf w) + 1024 else capacity (buf w))"

lemma reserved_le: "reserved w \<le> capacity (buf w) + 1024"
  by (simp add: reserved_def)

text \<open>
  \<open>composing w0 bs w\<close>: since the idle writer \<open>w0\<close> a message was started and \<open>bs\<close> put into
  it; at least 1024 bytes are reserved for it, and at least what was free before.
\<close>

definition composing :: "mp_writer \<Rightarrow> bytes \<Rightarrow> mp_writer \<Rightarrow> bool" where
  "composing w0 bs w \<longleftrightarrow>
     (\<exists>g k. length g = 4 \<and> written w = written w0 @ 0xce # g @ bs
        \<and> open_containers w = [\<lparr>head_offset = length (written w0), max_cardinality = 0xffffffff,
              items_count = k\<rparr>]
        \<and> wf_writer w \<and> growable (buf w)
        \<and> capacity (buf w) = reserved w0
        \<and> stk_free (opened w) + 1 = stk_free (opened w0)
        \<and> max (room w0) 1024 \<le> room w + 5 + length bs)"

lemma wrote_growable: "wrote w bs n w' \<Longrightarrow> growable (buf w') = growable (buf w)"
  by (simp add: wrote_def)

lemma wrote_capacity:
  "wf_writer w \<Longrightarrow> length bs \<le> room w \<Longrightarrow> wrote w bs n w' \<Longrightarrow> capacity (buf w') = capacity (buf w)"
  using wf_writer_room [of w bs] by (simp add: wrote_def)

lemma written_length: "wf_writer w \<Longrightarrow> length (written w) = endp (buf w)"
  by (simp add: written_def wf_writer_def buf_size_content)

lemma composing_step:
  assumes c: "composing w0 bs w" and f: "emits f xs n d"
    and room: "5 + length (bs @ xs) \<le> max (room w0) 1024" and d: "d < stk_free (opened w0)"
  obtains w' where "f w = (Inr (), w')" and "composing w0 (bs @ xs) w'"
proof -
  from c have w: "wf_writer w" "length xs \<le> room w" "d \<le> stk_free (opened w)"
    using room d by (auto simp: composing_def)
  with f obtain w' where w': "f w = (Inr (), w')" "wrote w xs n w'"
    by (auto elim: emitsE)
  from wrote_written [OF w(1,2) w'(2)] wrote_room [OF w(1,2) w'(2)] wrote_growable [OF w'(2)]
    wrote_capacity [OF w(1,2) w'(2)]
  have "composing w0 (bs @ xs) w'"
    using c w'(2) w(2) by (auto simp: composing_def wrote_def)
  with w'(1) that show thesis by blast
qed

lemma iproto_finalize_all_empty:
  "wf_writer w \<Longrightarrow> open_containers w = [] \<Longrightarrow> iproto_finalize_all mp w = (Inr (), w)"
  by (simp add: iproto_finalize_all.simps [of mp w] wf_writer_def open_containers_def st.empty_iff)

lemma size_t_diff: "b \<le> (a :: nat) \<Longrightarrow> a < 2 ^ 64 \<Longrightarrow> nat ((int a - int b) mod 2 ^ 64) = a - b"
proof -
  assume "b \<le> a" "a < 2 ^ 64"
  then have "int a - int b = int (a - b)" "int (a - b) < 2 ^ 64" by auto
  then show ?thesis by (simp only: mod_pos_pos_trivial of_nat_0_le_iff nat_int)
qed

lemma ensure_1k_room:
  assumes i: "idle w"
  obtains w' where "ensure_1k w = (Inr (), w')" and "wf_writer w'" and "growable (buf w')"
    and "written w' = written w" and "opened w' = opened w" and "max (room w) 1024 \<le> room w'"
    and "capacity (buf w') = reserved w" and "endp (buf w') = endp (buf w)"
proof -
  have free: "nat ((int (capacity (buf w)) - int (buf_size (buf w))) mod 2 ^ 64) = room w"
    using i size_t_diff [of "endp (buf w)" "capacity (buf w)"]
    by (simp add: idle_def wf_writer_def wf_buf_def buf_size_def room_def)
  show thesis
  proof (cases "room w < 1024")
    case False
    then have "ensure_1k w = (Inr (), w)"
      unfolding ensure_1k_def free by simp
    with False i show thesis
      by (intro that [of w]) (auto simp: idle_def reserved_def)
  next
    case True
    from i reserve_ok [of "buf w" "capacity (buf w) + 1024"] obtain c where c:
        "reserve (capacity (buf w) + 1024) (buf w) = (Inr (), c)" "wf_buf c" "growable c"
        "capacity c = capacity (buf w) + 1024" "endp c = endp (buf w)" "content c = content (buf w)"
      by (auto simp: idle_def wf_writer_def)
    from True have "ensure_1k w = (Inr (), w\<lparr>buf := c\<rparr>)"
      unfolding ensure_1k_def free by (simp add: on_buf_def c(1))
    moreover have "reserved w = capacity (buf w) + 1024" using True by (simp add: reserved_def)
    ultimately show thesis
      using c i by (intro that [of "w\<lparr>buf := c\<rparr>"]) (auto simp: idle_def wf_writer_def written_def room_def wf_buf_def)
  qed
qed

lemma composing_start:
  assumes lib: "msgpuck_lib mp" and w: "idle w" "0 < stk_free (opened w)"
  obtains w' where "start_message mp w = (Inr (), w')" and "composing w [] w'"
proof -
  from w(1) obtain w1 where w1: "ensure_1k w = (Inr (), w1)" "wf_writer w1" "growable (buf w1)"
      "written w1 = written w" "opened w1 = opened w" "max (room w) 1024 \<le> room w1"
      "capacity (buf w1) = reserved w" "endp (buf w1) = endp (buf w)"
    by (rule ensure_1k_room)
  let ?m = "\<lparr>head_offset = endp (buf w1), max_cardinality = 0xffffffff, items_count = 0\<rparr> :: container_meta"
  from w1(2,5) w st.push_free [of "opened w1" ?m] obtain s where s:
      "push ?m (opened w1) = (Inr (), s)" "wf_stack s" "stk_list s = [?m]"
      "stk_free s = stk_free (opened w) - 1"
    by (auto simp: wf_writer_def idle_def open_containers_def)
  let ?b = "buf w1"
  have fits: "endp ?b + 1 \<le> capacity ?b" "endp ?b + 5 \<le> capacity ?b"
    using w1(2,6) by (auto simp: room_def)
  let ?b2 = "?b\<lparr>mem := overwrite (endp ?b) [0xce] (mem ?b), endp := endp ?b + 5\<rparr>"
  let ?w2 = "w1\<lparr>opened := s, buf := ?b2\<rparr>"
  have "start_message mp w = (Inr (), ?w2)"
    using w w1(1) s(1) fits msgpuck_lib.store_byte [OF lib, of "0xce"]
    by (simp add: start_message_def andthen_def seq_def iproto_finalize_all_empty idle_def
        on_stack_def on_buf_def poke_def advance_def buf_size_def)
  moreover have "composing w [] ?w2"
  proof -
    have "content ?b2 = content ?b @ 0xce # take 4 (drop (endp ?b + 1) (mem ?b))"
      using fits by (simp add: content_def overwrite_def capacity_def min_def add.commute)
    then show ?thesis
      unfolding composing_def
      using w1 s fits w written_length [OF w1(2)]
      by (intro exI [of _ "take 4 (drop (endp ?b + 1) (mem ?b))"] exI [of _ 0])
         (auto simp: written_def wf_writer_def wf_buf_def open_containers_def capacity_def
            room_def growable_def)
  qed
  ultimately show thesis by (rule that)
qed

lemma composing_finish:
  assumes lib: "msgpuck_lib mp" and c: "composing w0 bs w" and i: "idle w0"
    and len: "5 + length bs < 2 ^ 32"
  obtains w' where "iproto_finalize mp w = (Inr (), w')" and "written w' = written w0 @ frame bs"
    and "wf_writer w'" and "growable (buf w')" and "open_containers w' = []"
    and "stk_free (opened w') = stk_free (opened w0)" and "capacity (buf w') = capacity (buf w)"
proof -
  from c obtain g k where g: "length g = 4" "written w = written w0 @ 0xce # g @ bs"
      "open_containers w = [\<lparr>head_offset = length (written w0), max_cardinality = 0xffffffff, items_count = k\<rparr>]"
      "wf_writer w" "growable (buf w)" "stk_free (opened w) + 1 = stk_free (opened w0)"
      "capacity (buf w) \<le> capacity (buf w0) + 1024"
    by (auto simp: composing_def reserved_le)
  let ?c = "\<lparr>head_offset = length (written w0), max_cardinality = 0xffffffff, items_count = k\<rparr> :: container_meta"
  from g(4,3) obtain s where s: "pop (opened w) = (?c, s)" "wf_stack s" "stk_list s = []"
      "stk_free s = stk_free (opened w) + 1" "\<not> is_empty (opened w)"
    by (rule pop_container)
  have top: "top (opened w) = ?c"
    using s(1,5) by (auto simp: pop_def top_def top_index_def is_empty_def split: if_splits)
  have endp: "endp (buf w) = length (written w0) + 5 + length bs"
    using written_length [OF g(4)] g(1,2) by simp
  have wf: "wf_buf (buf w)" using g(4) by (simp add: wf_writer_def)
  have hd0: "deref (mem (buf w)) (length (written w0)) = Inr 0xce"
    using deref_content [OF wf, of "written w0" "[0xce]" "g @ bs"] g(2) by (simp add: written_def)
  let ?l = "to_be 4 (length bs)"
  have cap: "endp (buf w) < 2 ^ 64"
    using wf g(7) i by (auto simp: wf_buf_def idle_def)
  have size: "nat ((int (endp (buf w)) - int (length (written w0))) mod 2 ^ 64) = 5 + length bs"
    using size_t_diff [of "length (written w0)" "endp (buf w)"] cap endp by simp
  have st: "mp_store_u32 mp (of_int (int (5 + length bs) - 5)) = ?l"
    using msgpuck_lib.store_u32 [OF lib, of "of_nat (length bs)"] len
    by (simp add: unat_of_nat take_bit_nat_eq_self)
  let ?b = "(buf w)\<lparr>mem := overwrite (length (written w0 @ [0xce])) ?l (mem (buf w))\<rparr>"
  have p: "poke (length (written w0 @ [0xce])) ?l (buf w) = (Inr (), ?b)"
      "content ?b = (written w0 @ [0xce]) @ ?l @ bs" "wf_buf ?b"
    using poke_content [OF wf, of "written w0 @ [0xce]" g bs ?l] g(1,2) by (auto simp: written_def)
  let ?w = "w\<lparr>opened := s, buf := ?b\<rparr>"
  show thesis
  proof (rule that [of ?w])
    show "iproto_finalize mp w = (Inr (), ?w)"
      using s(1,5) top hd0 size st p(1) len
      by (simp add: iproto_finalize_def Let_def on_buf_def del: to_be.simps)
    show "capacity (buf ?w) = capacity (buf w)"
      using g(1) endp wf by (simp add: capacity_def wf_buf_def)
  qed (use p s g in \<open>auto simp: written_def frame_def wf_writer_def open_containers_def growable_def\<close>)
qed

section \<open>Requests\<close>

text \<open>What follows the length prefix: the header with the request's code and number.\<close>

definition request_header_bytes :: "msgpuck \<Rightarrow> request_type \<Rightarrow> u64 \<Rightarrow> bytes" where
  "request_header_bytes mp req i =
     mp_encode_map mp 2
     @ mp_encode_uint mp (header_key H_CODE) @ mp_encode_uint mp (ucast (request_code req))
     @ mp_encode_uint mp (header_key H_SYNC) @ mp_encode_uint mp i"

text \<open>The writer takes a message of \<open>n\<close> bytes in which \<open>d\<close> containers are open at once.\<close>

definition accepts :: "mp_writer \<Rightarrow> nat \<Rightarrow> nat \<Rightarrow> bool" where
  "accepts w n d \<longleftrightarrow> idle w \<and> d < stk_free (opened w) \<and> 5 + n \<le> max (room w) 1024 \<and> 5 + n < 2 ^ 32"

definition sent :: "'i iproto_writer \<Rightarrow> bytes \<Rightarrow> 'i \<Rightarrow> 'i iproto_writer \<Rightarrow> bool" where
  "sent w body s w' \<longleftrightarrow> written (mpw w') = written (mpw w) @ frame body \<and> ids w' = s
     \<and> wf_writer (mpw w') \<and> growable (buf (mpw w')) \<and> open_containers (mpw w') = []
     \<and> stk_free (opened (mpw w')) = stk_free (opened (mpw w))
     \<and> capacity (buf (mpw w')) = reserved (mpw w)"

lemma on_mp_Inr: "f (mpw w) = (Inr u, m) \<Longrightarrow> on_mp f w = (Inr u, w\<lparr>mpw := m\<rparr>)"
  by (simp add: on_mp_def)

lemma request_header:
  assumes lib: "msgpuck_lib mp" and w: "idle (mpw w)" "0 < stk_free (opened (mpw w))"
    and i: "gen (ids w) = (i, s)"
    and len: "5 + length (request_header_bytes mp req i) \<le> max (room (mpw w)) 1024"
  obtains w' where "encode_request_header mp gen req w = (Inr (), w')" and "ids w' = s"
    and "composing (mpw w) (request_header_bytes mp req i) (mpw w')"
proof -
  let ?a = "mp_encode_map mp 2"
  let ?b = "mp_encode_uint mp (header_key H_CODE) @ mp_encode_uint mp (ucast (request_code req))"
  let ?c = "mp_encode_uint mp (header_key H_SYNC) @ mp_encode_uint mp i"
  note len' = len [unfolded request_header_bytes_def]
  from lib w obtain m1 where m1: "start_message mp (mpw w) = (Inr (), m1)" "composing (mpw w) [] m1"
    by (rule composing_start)
  from composing_step [OF m1(2) emits_emit [of ?a 0]] w len' obtain m2 where
    m2: "emit ?a m1 = (Inr (), m2)" "composing (mpw w) ([] @ ?a) m2" by auto
  from composing_step [OF m2(2) emits_emit [of ?b 0]] w len' obtain m3 where
    m3: "emit ?b m2 = (Inr (), m3)" "composing (mpw w) (([] @ ?a) @ ?b) m3" by auto
  from composing_step [OF m3(2) emits_emit [of ?c 0]] w len' obtain m4 where
    m4: "emit ?c m3 = (Inr (), m4)" "composing (mpw w) ((([] @ ?a) @ ?b) @ ?c) m4" by auto
  have "encode_request_header mp gen req w = (Inr (), w\<lparr>mpw := m4, ids := s\<rparr>)"
    using i m1(1) m2(1) m3(1) m4(1)
    by (simp add: encode_request_header_def andthen_def seq_def on_mp_def)
  then show thesis
    using m4(2) by (intro that [of "w\<lparr>mpw := m4, ids := s\<rparr>"]) (simp_all add: request_header_bytes_def)
qed

lemma request_started:
  assumes lib: "msgpuck_lib mp" and i: "gen (ids w) = (i, s)"
    and acc: "accepts (mpw w) (length (request_header_bytes mp req i @ bs)) d"
    and body: "emits body bs n d"
  obtains w1 m2 where "encode_request_header mp gen req w = (Inr (), w1)" and "ids w1 = s"
    and "body (mpw w1) = (Inr (), m2)"
    and "composing (mpw w) (request_header_bytes mp req i @ bs) m2"
proof -
  from acc have w: "idle (mpw w)" "0 < stk_free (opened (mpw w))"
    "5 + length (request_header_bytes mp req i) \<le> max (room (mpw w)) 1024"
    by (auto simp: accepts_def)
  from lib w(1,2) i w(3) obtain w1 where w1: "encode_request_header mp gen req w = (Inr (), w1)"
      "ids w1 = s" "composing (mpw w) (request_header_bytes mp req i) (mpw w1)"
    by (rule request_header)
  from composing_step [OF w1(3) body] acc that w1(1,2) show thesis by (auto simp: accepts_def)
qed

lemma sent_finish:
  assumes lib: "msgpuck_lib mp" and c: "composing (mpw w) body m" and acc: "accepts (mpw w) (length body) d"
  obtains m' where "iproto_finalize mp m = (Inr (), m')" and "iproto_finalize_all mp m' = (Inr (), m')"
    and "sent w body s (w1\<lparr>mpw := m', ids := s\<rparr>)"
proof -
  from acc have i: "idle (mpw w)" "5 + length body < 2 ^ 32" by (auto simp: accepts_def)
  from lib c i obtain m' where m': "iproto_finalize mp m = (Inr (), m')"
      "written m' = written (mpw w) @ frame body" "wf_writer m'" "growable (buf m')"
      "open_containers m' = []" "stk_free (opened m') = stk_free (opened (mpw w))" "capacity (buf m') = capacity (buf m)"
    by (rule composing_finish)
  moreover have "capacity (buf m) = reserved (mpw w)" using c by (auto simp: composing_def)
  ultimately show thesis using that iproto_finalize_all_empty [OF m'(3,5)] by (simp add: sent_def)
qed

text \<open>A request whose body is composed by \<open>body\<close> and closed by \<open>finalize\<close>.\<close>

lemma request_frame:
  assumes lib: "msgpuck_lib mp" and i: "gen (ids w) = (i, s)"
    and acc: "accepts (mpw w) (length (request_header_bytes mp req i @ bs)) d"
    and body: "emits body bs n d"
  obtains w' where
    "andthen (encode_request_header mp gen req) (on_mp (andthen body (iproto_finalize mp))) w = (Inr (), w')"
    and "sent w (request_header_bytes mp req i @ bs) s w'"
proof -
  from request_started [of mp gen w i s, OF lib i acc body] obtain w1 m2 where
    w1: "encode_request_header mp gen req w = (Inr (), w1)" "ids w1 = s"
      "body (mpw w1) = (Inr (), m2)" "composing (mpw w) (request_header_bytes mp req i @ bs) m2" .
  from sent_finish [of mp w _ m2 d s w1, OF lib w1(4) acc] obtain m3 where
    m3: "iproto_finalize mp m2 = (Inr (), m3)"
      "sent w (request_header_bytes mp req i @ bs) s (w1\<lparr>mpw := m3, ids := s\<rparr>)" by auto
  from w1(2) have "w1\<lparr>mpw := m3, ids := s\<rparr> = w1\<lparr>mpw := m3\<rparr>" by (cases w1) simp
  with w1 m3 that [of "w1\<lparr>mpw := m3\<rparr>"] show thesis
    by (simp add: andthen_def seq_def on_mp_def)
qed

text \<open>\<open>finalize_all\<close> of a message that has one more container open inside.\<close>

lemma andthen_assoc: "andthen (andthen f g) h = andthen f (andthen g h)"
  by (rule ext) (simp add: andthen_def seq_def split: prod.splits sum.splits)

lemma on_mp_andthen: "on_mp (andthen f g) = andthen (on_mp f) (on_mp g)"
  by (rule ext) (simp add: andthen_def seq_def on_mp_def split: prod.splits sum.splits)

lemma iproto_finalize_inner:
  assumes lib: "msgpuck_lib mp" and f: "finalize mp w = (Inr (), w')"
  shows "iproto_finalize mp w = (Inr (), w')"
proof -
  have "mp_typeof mp (hd (0xce # to_be 4 0)) = mpv_type (MUint 0)"
    by (rule msgpuck_lib.typeof_wire [OF lib]) (intro wire_uint, simp add: hdr_uint_def)
  then have ce: "mp_typeof mp 0xce = MP_UINT" by simp
  from f have ne: "\<not> is_empty (opened w)" by (auto simp: finalize_def)
  obtain c s where s: "pop (opened w) = (c, s)" by force
  with ne have top: "top (opened w) = c"
    by (auto simp: pop_def top_def top_index_def is_empty_def split: if_splits)
  from f ne s obtain b where b: "deref (mem (buf w)) (head_offset c) = Inr b"
    by (cases "deref (mem (buf w)) (head_offset c)") (auto simp: finalize_def)
  with f ne s ce have "b \<noteq> 0xce" by (auto simp: finalize_def)
  with ne top b f show ?thesis by (simp add: iproto_finalize_def Let_def)
qed

lemma iproto_finalize_all_step:
  "iproto_finalize mp w = (Inr (), w') \<Longrightarrow> iproto_finalize_all mp w = iproto_finalize_all mp w'"
  by (subst iproto_finalize_all.simps) (auto simp: iproto_finalize_def)

lemma andthen_InrE:
  assumes "andthen f g w = (Inr u, w'')"
  obtains w' where "f w = (Inr (), w')" and "g w' = (Inr u, w'')"
  using assms by (auto simp: andthen_def seq_def split: prod.splits sum.splits)

lemma request_frame_all:
  assumes lib: "msgpuck_lib mp" and i: "gen (ids w) = (i, s)"
    and acc: "accepts (mpw w) (length (request_header_bytes mp req i @ bs)) d"
    and body: "emits (andthen body (finalize mp)) bs n d"
  obtains w' where
    "andthen (encode_request_header mp gen req) (on_mp (andthen body (iproto_finalize_all mp))) w
       = (Inr (), w')"
    and "sent w (request_header_bytes mp req i @ bs) s w'"
proof -
  from request_started [of mp gen w i s, OF lib i acc body] obtain w1 m2 where
    w1: "encode_request_header mp gen req w = (Inr (), w1)" "ids w1 = s"
      "andthen body (finalize mp) (mpw w1) = (Inr (), m2)"
      "composing (mpw w) (request_header_bytes mp req i @ bs) m2" .
  from w1(3) obtain m where m: "body (mpw w1) = (Inr (), m)" "finalize mp m = (Inr (), m2)"
    by (rule andthen_InrE)
  from sent_finish [of mp w _ m2 d s w1, OF lib w1(4) acc] obtain m3 where
    m3: "iproto_finalize mp m2 = (Inr (), m3)" "iproto_finalize_all mp m3 = (Inr (), m3)"
      "sent w (request_header_bytes mp req i @ bs) s (w1\<lparr>mpw := m3, ids := s\<rparr>)" .
  have "iproto_finalize_all mp m = (Inr (), m3)"
    using iproto_finalize_all_step [OF iproto_finalize_inner [OF lib m(2)]]
      iproto_finalize_all_step [OF m3(1)] m3(2) by simp
  moreover from w1(2) have "w1\<lparr>mpw := m3, ids := s\<rparr> = w1\<lparr>mpw := m3\<rparr>" by (cases w1) simp
  ultimately show thesis
    using w1(1) m(1) m3(3) that [of "w1\<lparr>mpw := m3\<rparr>"]
    by (simp add: andthen_def seq_def on_mp_def)
qed

section \<open>The requests byte for byte\<close>

definition id_body :: "msgpuck \<Rightarrow> proto_id \<Rightarrow> bytes" where
  "id_body mp p =
     mp_encode_map mp (1 + (if version p \<noteq> 0 then 1 else 0) + (if auth p = [] then 0 else 1))
     @ (if version p \<noteq> 0 then mp_encode_uint mp (body_key B_VERSION) @ mp_encode_uint mp (version p) else [])
     @ mp_encode_uint mp (body_key B_FEATURES)
     @ mp_encode_array mp (of_nat (length (list_features p)))
     @ concat (map (\<lambda>f. mp_encode_uint mp (ucast f)) (list_features p))
     @ (if auth p \<noteq> [] then mp_encode_uint mp (body_key B_AUTH_TYPE) @ mp_encode_str mp (auth p) else [])"

definition auth_body :: "msgpuck \<Rightarrow> bytes \<Rightarrow> bytes \<Rightarrow> bytes \<Rightarrow> bytes" where
  "auth_body mp user proto scramble =
     mp_encode_map mp 2
     @ mp_encode_uint mp (body_key B_USER_NAME) @ mp_encode_strl mp (of_nat (length user)) @ user
     @ mp_encode_uint mp (body_key B_TUPLE) @ mp_encode_array mp 2
     @ mp_encode_str mp proto
     @ mp_encode_strl mp (of_nat SCRAMBLE_SIZE) @ scramble"

definition call_body :: "msgpuck \<Rightarrow> body_field \<Rightarrow> bytes \<Rightarrow> wval list \<Rightarrow> bytes" where
  "call_body mp key name args =
     mp_encode_map mp 2
     @ mp_encode_uint mp (body_key key) @ mp_encode_str mp name
     @ mp_encode_uint mp (body_key B_TUPLE) @ enc_val mp (WTuple args)"

text \<open>
  \<open>composes k f bs d\<close>: \<open>f\<close> composes \<open>bs\<close> and then runs \<open>k\<close>;
  \<open>composes_all\<close>: it composes \<open>bs\<close> but for the closing of a last container, which is left
  to \<open>finalize_all\<close>.
\<close>

definition composes :: "(mp_writer, unit) op \<Rightarrow> (mp_writer, unit) op \<Rightarrow> bytes \<Rightarrow> nat \<Rightarrow> bool" where
  "composes k f bs d \<longleftrightarrow> (\<exists>body n. f = andthen body k \<and> emits body bs n d)"

definition composes_all :: "msgpuck \<Rightarrow> (mp_writer, unit) op \<Rightarrow> bytes \<Rightarrow> nat \<Rightarrow> bool" where
  "composes_all mp f bs d \<longleftrightarrow> (\<exists>body n. f = andthen body (iproto_finalize_all mp)
     \<and> emits (andthen body (finalize mp)) bs n d)"

lemma composes_last: "emits a xs n d \<Longrightarrow> composes k (andthen a k) xs d"
  by (auto simp: composes_def)

lemma composes_step: "emits a xs n d \<Longrightarrow> composes k f ys d \<Longrightarrow> composes k (andthen a f) (xs @ ys) d"
  using emits_seq by (fastforce simp: composes_def andthen_assoc [symmetric])

lemma composes_all_last:
  "emits (andthen a (andthen b (finalize mp))) xs n d \<Longrightarrow>
     composes_all mp (andthen a (andthen b (iproto_finalize_all mp))) xs d"
  unfolding composes_all_def by (intro exI [of _ "andthen a b"] exI [of _ n]) (simp add: andthen_assoc)

lemma composes_all_step:
  "emits a xs n d \<Longrightarrow> composes_all mp f ys d \<Longrightarrow> composes_all mp (andthen a f) (xs @ ys) d"
  unfolding composes_all_def
  by (elim exE conjE, rule_tac x = "andthen a body" in exI) (auto simp: andthen_assoc intro: emits_seq)

lemma emits_if: "emits f xs n d \<Longrightarrow> emits g ys m d \<Longrightarrow>
    emits (if b then f else g) (if b then xs else ys) (if b then n else m) d"
  by simp

lemmas emits_intros = composes_last composes_step emits_seq emits_if emits_ret emits_emit

text \<open>A request sent: the operation gives no error and leaves one frame with this body.\<close>

definition sends :: "('i iproto_writer, unit) op \<Rightarrow> 'i iproto_writer \<Rightarrow> bytes \<Rightarrow> 'i \<Rightarrow> bool" where
  "sends f w body s \<longleftrightarrow> (\<exists>w'. f w = (Inr (), w') \<and> sent w body s w')"

lemma request_sends:
  assumes "msgpuck_lib mp" and "gen (ids w) = (i, s)"
    and "accepts (mpw w) (length (request_header_bytes mp req i @ bs)) d"
    and "composes (iproto_finalize mp) f bs d"
  shows "sends (andthen (encode_request_header mp gen req) (on_mp f)) w
           (request_header_bytes mp req i @ bs) s"
proof -
  from assms(4) obtain body n where b: "f = andthen body (iproto_finalize mp)" "emits body bs n d"
    by (auto simp: composes_def)
  from request_frame [of mp gen w i s, OF assms(1-3) b(2)] obtain w' where
    "andthen (encode_request_header mp gen req) (on_mp (andthen body (iproto_finalize mp))) w = (Inr (), w')"
    "sent w (request_header_bytes mp req i @ bs) s w'" .
  with b(1) show ?thesis by (auto simp: sends_def)
qed

lemma request_sends_all:
  assumes "msgpuck_lib mp" and "gen (ids w) = (i, s)"
    and "accepts (mpw w) (length (request_header_bytes mp req i @ bs)) d"
    and "composes_all mp f bs d"
  shows "sends (andthen (encode_request_header mp gen req) (on_mp f)) w
           (request_header_bytes mp req i @ bs) s"
proof -
  from assms(4) obtain body n where b: "f = andthen body (iproto_finalize_all mp)"
      "emits (andthen body (finalize mp)) bs n d"
    by (auto simp: composes_all_def)
  from request_frame_all [of mp gen w i s, OF assms(1-3) b(2)] obtain w' where
    "andthen (encode_request_header mp gen req) (on_mp (andthen body (iproto_finalize_all mp))) w = (Inr (), w')"
    "sent w (request_header_bytes mp req i @ bs) s w'" .
  with b(1) show ?thesis by (auto simp: sends_def)
qed

lemma ping_sends:
  assumes "msgpuck_lib mp" and "gen (ids w) = (i, s)"
    and "accepts (mpw w) (length (request_header_bytes mp R_PING i @ mp_encode_map mp 0)) 0"
  shows "sends (encode_ping_request mp gen) w (request_header_bytes mp R_PING i @ mp_encode_map mp 0) s"
  unfolding encode_ping_request_def by (rule request_sends [of mp gen w i s, OF assms]) (rule emits_intros)+

lemma emits_features:
  "emits (for_each (\<lambda>f. emit (mp_encode_uint mp (ucast f))) (fs :: u8 list))
      (concat (map (\<lambda>f. mp_encode_uint mp (ucast f)) fs)) 0 d"
  using emits_for_each [of fs "\<lambda>f. emit (mp_encode_uint mp (ucast f))"
        "\<lambda>f. mp_encode_uint mp (ucast f)" "\<lambda>_. 0" d] by (auto simp: sum_list_triv emits_emit)

lemma id_sends:
  assumes "msgpuck_lib mp" and "gen (ids w) = (i, s)"
    and "accepts (mpw w) (length (request_header_bytes mp R_PROTO_ID i @ id_body mp p)) 0"
  shows "sends (encode_id_request mp gen p) w (request_header_bytes mp R_PROTO_ID i @ id_body mp p) s"
  unfolding encode_id_request_def
  by (rule request_sends [of mp gen w i s, OF assms], unfold id_body_def) (rule emits_intros emits_features)+

lemma auth_sends:
  assumes "msgpuck_lib mp" and "gen (ids w) = (i, s)"
    and g: "VERSION_SIZE + SALT_SIZE \<le> length greeting"
      "base64_decode (take SALT_SIZE (drop VERSION_SIZE greeting)) area = Inr (k, salt)"
    and acc: "accepts (mpw w) (length (request_header_bytes mp R_AUTH i
           @ auth_body mp user proto (scramble_prepare salt password))) 0"
  shows "sends (encode_auth_request mp gen area greeting user password proto) w
           (request_header_bytes mp R_AUTH i @ auth_body mp user proto (scramble_prepare salt password)) s"
proof -
  have b: "auth_body mp user proto (scramble_prepare salt password) =
     mp_encode_map mp 2
     @ (mp_encode_uint mp (body_key B_USER_NAME) @ mp_encode_strl mp (of_nat (length user))) @ user
     @ mp_encode_uint mp (body_key B_TUPLE) @ mp_encode_array mp 2
     @ mp_encode_str mp proto
     @ mp_encode_strl mp (of_nat SCRAMBLE_SIZE) @ scramble_prepare salt password"
    by (simp add: auth_body_def)
  have n: "\<not> length greeting < VERSION_SIZE + SALT_SIZE"
    using g(1) by simp
  show ?thesis
    unfolding encode_auth_request_def g(2) if_not_P [OF n] sum.case prod.case
    by (rule request_sends [of mp gen w i s, OF assms(1,2) acc], unfold b) (rule emits_intros)+
qed

lemma composes_args:
  assumes lib: "msgpuck_lib mp" and args: "writable (WTuple args)"
  shows "composes_all mp
           (andthen (emit (mp_encode_map mp 2))
             (andthen (emit (mp_encode_uint mp (body_key key)))
               (andthen (emit (mp_encode_str mp name))
                 (andthen (emit (mp_encode_uint mp (body_key B_TUPLE)))
                   (andthen (begin_array mp (of_nat (length args)))
                     (andthen (for_each (write_val mp) args) (iproto_finalize_all mp)))))))
           (call_body mp key name args) (depth (WTuple args))"
proof -
  from msgpuck_lib.emits_write_val [OF lib args order_refl] have a: "emits (andthen (begin_array mp (of_nat (length args)))
       (andthen (for_each (write_val mp) args) (finalize mp))) (enc_val mp (WTuple args)) 1
       (depth (WTuple args))"
    by (simp only: write_val.simps)
  show ?thesis
    unfolding call_body_def
    by (rule composes_all_step [OF emits_emit] composes_all_last [OF a])+
qed

lemma call_sends:
  assumes lib: "msgpuck_lib mp" and gen: "gen (ids w) = (i, s)"
    and args: "writable (WTuple args)"
    and acc: "accepts (mpw w) (length (request_header_bytes mp R_CALL i
                 @ call_body mp B_FUNCTION_NAME name args)) (depth (WTuple args))"
  shows "sends (call mp gen name args) w
           (request_header_bytes mp R_CALL i @ call_body mp B_FUNCTION_NAME name args) s"
  using request_sends_all [of mp gen w i s, OF lib gen acc composes_args [OF lib args]]
  unfolding call_def begin_call_def by (simp only: andthen_assoc on_mp_andthen)

lemma eval_sends:
  assumes lib: "msgpuck_lib mp" and gen: "gen (ids w) = (i, s)"
    and args: "writable (WTuple args)"
    and acc: "accepts (mpw w) (length (request_header_bytes mp R_EVAL i
                 @ call_body mp B_EXPRESSION script args)) (depth (WTuple args))"
  shows "sends (eval_request mp gen script args) w
           (request_header_bytes mp R_EVAL i @ call_body mp B_EXPRESSION script args) s"
  using request_sends_all [of mp gen w i s, OF lib gen acc composes_args [OF lib args]]
  unfolding eval_request_def begin_eval_def by (simp only: andthen_assoc on_mp_andthen)

end
