(* ===== verification/Writer_Theorems.thy ===== *)
theory Writer_Theorems
  imports Iproto_Laws Msgpack_Ref
begin

text \<open>
  The correctness of the composing side: buffers, MessagePack values, containers whose
  cardinality is corrected, undoing of writes, and the protocol's requests byte for byte.
\<close>

section \<open>Values on the wire\<close>

text \<open>What an overload denotes; a map is its keys and values in turn.\<close>

fun denote :: "wval \<Rightarrow> mpv" where
  "denote WNull = MNil"
| "denote (WBool b) = MBool b"
| "denote (WInt i) = (if 0 \<le> i then MUint (nat i) else MInt i)"
| "denote (WFloat f) = MFloat f"
| "denote (WDouble d) = MDouble d"
| "denote (WStrict16 v) = MUint (unat v)"
| "denote (WStrict32 v) = MUint (unat v)"
| "denote (WStrict64 v) = MUint (unat v)"
| "denote (WStr None) = MNil"
| "denote (WStr (Some s)) = MStr s"
| "denote (WRaw bs n) = MNil"
| "denote (WOptional None) = MNil"
| "denote (WOptional (Some v)) = denote v"
| "denote (WVector vs) = MArray (map denote vs)"
| "denote (WTuple vs) = MArray (map denote vs)"
| "denote (WMap kvs) = MMap (concat (map (\<lambda>kv. [denote (fst kv), denote (snd kv)]) kvs))"

fun raw_free :: "wval \<Rightarrow> bool" where
  "raw_free (WRaw bs n) = False"
| "raw_free (WOptional (Some v)) = raw_free v"
| "raw_free (WVector vs) = (\<forall>v \<in> set vs. raw_free v)"
| "raw_free (WTuple vs) = (\<forall>v \<in> set vs. raw_free v)"
| "raw_free (WMap kvs) = (\<forall>kv \<in> set kvs. raw_free (fst kv) \<and> raw_free (snd kv))"
| "raw_free v = True"

lemma wires_map: "(\<And>v. v \<in> set vs \<Longrightarrow> wire (f v) (e v)) \<Longrightarrow> wires (map f vs) (concat (map e vs))"
  by (induction vs) (auto intro: wires_cons)

lemma wires_pairs:
  "(\<And>kv. kv \<in> set kvs \<Longrightarrow> wire (f (fst kv)) (e (fst kv)) \<and> wire (f (snd kv)) (e (snd kv))) \<Longrightarrow>
     wires (concat (map (\<lambda>kv. [f (fst kv), f (snd kv)]) kvs))
       (concat (map (\<lambda>kv. e (fst kv) @ e (snd kv)) kvs))"
  by (induction kvs) (auto intro!: wires_cons)

lemma length_pairs: "length (concat (map (\<lambda>kv. [f kv, g kv]) kvs)) = 2 * length kvs"
  by (induction kvs) auto

lemma strict_hdr: "hdr_uint (unat v16) (0xcd # to_be 2 (unat v16))"
    "hdr_uint (unat v32) (0xce # to_be 4 (unat v32))" "hdr_uint (unat v64) (0xcf # to_be 8 (unat v64))"
  for v16 :: u16 and v32 :: u32 and v64 :: u64
proof -
  have "unat v16 < 2 ^ LENGTH(16)" "unat v32 < 2 ^ LENGTH(32)" "unat v64 < 2 ^ LENGTH(64)"
    by (rule unsigned_less)+
  then show "hdr_uint (unat v16) (0xcd # to_be 2 (unat v16))"
    "hdr_uint (unat v32) (0xce # to_be 4 (unat v32))" "hdr_uint (unat v64) (0xcf # to_be 8 (unat v64))"
    by (simp_all add: hdr_uint_def)
qed

context msgpuck_lib
begin

lemmas array_exceeded = arr.adjust_exceeded

lemma wire_enc_int:
  assumes "- (2 ^ 63) \<le> i" and "i < 2 ^ 64"
  shows "wire (denote (WInt i)) (enc_val mp (WInt i))"
proof (cases "0 \<le> i")
  case True
  with assms have "unat (of_int i :: u64) = nat i"
    by (simp add: unsigned_of_int take_bit_int_eq_self)
  with True show ?thesis
    using wire_encode_uint [of "of_int i"] by simp
next
  case False
  with assms have "sint (of_int i :: u64) = i"
    by (simp add: signed_of_int signed_take_bit_int_eq_self)
  with False show ?thesis
    using wire_encode_int [of "of_int i"] by simp
qed

lemma hdr_of_length:
  "n < 2 ^ 32 \<Longrightarrow> hdr_array n (mp_encode_array mp (of_nat n))"
  "n < 2 ^ 32 \<Longrightarrow> hdr_map n (mp_encode_map mp (of_nat n))"
  using hdr_encode_array [of "of_nat n"] hdr_encode_map [of "of_nat n"]
  by (simp_all add: unat_of_nat take_bit_nat_eq_self)

lemma wire_enc_val: "writable v \<Longrightarrow> raw_free v \<Longrightarrow> wire (denote v) (enc_val mp v)"
proof (induction v)
  case (WInt i)
  then show ?case by (intro wire_enc_int) auto
next
  case (WStr s)
  then show ?case
    by (cases s) (auto simp: enc_nil wire_nil wire_encode_str)
next
  case (WOptional u)
  then show ?case by (cases u) (auto simp: enc_nil wire_nil)
next
  case (WVector vs)
  then show ?case
    by (auto intro!: wire_array wires_map hdr_of_length)
next
  case (WTuple vs)
  then show ?case
    by (auto intro!: wire_array wires_map hdr_of_length)
next
  case (WMap kvs)
  have "wire (denote (fst kv)) (enc_val mp (fst kv)) \<and> wire (denote (snd kv)) (enc_val mp (snd kv))"
    if "kv \<in> set kvs" for kv
  proof -
    from WMap.prems that have "writable (fst kv) \<and> raw_free (fst kv)" "writable (snd kv) \<and> raw_free (snd kv)"
      by auto
    with WMap.IH [OF that] show ?thesis by (auto simp: prod_set_defs)
  qed
  with WMap.prems show ?case
    by (auto intro!: wire_map wires_pairs hdr_of_length simp: length_pairs)
qed (auto simp: encoders wire_nil wire_bool wire_float wire_double strict_hdr
    intro: wire_uint simp del: to_be.simps)

end


text \<open>
  Writing a value that is in range appends exactly its encoding to the buffer, counts one
  item in the innermost open container and leaves the writer well-formed, whatever was written
  and opened before.
\<close>
theorem write_val_appends:
  assumes "msgpuck_lib mp" and "wf_writer w" and "writable v"
    and "length (enc_val mp v) \<le> room w" and "depth v \<le> stk_free (opened w)"
  shows "\<exists>w'. write_val mp v w = (Inr (), w') \<and> written w' = written w @ enc_val mp v
     \<and> open_containers w' = bump 1 (open_containers w) \<and> wf_writer w'
     \<and> room w' = room w - length (enc_val mp v)"
proof -
  from msgpuck_lib.emits_write_val [OF assms(1,3) order_refl] assms(2,4,5) obtain w' where
    w': "write_val mp v w = (Inr (), w')" "wrote w (enc_val mp v) 1 w'" by (auto elim: emitsE)
  with wrote_written [OF assms(2,4) w'(2)] wrote_room [OF assms(2,4) w'(2)] show ?thesis
    by (auto simp: wrote_def)
qed

definition demo_value :: wval where
  "demo_value = WMap [(WStr (Some [0x61]), WVector [WInt 1, WInt (- 2)])]"

theorem write_val_appends_witness:
  "\<exists>w'. write_val ref_mp demo_value (mp_writer (buf_of_size 64)) = (Inr (), w')
     \<and> written w' = written (mp_writer (buf_of_size 64)) @ enc_val ref_mp demo_value
     \<and> open_containers w' = bump 1 (open_containers (mp_writer (buf_of_size 64))) \<and> wf_writer w'
     \<and> room w' = room (mp_writer (buf_of_size 64)) - length (enc_val ref_mp demo_value)"
  by (rule write_val_appends [OF ref.msgpuck_lib_axioms])
     (simp_all add: demo_value_def wf_writer_def mp_writer_def room_def
       ref_bytes)

text \<open>
  What the writer's encoding puts on the wire is well-formed MessagePack that denotes the
  written value: numbers, strings, arrays and maps nested to any depth.
\<close>
theorem enc_val_denotes:
  assumes "msgpuck_lib mp" and "writable v" and "raw_free v"
  shows "wire (denote v) (enc_val mp v)"
  using msgpuck_lib.wire_enc_val [OF assms] .

theorem enc_val_denotes_witness: "wire (denote demo_value) (enc_val ref_mp demo_value)"
  by (rule enc_val_denotes [OF ref.msgpuck_lib_axioms]) (simp_all add: demo_value_def)

section \<open>Containers of another cardinality\<close>

text \<open>
  C26: Closing an array whose header announced another number of items rewrites the header in
  place: it keeps its length, denotes the counted number, and no other byte of the buffer
  changes, provided the count needs no longer header than the announced one.
\<close>
theorem finalize_corrects_array:
  assumes "msgpuck_lib mp" and "wf_writer w" and "open_containers w = c # cs"
    and "written w = pre @ mp_encode_array mp (max_cardinality c) @ body" and "head_offset c = length pre"
    and "length (mp_encode_array mp (items_count c)) \<le> length (mp_encode_array mp (max_cardinality c))"
  shows "\<exists>w' h. finalize mp w = (Inr (), w') \<and> written w' = pre @ h @ body
     \<and> hdr_array (unat (items_count c)) h
     \<and> length h = length (mp_encode_array mp (max_cardinality c)) \<and> open_containers w' = cs \<and> wf_writer w'"
  using msgpuck_lib.finalize_array [OF assms] by metis

text \<open>An array announced with 20 items that got one: \<open>0xdc\<close>, 20, then the item 7.\<close>

definition demo_array :: mp_writer where
  "demo_array = \<lparr>buf = \<lparr>target = VecOwn 8, mem = [0xdc, 0, 20, 7, 0, 0, 0, 0], endp = 4\<rparr>,
     opened = \<lparr>slots = [\<lparr>head_offset = 0, max_cardinality = 20, items_count = 1\<rparr>], ssize = 1\<rparr>\<rparr>"

lemma demo_array_state:
  "wf_writer demo_array" "open_containers demo_array = [\<lparr>head_offset = 0, max_cardinality = 20, items_count = 1\<rparr>]"
  "written demo_array = [] @ mp_encode_array ref_mp (max_cardinality \<lparr>head_offset = 0, max_cardinality = 20, items_count = 1\<rparr>) @ [7]" "length (mp_encode_array ref_mp 1) \<le> length (mp_encode_array ref_mp 20)"
  by (simp_all add: demo_array_def wf_writer_def wf_buf_def target_ok_def capacity_def wf_stack_def
      open_containers_def stk_list_def written_def content_def ref_bytes)

theorem finalize_corrects_array_witness:
  "\<exists>w' h. finalize ref_mp demo_array = (Inr (), w') \<and> written w' = [] @ h @ [7] \<and> hdr_array 1 h
     \<and> length h = length (mp_encode_array ref_mp 20) \<and> open_containers w' = [] \<and> wf_writer w'"
  using finalize_corrects_array [OF ref.msgpuck_lib_axioms demo_array_state(1,2,3)] demo_array_state(4)
  by simp

text \<open>
  Closing a map counts keys and values together: an even count is halved into the header,
  which keeps its length, and no other byte of the buffer changes.
\<close>
theorem finalize_corrects_map:
  assumes "msgpuck_lib mp" and "wf_writer w" and "open_containers w = c # cs"
    and "written w = pre @ mp_encode_map mp (max_cardinality c) @ body" and "head_offset c = length pre"
    and "even (unat (items_count c))"
    and "length (mp_encode_map mp (items_count c div 2)) \<le> length (mp_encode_map mp (max_cardinality c))"
  shows "\<exists>w' h. finalize mp w = (Inr (), w') \<and> written w' = pre @ h @ body
     \<and> hdr_map (unat (items_count c) div 2) h
     \<and> length h = length (mp_encode_map mp (max_cardinality c)) \<and> open_containers w' = cs \<and> wf_writer w'"
  using msgpuck_lib.finalize_map [OF assms] by metis

definition demo_map :: mp_writer where
  "demo_map = \<lparr>buf = \<lparr>target = VecOwn 8, mem = [0x83, 1, 2, 0, 0, 0, 0, 0], endp = 3\<rparr>,
     opened = \<lparr>slots = [\<lparr>head_offset = 0, max_cardinality = 3, items_count = 2\<rparr>], ssize = 1\<rparr>\<rparr>"

lemma demo_map_state:
  "wf_writer demo_map" "open_containers demo_map = [\<lparr>head_offset = 0, max_cardinality = 3, items_count = 2\<rparr>]"
  "written demo_map = [] @ mp_encode_map ref_mp (max_cardinality \<lparr>head_offset = 0, max_cardinality = 3, items_count = 2\<rparr>) @ [1, 2]" "length (mp_encode_map ref_mp 1) \<le> length (mp_encode_map ref_mp 3)"
  by (simp_all add: demo_map_def wf_writer_def wf_buf_def target_ok_def capacity_def wf_stack_def
      open_containers_def stk_list_def written_def content_def ref_bytes)

theorem finalize_corrects_map_witness:
  "\<exists>w' h. finalize ref_mp demo_map = (Inr (), w') \<and> written w' = [] @ h @ [1, 2] \<and> hdr_map 1 h
     \<and> length h = length (mp_encode_map ref_mp 3) \<and> open_containers w' = [] \<and> wf_writer w'"
  using finalize_corrects_map [OF ref.msgpuck_lib_axioms demo_map_state(1,2,3)] demo_map_state(4)
  by simp

text \<open>The header byte of the container to be closed.\<close>

lemma finalize_head:
  assumes "wf_writer w" and "open_containers w = c # cs" and "written w = pre @ h @ body"
    and "head_offset c = length pre" and "h \<noteq> []"
  obtains s where "pop (opened w) = (c, s)" and "\<not> is_empty (opened w)" and "stk_list s = cs"
    and "deref (mem (buf w)) (head_offset c) = Inr (hd h)"
proof -
  from assms(1,2) obtain s where "pop (opened w) = (c, s)" "stk_list s = cs" "\<not> is_empty (opened w)"
    by (rule pop_container)
  moreover have "deref (mem (buf w)) (head_offset c) = Inr (hd h)"
    using deref_content [of "buf w" pre h body] assms by (simp add: wf_writer_def written_def)
  ultimately show thesis using that by blast
qed

text \<open>
  Closing an array with more items than a header of the announced length can hold is an
  overflow error that leaves every byte of the buffer as it is.
\<close>
theorem finalize_refuses_array:
  assumes "msgpuck_lib mp" and "wf_writer w" and "open_containers w = c # cs"
    and "written w = pre @ mp_encode_array mp (max_cardinality c) @ body" and "head_offset c = length pre"
    and "length (mp_encode_array mp (max_cardinality c)) < length (mp_encode_array mp (items_count c))"
  shows "\<exists>w'. finalize mp w = (Inl (OverflowError ''array header size exceeded''), w') \<and> buf w' = buf w
        \<and> open_containers w' = cs"
proof -
  note hd = msgpuck_lib.hdr_encode_array [OF assms(1)]
  from finalize_head [OF assms(2-5) hdr_nonempty(1) [OF hd]] obtain s where
    "pop (opened w) = (c, s)" "\<not> is_empty (opened w)" "stk_list s = cs"
    "deref (mem (buf w)) (head_offset c) = Inr (hd (mp_encode_array mp (max_cardinality c)))" .
  with msgpuck_lib.array_exceeded [OF assms(1,6)] msgpuck_lib.typeof_array_hdr [OF assms(1) hd]
  show ?thesis by (auto simp: finalize_def open_containers_def)
qed

definition demo_overfull :: mp_writer where
  "demo_overfull = \<lparr>buf = \<lparr>target = VecOwn 4, mem = [0x90, 0, 0, 0], endp = 1\<rparr>,
     opened = \<lparr>slots = [\<lparr>head_offset = 0, max_cardinality = 0, items_count = 16\<rparr>], ssize = 1\<rparr>\<rparr>"

lemma demo_overfull_state:
  "wf_writer demo_overfull" "open_containers demo_overfull = [\<lparr>head_offset = 0, max_cardinality = 0, items_count = 16\<rparr>]"
  "written demo_overfull = [] @ mp_encode_array ref_mp (max_cardinality \<lparr>head_offset = 0, max_cardinality = 0, items_count = 16\<rparr>) @ []" "length (mp_encode_array ref_mp 0) < length (mp_encode_array ref_mp 16)"
  by (simp_all add: demo_overfull_def wf_writer_def wf_buf_def target_ok_def capacity_def wf_stack_def
      open_containers_def stk_list_def written_def content_def ref_bytes)

theorem finalize_refuses_array_witness:
  "\<exists>w'. finalize ref_mp demo_overfull = (Inl (OverflowError ''array header size exceeded''), w')
      \<and> buf w' = buf demo_overfull \<and> open_containers w' = []"
  using finalize_refuses_array [OF ref.msgpuck_lib_axioms demo_overfull_state(1,2,3)] demo_overfull_state(4)
  by simp

text \<open>
  A map closed with an odd number of keys and values is a runtime error that leaves every
  byte of the buffer as it is.
\<close>
theorem finalize_refuses_odd_map:
  assumes "msgpuck_lib mp" and "wf_writer w" and "open_containers w = c # cs"
    and "written w = pre @ mp_encode_map mp (max_cardinality c) @ body" and "head_offset c = length pre"
    and "odd (unat (items_count c))"
  shows "\<exists>w'. finalize mp w = (Inl (RuntimeError ''odd number of map items''), w') \<and> buf w' = buf w
        \<and> open_containers w' = cs"
proof -
  note hd = msgpuck_lib.hdr_encode_map [OF assms(1)]
  from finalize_head [OF assms(2-5) hdr_nonempty(2) [OF hd]] obtain s where
    "pop (opened w) = (c, s)" "\<not> is_empty (opened w)" "stk_list s = cs"
    "deref (mem (buf w)) (head_offset c) = Inr (hd (mp_encode_map mp (max_cardinality c)))" .
  with assms(6) msgpuck_lib.typeof_map_hdr [OF assms(1) hd]
  show ?thesis by (auto simp: finalize_def open_containers_def)
qed

definition demo_odd :: mp_writer where
  "demo_odd = \<lparr>buf = \<lparr>target = VecOwn 4, mem = [0x81, 1, 0, 0], endp = 2\<rparr>,
     opened = \<lparr>slots = [\<lparr>head_offset = 0, max_cardinality = 1, items_count = 1\<rparr>], ssize = 1\<rparr>\<rparr>"

lemma demo_odd_state:
  "wf_writer demo_odd" "open_containers demo_odd = [\<lparr>head_offset = 0, max_cardinality = 1, items_count = 1\<rparr>]"
  "written demo_odd = [] @ mp_encode_map ref_mp (max_cardinality \<lparr>head_offset = 0, max_cardinality = 1, items_count = 1\<rparr>) @ [1]" "odd (unat (1 :: u32))"
  by (simp_all add: demo_odd_def wf_writer_def wf_buf_def target_ok_def capacity_def wf_stack_def
      open_containers_def stk_list_def written_def content_def ref_bytes)

theorem finalize_refuses_odd_map_witness:
  "\<exists>w'. finalize ref_mp demo_odd = (Inl (RuntimeError ''odd number of map items''), w')
      \<and> buf w' = buf demo_odd \<and> open_containers w' = []"
  using finalize_refuses_odd_map [OF ref.msgpuck_lib_axioms demo_odd_state(1,2,3)] demo_odd_state(4)
  by simp

section \<open>Undoing writes\<close>

text \<open>
  Restoring a saved state takes back everything written since: the content and the stack
  of open containers are those of the moment the state was taken.
\<close>
theorem set_state_undoes:
  assumes "msgpuck_lib mp" and "wf_writer w" and "writable v"
    and "length (enc_val mp v) \<le> room w" and "depth v \<le> stk_free (opened w)"
  shows "\<exists>w' w''. write_val mp v w = (Inr (), w') \<and> set_state (get_state w) w' = (Inr (), w'')
     \<and> written w'' = written w \<and> opened w'' = opened w \<and> wf_writer w''"
proof -
  from msgpuck_lib.emits_write_val [OF assms(1,3) order_refl] assms(2,4,5) obtain w' where
    w': "write_val mp v w = (Inr (), w')" "wrote w (enc_val mp v) 1 w'" by (auto elim: emitsE)
  have fits: "endp (buf w) + length (enc_val mp v) \<le> capacity (buf w)"
    using assms(2,4) by (rule wf_writer_room)
  let ?w = "w'\<lparr>buf := (buf w')\<lparr>endp := endp (buf w)\<rparr>, opened := opened w\<rparr>"
  have b: "buf w' = append_bytes (enc_val mp v) (buf w)" using w'(2) by (simp add: wrote_def)
  have "set_state (get_state w) w' = (Inr (), ?w)"
    using fits by (simp add: set_state_def get_state_def buf_size_def b)
  moreover have "written ?w = written w"
    using fits by (simp add: written_def content_def b append_bytes_def take_overwrite_before capacity_def)
  moreover have "wf_writer ?w"
    using assms(2) w'(2) fits by (auto simp: wf_writer_def wrote_def intro: wf_shrink)
  ultimately show ?thesis using w'(1) by auto
qed

theorem set_state_undoes_witness:
  "\<exists>w' w''. write_val ref_mp demo_value (mp_writer (buf_of_size 64)) = (Inr (), w')
     \<and> set_state (get_state (mp_writer (buf_of_size 64))) w' = (Inr (), w'')
     \<and> written w'' = written (mp_writer (buf_of_size 64))
     \<and> opened w'' = opened (mp_writer (buf_of_size 64)) \<and> wf_writer w''"
  by (rule set_state_undoes [OF ref.msgpuck_lib_axioms])
     (simp_all add: demo_value_def wf_writer_def mp_writer_def room_def ref_bytes)

section \<open>Filling containers\<close>

lemma top_container: "wf_writer w \<Longrightarrow> open_containers w = c # cs \<Longrightarrow> top (opened w) = c"
  by (erule (1) pop_container) (auto simp: pop_def top_def top_index_def is_empty_def split: if_splits)

lemma emits_fill_loop:
  assumes "0 < k" and "wf_writer w" and "open_containers w = c # cs"
    and "length bs * n \<le> room w" and "unat (items_count c) + k * n \<le> unat goal"
    and "unat goal < unat (items_count c) + k * (n + 1)" and "n \<le> fuel"
  shows "\<exists>w'. fill_loop mp bs k goal fuel w = (Inr (), w') \<and> written w' = written w @ concat (replicate n bs)
     \<and> open_containers w' = c\<lparr>items_count := items_count c + of_nat (k * n)\<rparr> # cs \<and> wf_writer w'"
  using assms
proof (induction n arbitrary: w c fuel)
  case 0
  then have top: "top (opened w) = c"
    by (intro top_container)
  have "\<not> unat (items_count c) + k \<le> unat goal"
    using "0.prems"(6) by simp
  with top have "fill_loop mp bs k goal fuel w = (Inr (), w)"
    by (subst fill_loop.simps) (simp only: Let_def simp_thms if_False)
  with "0.prems"(2,3) show ?case by simp
next
  case (Suc n)
  then obtain f where f: "fuel = Suc f" by (cases fuel) auto
  have top: "top (opened w) = c"
    using Suc.prems(2,3) by (intro top_container)
  from Suc.prems(4) have r: "length bs \<le> room w" by simp
  with emits_write_mp [of k mp bs 0] Suc.prems(1,2) obtain w1 where
    w1: "write_mp mp bs k w = (Inr (), w1)" "wrote w bs k w1" by (auto elim: emitsE)
  let ?c = "c\<lparr>items_count := items_count c + of_nat k\<rparr>"
  have "unat goal < 2 ^ LENGTH(32)" by (rule unsigned_less)
  with Suc.prems(5) have small: "unat (items_count c) + k < 2 ^ 32" by simp
  then have u: "unat (items_count ?c) = unat (items_count c) + k"
    by (simp add: unat_word_ariths(1) unat_of_nat take_bit_nat_eq_self)
  have o1: "open_containers w1 = ?c # cs" "wf_writer w1"
    using w1(2) Suc.prems(3) by (auto simp: wrote_def)
  have "\<exists>w'. fill_loop mp bs k goal f w1 = (Inr (), w') \<and> written w' = written w1 @ concat (replicate n bs)
     \<and> open_containers w' = ?c\<lparr>items_count := items_count ?c + of_nat (k * n)\<rparr> # cs \<and> wf_writer w'"
  proof (rule Suc.IH)
    show "length bs * n \<le> room w1"
      using Suc.prems(4) wrote_room [OF Suc.prems(2) r w1(2)] by simp
    show "unat (items_count ?c) + k * n \<le> unat goal"
      unfolding u using Suc.prems(5) by simp
    show "unat goal < unat (items_count ?c) + k * (n + 1)"
      unfolding u using Suc.prems(6) by simp
  qed (use Suc.prems(1,7) o1 f in simp_all)
  moreover have "items_count c < goal \<and> unat (items_count c) + k \<le> unat goal"
    using Suc.prems(1,5) by (simp add: word_less_nat_alt)
  then have "fill_loop mp bs k goal fuel w = fill_loop mp bs k goal f w1"
    using top f w1(1) by (subst fill_loop.simps) (simp only: Let_def simp_thms if_True nat.case andthen_Inr)
  moreover have "?c\<lparr>items_count := items_count ?c + of_nat (k * n)\<rparr>
      = c\<lparr>items_count := items_count c + of_nat (k * Suc n)\<rparr>"
    by (simp add: algebra_simps)
  ultimately show ?case
    using wrote_written [OF Suc.prems(2) r w1(2)] by auto
qed

text \<open>
  Filling the innermost container with a raw view of \<open>k\<close> items appends the view as many
  times as the goal allows: \<open>(goal - count) div k\<close> copies, after which the count is short of the
  goal by less than \<open>k\<close>.
\<close>
theorem fill_repeats:
  assumes "wf_writer w" and "open_containers w = c # cs" and "0 < k"
    and "unat (items_count c) \<le> unat goal" and "n = (unat goal - unat (items_count c)) div k"
    and "length bs * n \<le> room w"
  shows "\<exists>w'. fill mp bs k goal w = (Inr (), w') \<and> written w' = written w @ concat (replicate n bs)
     \<and> open_containers w' = c\<lparr>items_count := items_count c + of_nat (k * n)\<rparr> # cs \<and> wf_writer w'"
proof -
  let ?d = "unat goal - unat (items_count c)"
  have "k * n \<le> ?d" "?d < k * (n + 1)"
    using assms(3,5) dividend_less_times_div [of k ?d] by simp_all
  moreover have "n \<le> unat goal"
    using assms(5) by (meson diff_le_self div_le_dividend le_trans)
  moreover have "\<not> is_empty (opened w)"
    using pop_container [OF assms(1,2)] by blast
  ultimately show ?thesis
    using emits_fill_loop [OF assms(3,1,2,6), of goal "unat goal" mp] assms(4) by (simp add: fill_def)
qed

theorem fill_repeats_witness:
  "\<exists>w'. fill ref_mp [1, 2] 2 6 demo_map = (Inr (), w') \<and> written w' = written demo_map @ [1, 2, 1, 2]
     \<and> open_containers w' = [\<lparr>head_offset = 0, max_cardinality = 3, items_count = 6\<rparr>] \<and> wf_writer w'"
proof -
  have "room demo_map = 5" by (simp add: room_def demo_map_def capacity_def)
  moreover have "concat (replicate 2 [1, 2]) = ([1, 2, 1, 2] :: bytes)"
    by code_simp
  ultimately show ?thesis
    using fill_repeats [OF demo_map_state(1,2), of 2 6 2 "[1, 2]" ref_mp] by simp
qed

section \<open>Growing buffers\<close>

text \<open>
  \<open>resize\<close> of a buffer that can grow never fails: the buffer gets the asked size, its capacity
  never shrinks, and the bytes both sizes have in common stay, also when the block moves.
\<close>
theorem resize_keeps_content:
  assumes "wf_buf b" and "growable b"
  shows "\<exists>c. resize n b = (Inr (), c) \<and> wf_buf c \<and> growable c \<and> buf_size c = n
     \<and> capacity c = max n (capacity b) \<and> take (min n (buf_size b)) (content c) = take n (content b)"
proof -
  from resize_ok [OF assms, of n] obtain c where c: "resize n b = (Inr (), c)" "wf_buf c" "growable c"
    "capacity c = max n (capacity b)" "endp c = n"
    "take (min n (endp b)) (mem c) = take (min n (endp b)) (mem b)" .
  then have "take (min n (endp b)) (content c) = take n (content b)"
    by (simp add: content_def min.commute)
  with c show ?thesis by (auto simp: buf_size_def)
qed

theorem resize_keeps_content_witness:
  "\<exists>c. resize 9 (append_bytes [1, 2] (buf_of_size 4)) = (Inr (), c) \<and> wf_buf c \<and> growable c
     \<and> buf_size c = 9 \<and> capacity c = max 9 (capacity (append_bytes [1, 2] (buf_of_size 4)))
     \<and> take (min 9 (buf_size (append_bytes [1, 2] (buf_of_size 4)))) (content c)
         = take 9 (content (append_bytes [1, 2] (buf_of_size 4)))"
  by (rule resize_keeps_content) simp_all

text \<open>
  A buffer over a raw block without a reallocation function never grows: asking for more
  than its capacity is a runtime error and leaves the buffer as it is.
\<close>
theorem raw_buffer_refuses:
  assumes "target b = RawTarget None" and "capacity b < n"
  shows "reserve n b = (Inl (RuntimeError ''unable to resize raw buffer''), b)
     \<and> resize n b = (Inl (RuntimeError ''unable to resize raw buffer''), b)"
  using assms by (simp add: reserve_def resize_def andthen_def seq_def)

theorem raw_buffer_refuses_witness:
  "reserve 4 \<lparr>target = RawTarget None, mem = [1, 2], endp = 1\<rparr>
     = (Inl (RuntimeError ''unable to resize raw buffer''), \<lparr>target = RawTarget None, mem = [1, 2], endp = 1\<rparr>)
   \<and> resize 4 \<lparr>target = RawTarget None, mem = [1, 2], endp = 1\<rparr>
     = (Inl (RuntimeError ''unable to resize raw buffer''), \<lparr>target = RawTarget None, mem = [1, 2], endp = 1\<rparr>)"
  by (rule raw_buffer_refuses) (simp_all add: capacity_def)



section \<open>Requests byte for byte\<close>

text \<open>
  A ping on an idle writer never fails and leaves one frame in the buffer behind what was
  there: the five-byte length, the header with the request's code and number, an empty body.
\<close>
theorem ping_bytes:
  assumes "msgpuck_lib mp" and "gen (ids w) = (i, s)"
    and "accepts (mpw w) (length (request_header_bytes mp R_PING i @ mp_encode_map mp 0)) 0"
  shows "sends (encode_ping_request mp gen) w (request_header_bytes mp R_PING i @ mp_encode_map mp 0) s"
  by (rule ping_sends [of mp gen w i s, OF assms])

definition demo_writer :: "u64 iproto_writer" where
  "demo_writer = \<lparr>mpw = mp_writer (buf_of_size 2048), ids = 7\<rparr>"

definition next_id :: "u64 \<Rightarrow> u64 \<times> u64" where
  "next_id i = (i, i + 1)"

lemma demo_writer_idle: "idle (mpw demo_writer)" "stk_free (opened (mpw demo_writer)) = 16"
  "room (mpw demo_writer) = 2048" "ids demo_writer = 7"
  by (simp_all add: demo_writer_def idle_def mp_writer_def wf_writer_def room_def open_containers_def)

theorem ping_bytes_witness:
  "sends (encode_ping_request ref_mp next_id) demo_writer
     (request_header_bytes ref_mp R_PING 7 @ mp_encode_map ref_mp 0) 8"
  by (rule ping_bytes [OF ref.msgpuck_lib_axioms])
     (simp_all add: demo_writer_idle next_id_def accepts_def request_header_bytes_def ref_bytes)

text \<open>
  The \<open>IPROTO_ID\<close> request announces the version when it is not 0, the features in ascending
  order and the authentication method when one is set, and its map says how many of them follow.
\<close>
theorem id_bytes:
  assumes "msgpuck_lib mp" and "gen (ids w) = (i, s)"
    and "accepts (mpw w) (length (request_header_bytes mp R_PROTO_ID i @ id_body mp p)) 0"
  shows "sends (encode_id_request mp gen p) w (request_header_bytes mp R_PROTO_ID i @ id_body mp p) s"
  by (rule id_sends [of mp gen w i s, OF assms])

theorem id_bytes_witness:
  "sends (encode_id_request ref_mp next_id (proto_id [ERROR_EXTENSION] 0 [0x61])) demo_writer
     (request_header_bytes ref_mp R_PROTO_ID 7 @ id_body ref_mp (proto_id [ERROR_EXTENSION] 0 [0x61])) 8"
proof -
  have "list_features (proto_id [ERROR_EXTENSION] 0 [0x61]) = [2]"
    by (simp add: list_features_eq proto_id_def set_feature_def upt_rec bit_simps)
  then show ?thesis
    by (intro id_bytes [OF ref.msgpuck_lib_axioms])
       (simp_all add: demo_writer_idle next_id_def accepts_def request_header_bytes_def id_body_def
          proto_id_def ref_bytes)
qed

text \<open>
  A call of a stored function with any arguments in range leaves exactly one frame in the
  buffer: the length, the header, the name and the array of the encoded arguments; the writer
  is idle again.
\<close>
theorem call_bytes:
  assumes "msgpuck_lib mp" and "gen (ids w) = (i, s)" and "writable (WTuple args)"
    and "accepts (mpw w) (length (request_header_bytes mp R_CALL i
           @ call_body mp B_FUNCTION_NAME name args)) (depth (WTuple args))"
  shows "\<exists>w'. call mp gen name args w = (Inr (), w')
     \<and> written (mpw w') = written (mpw w)
          @ frame (request_header_bytes mp R_CALL i @ call_body mp B_FUNCTION_NAME name args)
     \<and> ids w' = s \<and> open_containers (mpw w') = [] \<and> wf_writer (mpw w')"
  using call_sends [of mp gen w i s, OF assms] by (auto simp: sends_def sent_def)

theorem call_bytes_witness:
  "\<exists>w'. call ref_mp next_id [0x66] [WInt 1, WVector [WNull]] demo_writer = (Inr (), w')
     \<and> written (mpw w') = written (mpw demo_writer) @ frame (request_header_bytes ref_mp R_CALL 7
          @ call_body ref_mp B_FUNCTION_NAME [0x66] [WInt 1, WVector [WNull]])
     \<and> ids w' = 8 \<and> open_containers (mpw w') = [] \<and> wf_writer (mpw w')"
  by (rule call_bytes [OF ref.msgpuck_lib_axioms])
     (simp_all add: demo_writer_idle next_id_def accepts_def request_header_bytes_def call_body_def ref_bytes)

text \<open>
  An eval request leaves exactly one frame in the buffer: the length, the header, the script
  and the array of the encoded arguments.
\<close>
theorem eval_bytes:
  assumes "msgpuck_lib mp" and "gen (ids w) = (i, s)" and "writable (WTuple args)"
    and "accepts (mpw w) (length (request_header_bytes mp R_EVAL i
           @ call_body mp B_EXPRESSION script args)) (depth (WTuple args))"
  shows "sends (eval_request mp gen script args) w
           (request_header_bytes mp R_EVAL i @ call_body mp B_EXPRESSION script args) s"
  by (rule eval_sends [of mp gen w i s, OF assms])

theorem eval_bytes_witness:
  "sends (eval_request ref_mp next_id [0x66] [WBool True]) demo_writer
     (request_header_bytes ref_mp R_EVAL 7 @ call_body ref_mp B_EXPRESSION [0x66] [WBool True]) 8"
  by (rule eval_bytes [OF ref.msgpuck_lib_axioms])
     (simp_all add: demo_writer_idle next_id_def accepts_def request_header_bytes_def call_body_def ref_bytes)

end
