(* ===== verification/Reader_Theorems.thy ===== *)
theory Reader_Theorems
  imports Reader_Laws Msgpack_Ref Writer_Theorems
begin

text \<open>
  The correctness of the reading side: typed values, look-ups by key and by index, the
  splitting of a stream into messages, validation; and the round trip with the writer.
\<close>

section \<open>Look-up by key\<close>

text \<open>Whether an integer key of a map is the one looked for.\<close>

fun key_is :: "int \<Rightarrow> mpv \<Rightarrow> bool" where
  "key_is key (MUint n) = (int n = key)"
| "key_is key (MInt i) = (i = key)"
| "key_is key _ = False"

context msgpuck_lib
begin

lemma equals_int_item:
  assumes i: "item_at mp r v vs e rest r'"
  shows "equals_int mp key r = Inr (key_is key v)"
proof (cases v)
  case (MUint n)
  with i have h: "hdr_uint n e" by (auto simp: item_at_def elim: wire.cases)
  then have "n < 2 ^ 64" by (auto simp: hdr_uint_def)
  then have "uint (of_nat n :: u64) = int n"
    by (simp add: unsigned_of_nat take_bit_nat_eq_self)
  with i MUint dec_uint [OF h] show ?thesis by (auto simp: item_at_def equals_int_def)
next
  case (MInt k)
  with i have h: "hdr_int k e" by (auto simp: item_at_def elim: wire.cases)
  then have "- (2 ^ 63) \<le> k \<and> k < 2 ^ 63" by (auto simp: hdr_int_def)
  then have "sint (of_int k :: u64) = k"
    by (simp add: signed_of_int signed_take_bit_int_eq_self)
  with i MInt dec_int [OF h] show ?thesis by (auto simp: item_at_def equals_int_def Let_def)
qed (use i in \<open>auto simp: item_at_def equals_int_def\<close>)

text \<open>The view of the value behind a key, as the two skips leave it.\<close>

lemma value_view:
  assumes i: "item_at mp r v vs e rest r'" and p: "pos r = Some p"
  shows "reads (mp_reader (mp_plain (vmem (view r)) (pos r) (pos r'))) [v]"
proof -
  have d: "drop p (vmem (view r)) = e @ rest" and q: "pos r' = Some (p + length e)"
    and w: "wire v e"
    using i p by (simp_all add: item_at_def at_pos_def)
  have "p \<le> length (vmem (view r))"
    using d wire_nonempty [OF w] by (cases "p \<le> length (vmem (view r))") auto
  moreover have "vmem (view r) = take p (vmem (view r)) @ e @ rest"
    using d by (metis append_take_drop_id)
  ultimately show ?thesis
    unfolding reads_def using p q w
    by (rule_tac exI [of _ "take p (vmem (view r))"], rule_tac exI [of _ e], rule_tac exI [of _ rest])
       (simp add: mp_reader_def mp_plain_def wires_single)
qed

lemma find_pair_spec:
  assumes "reads r us" and "length us = 2 * n"
  shows "case find (\<lambda>(k, _). key_is key k) (pair_up us) of
      None \<Rightarrow> \<exists>r'. find_pair mp (equals_int mp key) n r = (Inr no_view, r')
    | Some (k, v) \<Rightarrow> \<exists>res r'. find_pair mp (equals_int mp key) n r = (Inr res, r')
        \<and> reads (mp_reader res) [v] \<and> view_bool res"
  using assms
proof (induction us arbitrary: r n rule: pair_up.induct)
  case (1 k v us)
  from "1.prems"(2) obtain m where n: "n = Suc m" "length us = 2 * m" by (cases n) auto
  from "1.prems"(1) obtain e1 x1 r1 where i1: "item_at mp r k (v # us) e1 x1 r1" by (rule reads_item)
  then have "reads r1 (v # us)" by (simp add: item_at_def)
  then obtain e2 x2 r2 where i2: "item_at mp r1 v us e2 x2 r2" by (rule reads_item)
  then obtain p where p: "pos r1 = Some p" by (auto simp: item_at_def)
  have vw: "view r1 = view r" "view r2 = view r" "pos r2 = Some (p + length e2)" "e2 \<noteq> []"
    using i1 i2 p by (auto simp: item_at_def dest: wire_nonempty)
  show ?case
  proof (cases "key_is key k")
    case True
    let ?res = "mp_plain (vmem (view r)) (pos r1) (pos r2)"
    have "find_pair mp (equals_int mp key) n r = (Inr ?res, r2)"
      using True n i1 i2 equals_int_item [OF i1, of key] by (simp add: item_at_def)
    moreover have "reads (mp_reader ?res) [v]"
      using value_view [OF i2 p] vw(1) by simp
    moreover have "view_bool ?res"
      using vw p by (simp add: view_bool_def mp_plain_def)
    ultimately show ?thesis using True by auto
  next
    case False
    have eq: "find_pair mp (equals_int mp key) n r = find_pair mp (equals_int mp key) m r2"
      using False n i1 i2 equals_int_item [OF i1, of key] by (simp add: item_at_def)
    have "reads r2 us" using i2 by (simp add: item_at_def)
    from "1.IH" [OF this n(2)] False show ?thesis unfolding eq by simp
  qed
qed auto

lemma plain_reads:
  assumes "reads (mp_reader v) us" and "vend v \<noteq> None"
  shows "reads (mp_reader (mp_plain (vmem v) (vbegin v) (vend v))) us"
proof -
  from assms obtain pre e post where "vmem v = pre @ e @ post" "vbegin v = Some (length pre)"
    "wires us e" "vend v = Some (length pre + length e)"
    by (auto simp: reads_def mp_reader_def)
  then show ?thesis
    unfolding reads_def
    by (rule_tac exI [of _ pre], rule_tac exI [of _ e], rule_tac exI [of _ post])
       (simp add: mp_reader_def mp_plain_def)
qed

lemma map_at_spec:
  assumes i: "item_at mp r (MMap us) vs e rest r'" and n: "length us < 2 ^ 32"
  obtains m where "read_map mp r = (Inr m, r')"
    and "case find (\<lambda>(k, _). key_is key k) (pair_up us) of
        None \<Rightarrow> map_at mp (equals_int mp key) (view m) = Inl (ReaderError ''key not found'')
      | Some (k, v) \<Rightarrow> \<exists>res. map_at mp (equals_int mp key) (view m) = Inr res \<and> reads (mp_reader res) [v]"
proof -
  from i n obtain m where m: "read_map mp r = (Inr m, r')" "reads m us" "2 * card_of m = length us"
    by (rule map_item)
  from m(1) obtain v where v: "m = mp_reader v" "vend v \<noteq> None"
    using i by (auto simp: read_map_def item_at_def seq_def split: option.splits sum.splits)
  let ?r = "mp_reader (mp_plain (vmem v) (vbegin v) (vend v))"
  have vm: "view m = v" using v(1) by (simp add: mp_reader_def)
  have c: "(case cardinality (vkind v) of None \<Rightarrow> 0 | Some c \<Rightarrow> c) = card_of m"
    by (simp add: card_of_def vm)
  have "reads ?r us"
    using m(2) v by (auto intro: plain_reads)
  note spec = find_pair_spec [OF this m(3) [symmetric], of key]
  have "case find (\<lambda>(k, _). key_is key k) (pair_up us) of
        None \<Rightarrow> map_at mp (equals_int mp key) v = Inl (ReaderError ''key not found'')
      | Some (k, w) \<Rightarrow> \<exists>res. map_at mp (equals_int mp key) v = Inr res \<and> reads (mp_reader res) [w]"
  proof (cases "find (\<lambda>(k, _). key_is key k) (pair_up us)")
    case None
    with spec have "map_find mp (equals_int mp key) v = Inr no_view"
      by (auto simp: map_find_def c)
    with None show ?thesis
      by (simp add: map_at_def no_view_def view_bool_def mp_plain_def)
  next
    case (Some kw)
    with spec obtain res r2 where "find_pair mp (equals_int mp key) (card_of m) ?r = (Inr res, r2)"
        "reads (mp_reader res) [snd kw]" "view_bool res"
      by (cases kw) auto
    with Some show ?thesis
      by (cases kw) (simp add: map_at_def map_find_def c)
  qed
  from this [folded vm] show thesis by (rule that [OF m(1)])
qed

lemma check_items_wires:
  "wires vs e \<Longrightarrow> length e \<le> fuel \<Longrightarrow> check_items mp fuel e = Inr ()"
proof (induction vs arbitrary: e fuel)
  case Nil
  then show ?case by simp
next
  case (Cons v vs)
  then obtain e1 e2 where e: "e = e1 @ e2" "wire v e1" "wires vs e2" by (auto simp: wires_Cons_iff)
  from wire_nonempty [OF e(2)] obtain b bs where b: "e1 = b # bs" by (cases e1) auto
  with Cons.prems(2) e(1) obtain k where k: "fuel = Suc k" "length e2 \<le> k" by (cases fuel) auto
  from Cons.IH [OF e(3) k(2)] check_item [OF e(2), of e2] b e(1) k(1) show ?case by simp
qed

end

section \<open>Properties\<close>

text \<open>
  C25: Reading a value of a C++ type from any encoding of a MessagePack value gives exactly what
  the value denotes as that type, and leaves the reader behind the item: integers of every width,
  booleans, strings, string views with nil as no data, optionals, vectors, tuples and maps, nested.
\<close>
theorem read_val_exact:
  assumes "msgpuck_lib mp" and "wires (v # vs) e" and "as_read t v = Some x"
  shows "\<exists>r'. read_val mp t (reader_of e) = (Inr x, r') \<and> reads r' vs"
  using msgpuck_lib.delivers_val [OF assms(1,3)] reads_reader_of [OF assms(2)]
  by (auto simp: delivers_def)

theorem read_val_exact_witness:
  "\<exists>r'. read_val ref_mp (TVec (TInt False 8)) (reader_of [0x92, 1, 0xcc, 200, 0xc0])
     = (Inr (VVec [VInt 1, VInt 200]), r') \<and> reads r' [MNil]"
proof (rule read_val_exact [OF ref.msgpuck_lib_axioms, where v = "MArray [MUint 1, MUint 200]"])
  have "wire (MArray [MUint 1, MUint 200]) ([0x92] @ [1] @ [0xcc, 200] @ [])"
    by (intro wire_array wires_cons wire_uint wires_nil) (simp_all add: hdr_array_def hdr_uint_def)
  then show "wires [MArray [MUint 1, MUint 200], MNil] [0x92, 1, 0xcc, 200, 0xc0]"
    using wires_cons [of _ "[0x92, 1, 0xcc, 200]" _ "[0xc0]"] wires_cons [OF wire_nil wires_nil] by simp
  show "as_read (TVec (TInt False 8)) (MArray [MUint 1, MUint 200]) = Some (VVec [VInt 1, VInt 200])"
    by (simp add: int_max_def all_some_def)
qed

text \<open>
  C7: What the writer wrote, the reader reads back: a written value, read as a C++ type it fits,
  gives the value it denotes as that type.
\<close>
theorem write_read_roundtrip:
  assumes "msgpuck_lib mp" and "wf_writer w" and "written w = []" and "writable v" and "raw_free v"
    and "length (enc_val mp v) \<le> room w" and "depth v \<le> stk_free (opened w)"
    and "as_read t (denote v) = Some x"
  shows "\<exists>w' r'. write_val mp v w = (Inr (), w') \<and> read_val mp t (reader_of (written w')) = (Inr x, r')
     \<and> reads r' []"
proof -
  from msgpuck_lib.emits_write_val [OF assms(1,4) order_refl] assms(2,6,7) obtain w' where
    w': "write_val mp v w = (Inr (), w')" "wrote w (enc_val mp v) 1 w'" by (auto elim: emitsE)
  have "written w' = enc_val mp v"
    using wrote_written [OF assms(2,6) w'(2)] assms(3) by simp
  moreover have "wires [denote v] (enc_val mp v)"
    by (rule wires_single, rule msgpuck_lib.wire_enc_val [OF assms(1,4,5)])
  then have "\<exists>r'. read_val mp t (reader_of (enc_val mp v)) = (Inr x, r') \<and> reads r' []"
    using msgpuck_lib.delivers_val [OF assms(1,8)] reads_reader_of by (auto simp: delivers_def)
  ultimately show ?thesis using w'(1) by auto
qed

theorem write_read_roundtrip_witness:
  "\<exists>w' r'. write_val ref_mp demo_value (mp_writer (buf_of_size 64)) = (Inr (), w')
     \<and> read_val ref_mp (TMap TString (TVec (TInt True 32))) (reader_of (written w'))
         = (Inr (VMap [(VString [0x61], VVec [VInt 1, VInt (- 2)])]), r') \<and> reads r' []"
  by (rule write_read_roundtrip [OF ref.msgpuck_lib_axioms])
     (simp_all add: demo_value_def wf_writer_def mp_writer_def room_def written_def ref_bytes
       all_some_def int_max_def int_min_def)

text \<open>The number that an item of one of the two integer formats stands for.\<close>

fun number :: "mpv \<Rightarrow> int option" where
  "number (MUint n) = Some (int n)"
| "number (MInt k) = Some k"
| "number _ = None"

lemma read_uint_item:
  assumes lib: "msgpuck_lib mp" and i: "item_at mp r (MUint n) vs e rest r'"
  shows "read_int mp sg w r = (if int n \<le> int_max sg w then Inr (int n) else Inl (ReaderError ''value overflow''), r')"
proof -
  from i have h: "hdr_uint n e" by (auto simp: item_at_def elim: wire.cases)
  then have "n < 2 ^ 64" by (auto simp: hdr_uint_def)
  then have "uint (of_nat n :: u64) = int n"
    by (simp add: unsigned_of_nat take_bit_nat_eq_self)
  with i msgpuck_lib.dec_uint [OF lib h] show ?thesis
    by (simp add: item_at_def read_int_def seq_def Let_def)
qed

lemma read_sint_item:
  assumes lib: "msgpuck_lib mp" and i: "item_at mp r (MInt k) vs e rest r'" and w: "sg \<or> w < 64 \<or> 0 \<le> k"
  shows "read_int mp sg w r = (if int_min sg w \<le> k \<and> k \<le> int_max sg w then Inr k else Inl (ReaderError ''value overflow''), r')"
proof -
  from i have h: "hdr_int k e" by (auto simp: item_at_def elim: wire.cases)
  then have b: "- (2 ^ 63) \<le> k \<and> k < 2 ^ 63" by (auto simp: hdr_int_def)
  then have s: "sint (of_int k :: u64) = k"
    by (simp add: signed_of_int signed_take_bit_int_eq_self)
  have u: "uint (of_int k :: u64) = k" if "0 \<le> k"
    using b that by (simp add: unsigned_of_int take_bit_int_eq_self)
  show ?thesis
    using i w s u msgpuck_lib.dec_int [OF lib h]
    by (cases "\<not> sg \<and> w = 64") (auto simp: item_at_def read_int_def seq_def Let_def)
qed

lemma read_u64_item:
  assumes lib: "msgpuck_lib mp" and i: "item_at mp r (MInt k) vs e rest r'" and k: "k < 0"
  shows "read_int mp False 64 r = (Inr (2 ^ 64 + k), r')"
proof -
  from i have h: "hdr_int k e" by (auto simp: item_at_def elim: wire.cases)
  then have b: "- (2 ^ 63) \<le> k \<and> k < 2 ^ 63" by (auto simp: hdr_int_def)
  have "(k + 2 ^ 64) mod 2 ^ 64 = k + 2 ^ 64"
    using b k by (intro mod_pos_pos_trivial) auto
  then have "uint (of_int k :: u64) = 2 ^ 64 + k"
    by (simp add: uint_word_of_int)
  moreover have "2 ^ 64 + k \<le> int_max False 64" "int_min False 64 \<le> 2 ^ 64 + k"
    using b k by (simp_all add: int_max_def int_min_def)
  ultimately show ?thesis
    using i msgpuck_lib.dec_int [OF lib h, of rest]
    unfolding item_at_def read_int_def seq_def by (simp only: Let_def) simp
qed

text \<open>
  C28: Reading an integer of any encoding as a type of at most 64 bits gives the number when it is in the
  type's range and \<open>value overflow\<close> otherwise, with one exception: a negative number is not refused by the
  64-bit unsigned type, whose comparisons are carried out unsigned, but wraps around to \<open>2 ^ 64 + k\<close>.
\<close>
theorem read_int_exact:
  assumes "msgpuck_lib mp" and "wires (v # vs) e" and "number v = Some k" and "w \<le> 64"
  shows "\<exists>r'. read_int mp sg w (reader_of e)
     = (if int_min sg w \<le> k \<and> k \<le> int_max sg w then Inr k
        else if \<not> sg \<and> w = 64 then Inr (2 ^ 64 + k)
        else Inl (ReaderError ''value overflow''), r') \<and> reads r' vs"
proof -
  from msgpuck_lib.reads_item [OF assms(1) reads_reader_of [OF assms(2)]] obtain e1 rest r' where
    i: "item_at mp (reader_of e) v vs e1 rest r'" by blast
  then have r: "reads r' vs" "wire v e1" by (simp_all add: item_at_def)
  consider (u) n where "v = MUint n" "k = int n" | (s) "v = MInt k" "sg \<or> w < 64 \<or> 0 \<le> k"
    | (x) "v = MInt k" "\<not> sg" "w = 64" "k < 0"
  proof (cases v)
    case (MInt j)
    with assms(3) have "v = MInt k" by simp
    with s x assms(4) show thesis by linarith
  qed (use assms(3) u in auto)
  then show ?thesis
  proof cases
    case u
    have "hdr_uint n e1" using r(2) u(1) by (auto elim: wire.cases)
    then have "n < 2 ^ 64" by (auto simp: hdr_uint_def)
    then have "int n \<le> int_max False 64" by (simp add: int_max_def)
    moreover have "int_min sg w \<le> int n" by (simp add: int_min_def order.trans [OF _ of_nat_0_le_iff])
    ultimately show ?thesis using read_uint_item [OF assms(1) i [unfolded u(1)], of sg w] u r(1) by auto
  next
    case s
    have "hdr_int k e1" using r(2) s(1) by (auto elim: wire.cases)
    then have "k < 2 ^ 63" by (auto simp: hdr_int_def)
    then have "k \<le> int_max False 64" "0 \<le> k \<Longrightarrow> int_min False 64 \<le> k" by (simp_all add: int_max_def int_min_def)
    with read_sint_item [OF assms(1) i [unfolded s(1)] s(2)] s r(1) show ?thesis by auto
  next
    case x
    with read_u64_item [OF assms(1) i [unfolded x(1)] x(4)] r(1) show ?thesis by (auto simp: int_min_def)
  qed
qed

theorem read_int_exact_witness:
  "\<exists>r'. read_int ref_mp False 64 (reader_of [0xff])
     = (if int_min False 64 \<le> - 1 \<and> - 1 \<le> int_max False 64 then Inr (- 1)
        else if \<not> False \<and> (64 :: nat) = 64 then Inr (2 ^ 64 + (- 1))
        else Inl (ReaderError ''value overflow''), r') \<and> reads r' []"
proof (rule read_int_exact [OF ref.msgpuck_lib_axioms, where v = "MInt (- 1)"])
  show "wires [MInt (- 1)] [0xff]"
    by (intro wires_single wire_int) (simp add: hdr_int_def)
qed simp_all

text \<open>
  C29: \<open>operator[]\<close> of a map gives a view of the value of the first pair whose key is the integer
  asked for, whatever its encoding, and refuses a key the map does not have.
\<close>
theorem map_lookup:
  assumes "msgpuck_lib mp" and "wire (MMap us) e" and "length us < 2 ^ 32"
  shows "\<exists>m r'. read_map mp (reader_of e) = (Inr m, r')
     \<and> (case find (\<lambda>(k, _). key_is key k) (pair_up us) of
          None \<Rightarrow> map_at mp (equals_int mp key) (view m) = Inl (ReaderError ''key not found'')
        | Some (k, v) \<Rightarrow> \<exists>res. map_at mp (equals_int mp key) (view m) = Inr res \<and> reads (mp_reader res) [v])"
proof -
  from msgpuck_lib.reads_item [OF assms(1) reads_reader_of [OF wires_single [OF assms(2)]]]
  obtain e1 rest r' where i: "item_at mp (reader_of e) (MMap us) [] e1 rest r'" by blast
  from msgpuck_lib.map_at_spec [OF assms(1) i assms(3), of key] obtain m where
    m: "read_map mp (reader_of e) = (Inr m, r')"
      "case find (\<lambda>(k, _). key_is key k) (pair_up us) of
          None \<Rightarrow> map_at mp (equals_int mp key) (view m) = Inl (ReaderError ''key not found'')
        | Some (k, v) \<Rightarrow> \<exists>res. map_at mp (equals_int mp key) (view m) = Inr res \<and> reads (mp_reader res) [v]" .
  show ?thesis by (rule exI [of _ m], rule exI [of _ r'], intro conjI m)
qed

theorem map_lookup_witness:
  "\<exists>m r'. read_map ref_mp (reader_of [0x81, 0x31, 0xc3]) = (Inr m, r')
     \<and> (case find (\<lambda>(k, _). key_is 49 k) (pair_up [MUint 49, MBool True]) of
          None \<Rightarrow> map_at ref_mp (equals_int ref_mp 49) (view m) = Inl (ReaderError ''key not found'')
        | Some (k, v) \<Rightarrow> \<exists>res. map_at ref_mp (equals_int ref_mp 49) (view m) = Inr res
            \<and> reads (mp_reader res) [v])"
proof (rule map_lookup [OF ref.msgpuck_lib_axioms])
  have "wire (MMap [MUint 49, MBool True]) ([0x81] @ [0x31] @ [if True then 0xc3 else 0xc2] @ [])"
    by (intro wire_map [where n = 1] wires_cons wire_uint wire_bool wires_nil)
       (simp_all add: hdr_map_def hdr_uint_def)
  then show "wire (MMap [MUint 49, MBool True]) [0x81, 0x31, 0xc3]" by simp
qed simp

section \<open>Messages\<close>

lemma message_taken:
  assumes lib: "msgpuck_lib mp" and n: "length body < 2 ^ 32" and m: "vmem (view r) = pre @ frame body @ post"
    and e: "vend (view r) = Some e" "length (pre @ frame body) \<le> e" "e < 2 ^ 63" and p: "pos r = Some (length pre)"
  shows "iproto_message mp r = (Inr (mp_reader (mp_plain (vmem (view r)) (Some (length pre + 5))
       (Some (length pre + 5 + length body)))), r\<lparr>pos := Some (length (pre @ frame body))\<rparr>)"
proof -
  let ?h = "0xce # to_be 4 (length body)"
  have h: "hdr_uint (length body) ?h" using n by (simp add: hdr_uint_def)
  have d: "drop (length pre) (vmem (view r)) = ?h @ body @ post"
    using m by (simp add: frame_def)
  have u: "unat (of_nat (length body) :: u64) = length body" "uint (of_nat (length body) :: u64) = int (length body)"
    using n by (simp_all add: unsigned_of_nat take_bit_nat_eq_self)
  have z: "(int e - int (length pre + 5)) mod 2 ^ 64 = int e - int (length pre + 5)"
    using e by (intro mod_pos_pos_trivial) (simp_all add: frame_def)
  have "deref (vmem (view r)) (length pre) = Inr 0xce"
    using m by (simp add: deref_def frame_def)
  with msgpuck_lib.dec_uint [OF lib h, of "body @ post"] d u z e p show ?thesis
    unfolding iproto_message_def
    by (simp add: Let_def frame_def m)
qed

text \<open>
  \<open>iproto_message\<close> takes exactly one message off the front of a stream: a reader over its
  header and body, the position behind it; whatever comes after the message is not looked at.
\<close>
theorem iproto_message_takes_frame:
  assumes "msgpuck_lib mp" and "length body < 2 ^ 32" and "length (pre @ frame body @ post) < 2 ^ 63"
    and "vmem (view r) = pre @ frame body @ post" and "vend (view r) = Some (length (pre @ frame body @ post))"
    and "pos r = Some (length pre)"
  shows "iproto_message mp r = (Inr (mp_reader (mp_plain (vmem (view r)) (Some (length pre + 5))
       (Some (length pre + 5 + length body)))), r\<lparr>pos := Some (length (pre @ frame body))\<rparr>)
     \<and> take (length body) (drop (length pre + 5) (vmem (view r))) = body"
proof -
  have "drop (length pre + 5) (vmem (view r)) = body @ post"
    using assms(4) by (simp add: frame_def)
  with message_taken [OF assms(1,2,4,5) _ _ assms(6)] assms(3) show ?thesis by simp
qed

theorem iproto_message_takes_frame_witness:
  "iproto_message ref_mp (reader_of (frame [1, 2] @ [9]))
     = (Inr (mp_reader (mp_plain (vmem (view (reader_of (frame [1, 2] @ [9])))) (Some (length ([] :: bytes) + 5))
         (Some (length ([] :: bytes) + 5 + length [1 :: u8, 2])))),
        (reader_of (frame [1, 2] @ [9]))\<lparr>pos := Some (length ([] @ frame [1, 2]))\<rparr>)
     \<and> take (length [1 :: u8, 2]) (drop (length ([] :: bytes) + 5) (vmem (view (reader_of (frame [1, 2] @ [9])))))
         = [1, 2]"
  by (rule iproto_message_takes_frame [OF ref.msgpuck_lib_axioms, where post = "[9]"])
     (simp_all add: reader_of_def mp_reader_def mp_plain_def frame_def)

text \<open>
  \<open>check\<close> accepts every sequence of well-formed items that fills its bounds.
\<close>
theorem check_accepts:
  assumes "msgpuck_lib mp" and "wires vs e"
  shows "check_all mp (reader_of e) = Inr ()"
  using msgpuck_lib.check_items_wires [OF assms order_refl]
  by (simp add: check_all_def reader_of_def mp_reader_def mp_plain_def)

theorem check_accepts_witness: "check_all ref_mp (reader_of [0xc0]) = Inr ()"
  by (rule check_accepts [OF ref.msgpuck_lib_axioms wires_single [OF wire_nil]])

end
