(* ===== verification/Views_Theorems.thy ===== *)
theory Views_Theorems
  imports Mp_Views Reader_Theorems
begin

text \<open>
  Spans and the items in them, arrays by index, points in time.
\<close>

section \<open>Arrays by index\<close>

lemma index_loop_runs:
  assumes lib: "msgpuck_lib mp"
  shows "wires vs e \<Longrightarrow> m = pre @ e \<Longrightarrow>
     index_loop mp m fuel i prev (length pre) = Inl (if length vs < fuel then Overrun else Diverged)"
proof (induction vs arbitrary: e pre fuel i prev)
  case Nil
  then show ?case by (cases fuel) auto
next
  case (Cons v vs)
  then obtain e1 e2 where e: "e = e1 @ e2" "wire v e1" "wires vs e2" by (auto simp: wires_Cons_iff)
  have n: "mp_next mp (drop (length pre) m) = length e1"
    using msgpuck_lib.next_item [OF lib e(2)] Cons.prems(2) e(1) by simp
  show ?case
  proof (cases fuel)
    case (Suc k)
    have "index_loop mp m fuel i prev (length pre)
        = index_loop mp m k (i - 1) (length pre) (length (pre @ e1))"
      using Suc n wire_nonempty [OF e(2)] Cons.prems(2) e(1) by simp
    with Cons.IH [OF e(3), of "pre @ e1" k] Cons.prems(2) e(1) Suc show ?thesis by simp
  qed simp
qed

text \<open>
  C33: \<open>operator[]\<close> of an array never returns: its loop tests an unsigned index for being negative, so
  it runs through all items, whichever is asked for, and on beyond the end of the memory.
\<close>
theorem array_index_overruns:
  assumes "msgpuck_lib mp" and "wires vs e"
  shows "array_at mp fuel (mp_array_of (pre @ e) (Some (length pre)) nd c) i
     = Inl (if length vs < fuel then Overrun else Diverged)"
  by (simp add: array_at_def mp_array_of_def index_loop_runs [OF assms refl])

theorem array_index_overruns_witness:
  "array_at ref_mp 3 (mp_array_of ([0x92] @ [1, 2]) (Some (length [0x92 :: u8])) (Some 3) 2) 0
     = Inl (if length [MUint 1, MUint 2] < 3 then Overrun else Diverged)"
proof (rule array_index_overruns [OF ref.msgpuck_lib_axioms])
  have "wires [MUint 1, MUint 2] ([1] @ [2] @ [])"
    by (intro wires_cons wires_nil wire_uint) (simp_all add: hdr_uint_def)
  then show "wires [MUint 1, MUint 2] [1, 2]" by simp
qed

section \<open>Spans\<close>

text \<open>Where the items of a sequence end, each encoded as one of \<open>es\<close>.\<close>

fun ends_from :: "nat \<Rightarrow> bytes list \<Rightarrow> nat list" where
  "ends_from q [] = []"
| "ends_from q (e # es) = (q + length e) # ends_from (q + length e) es"

lemma length_ends [simp]: "length (ends_from q es) = length es"
  by (induction es arbitrary: q) auto

lemma ends_nth: "i < length es \<Longrightarrow> ends_from q es ! i = q + length (concat (take (Suc i) es))"
  by (induction es arbitrary: q i) (auto simp: nth_Cons split: nat.splits)

lemma ends_bound: "x \<in> set (ends_from q es) \<Longrightarrow> x \<le> q + length (concat es)"
  by (induction es arbitrary: q) fastforce+

lemma wires_concat: "list_all2 wire vs es \<Longrightarrow> wires vs (concat es)"
  by (induction rule: list_all2_induct) (auto intro: wires_cons)

lemma span_loop_ends:
  assumes lib: "msgpuck_lib mp"
  shows "reads r vs \<Longrightarrow> pos r = Some (start + q) \<Longrightarrow>
     \<exists>es rest r'. span_loop mp start k bounds r = (Inr (bounds @ map (\<lambda>x. x mod 2 ^ 32) (ends_from q es)), r')
       \<and> list_all2 wire (take k vs) es \<and> reads r' (drop k vs) \<and> at_pos r = concat es @ rest
       \<and> pos r' = Some (start + q + length (concat es))"
proof (induction k arbitrary: r vs q bounds)
  case 0
  then show ?case by (intro exI [of _ "[]"] exI [of _ "at_pos r"]) simp
next
  case (Suc k)
  show ?case
  proof (cases vs)
    case Nil
    then have "has_next False r = Inr False" using reads_has_next [OF Suc.prems(1)] by simp
    with Nil Suc.prems show ?thesis by (intro exI [of _ "[]"] exI [of _ "at_pos r"]) simp
  next
    case (Cons v ws)
    with Suc.prems(1) obtain e rest r1 where i: "item_at mp r v ws e rest r1"
      using msgpuck_lib.reads_item [OF lib] by blast
    then have r1: "skip mp r = (Inr (), r1)" "reads r1 ws" "has_next False r = Inr True" "wire v e"
        "pos r1 = Some (start + (q + length e))" "at_pos r = e @ rest" "view r1 = view r"
      using Suc.prems(2) by (simp_all add: item_at_def)
    have "at_pos r1 = drop (length e) (at_pos r)"
      using r1(5,7) Suc.prems(2) by (simp add: at_pos_def add_ac)
    then have at: "at_pos r1 = rest" using r1(6) by simp
    from Suc.IH [OF r1(2,5), of "bounds @ [(q + length e) mod 2 ^ 32]"] obtain es rest' r' where
      "span_loop mp start k (bounds @ [(q + length e) mod 2 ^ 32]) r1
         = (Inr ((bounds @ [(q + length e) mod 2 ^ 32]) @ map (\<lambda>x. x mod 2 ^ 32) (ends_from (q + length e) es)), r')"
      "list_all2 wire (take k ws) es" "reads r' (drop k ws)" "at_pos r1 = concat es @ rest'"
      "pos r' = Some (start + (q + length e) + length (concat es))" by blast
    with r1 at Cons show ?thesis
      by (intro exI [of _ "e # es"] exI [of _ rest'] exI [of _ r']) (simp add: add.assoc)
  qed
qed

text \<open>A part of the items, as a view of the kind \<open>k\<close>.\<close>

lemma part_reads:
  assumes m: "drop start m = concat es @ rest" "start \<le> length m" and w: "list_all2 wire vs es"
    and ab: "a \<le> b" "b \<le> length es" and k: "item_limit k = None \<or> item_limit k = Some (b - a) \<and> b - a < 2 ^ 32"
  shows "reads (mp_reader \<lparr>vmem = m, vkind = k, vbegin = Some (start + length (concat (take a es))),
      vend = Some (start + length (concat (take b es)))\<rparr>) (take (b - a) (drop a vs))"
proof -
  have t: "take b es = take a es @ take (b - a) (drop a es)"
    using ab(1) by (metis append_take_drop_id take_add le_add_diff_inverse)
  have "m = take start m @ concat es @ rest" using m(1) by (metis append_take_drop_id)
  also have "concat es = concat (take b es) @ concat (drop b es)"
    by (metis append_take_drop_id concat_append)
  finally have "m = (take start m @ concat (take a es)) @ concat (take (b - a) (drop a es)) @ concat (drop b es) @ rest"
    by (simp add: t)
  moreover have "wires (take (b - a) (drop a vs)) (concat (take (b - a) (drop a es)))"
    using w by (intro wires_concat) (simp add: list_all2_takeI list_all2_dropI)
  moreover have "length vs = length es" using w by (rule list_all2_lengthD)
  ultimately show ?thesis
    unfolding reads_def
    using m(2) k ab
    by (intro exI [of _ "take start m @ concat (take a es)"] exI [of _ "concat (take (b - a) (drop a es))"]
        exI [of _ "concat (drop b es) @ rest"]) (auto simp: mp_reader_def t)
qed

lemma nil_reads: "reads (mp_reader (mp_plain [0xc0] (Some 0) (Some 1))) [MNil]"
  using reads_reader_of [OF wires_single [OF wire_nil]] by (simp add: reader_of_def)

text \<open>A span as reading leaves it.\<close>

definition span_over :: "bytes \<Rightarrow> nat \<Rightarrow> mpv list \<Rightarrow> bytes list \<Rightarrow> mp_view \<Rightarrow> bool" where
  "span_over m start vs es s \<longleftrightarrow> list_all2 wire vs es \<and> (\<exists>rest. drop start m = concat es @ rest) \<and> start \<le> length m
     \<and> s = \<lparr>vmem = m, vkind = Span (length es) (ends_from 0 es), vbegin = Some start,
           vend = Some (start + length (concat es))\<rparr>"

lemma read_span_over:
  assumes lib: "msgpuck_lib mp" and r: "reads r vs" and n: "length (vmem (view r)) < 2 ^ 32"
  obtains start es s r' where "read_span mp k r = (Inr s, r')" and "reads r' (drop k vs)"
    and "span_over (vmem (view r)) start (take k vs) es s"
proof -
  from r obtain start where p: "pos r = Some start" "start \<le> length (vmem (view r))" by (auto simp: reads_def)
  from span_loop_ends [OF lib r, of start 0 k "[]"] p(1) obtain es rest r' where
    l: "span_loop mp start k [] r = (Inr (map (\<lambda>x. x mod 2 ^ 32) (ends_from 0 es)), r')"
      "list_all2 wire (take k vs) es" "reads r' (drop k vs)" "at_pos r = concat es @ rest"
      "pos r' = Some (start + length (concat es))" by auto
  have "length (concat es) \<le> length (vmem (view r))"
    using l(4) p by (simp add: at_pos_def) (metis diff_le_self le_add1 le_trans length_append length_concat length_drop)
  then have "x < 2 ^ 32" if "x \<in> set (ends_from 0 es)" for x
    using ends_bound [OF that] n by simp
  then have b: "map (\<lambda>x. x mod 2 ^ 32) (ends_from 0 es) = ends_from 0 es"
    by (simp add: map_idI)
  show thesis
    by (rule that [of "\<lparr>vmem = vmem (view r), vkind = Span (length es) (ends_from 0 es), vbegin = Some start,
           vend = Some (start + length (concat es))\<rparr>" r'])
       (use l p b in \<open>auto simp: read_span_def seq_def span_over_def at_pos_def\<close>)
qed

lemma span_sub_part:
  assumes s: "span_over m start vs es s" and ab: "a \<le> b" "b < length vs" "b - a < n" and n: "length vs < 2 ^ 32"
  shows "\<exists>x. span_sub n a b s = Inr x \<and> vmem x = m
     \<and> vbegin x = Some (start + length (concat (take a es))) \<and> vend x = Some (start + length (concat (take (Suc b) es)))
     \<and> reads (mp_reader x) (take (b - a + 1) (drop a vs))"
proof -
  have l: "length es = length vs" using s list_all2_lengthD by (fastforce simp: span_over_def)
  let ?x = "\<lparr>vmem = m, vkind = Span (b - a + 1) (take (b - a + 1) (drop a (ends_from 0 es))),
      vbegin = Some (start + length (concat (take a es))), vend = Some (start + length (concat (take (Suc b) es)))\<rparr>"
  have "(if a = 0 then 0 else ends_from 0 es ! (a - 1)) = length (concat (take a es))"
    using ab l by (cases a) (simp_all add: ends_nth)
  then have "span_sub n a b s = Inr ?x"
    using s ab l by (auto simp: span_over_def span_sub_def ends_nth)
  moreover have "reads (mp_reader ?x) (take (Suc b - a) (drop a vs))"
    using s ab l n by (auto simp: span_over_def intro: part_reads)
  ultimately show ?thesis using ab by (auto simp: Suc_diff_le)
qed

lemma span_at_item:
  assumes s: "span_over m start vs es s" and i: "i < length vs" and n: "length vs < 2 ^ 32"
  shows "\<exists>x. span_at i s = Inr x \<and> reads (mp_reader x) [vs ! i]"
proof -
  from span_sub_part [OF s order_refl i _ n, of 1] obtain x where
    x: "span_sub 1 i i s = Inr x" "reads (mp_reader x) [vs ! i]"
      "vbegin x = Some (start + length (concat (take i es)))" "vend x \<noteq> None"
    using i by (auto simp: take_Suc_conv_app_nth hd_drop_conv_nth take_Suc Cons_nth_drop_Suc [symmetric])
  have "cardinality (vkind s) = Some (length vs)"
    using s list_all2_lengthD by (fastforce simp: span_over_def)
  with x(1) i have "span_at i s = Inr (mp_plain (vmem x) (vbegin x) (vend x))"
    by (simp add: span_at_def)
  moreover have "reads (mp_reader (mp_plain (vmem x) (vbegin x) (vend x))) [vs ! i]"
    by (rule ref.plain_reads [OF x(2,4)])
  ultimately show ?thesis by blast
qed

text \<open>
  C27: A span of at most \<open>k\<close> items gives a view of every item it covers by its index, nil for every
  index behind them, and spans of any stretch of them; the reader goes on behind the last item covered.
\<close>
theorem span_items:
  assumes "msgpuck_lib mp" and "reads r vs" and "length (vmem (view r)) < 2 ^ 32"
  shows "\<exists>s r'. read_span mp k r = (Inr s, r') \<and> reads r' (drop k vs)
     \<and> cardinality (vkind s) = Some (min k (length vs))
     \<and> (\<forall>i. \<exists>x. span_at i s = Inr x \<and> reads (mp_reader x) [if i < min k (length vs) then vs ! i else MNil])
     \<and> (\<forall>a b. a \<le> b \<and> b < min k (length vs)
          \<longrightarrow> (\<exists>x. span_sub k a b s = Inr x \<and> reads (mp_reader x) (take (b - a + 1) (drop a vs))))"
proof -
  obtain start es s r' where s: "read_span mp k r = (Inr s, r')" "reads r' (drop k vs)"
      "span_over (vmem (view r)) start (take k vs) es s"
    using read_span_over [OF assms] .
  have l: "length (take k vs) < 2 ^ 32"
  proof -
    have "length vs \<le> length (vmem (view r))" using assms(2) by (auto simp: reads_def dest: wires_length)
    with assms(3) show ?thesis by simp
  qed
  have c: "cardinality (vkind s) = Some (min k (length vs))"
    using s(3) list_all2_lengthD by (fastforce simp: span_over_def)
  have i: "\<exists>x. span_at i s = Inr x \<and> reads (mp_reader x) [if i < min k (length vs) then vs ! i else MNil]" for i
  proof (cases "i < min k (length vs)")
    case True
    with span_at_item [OF s(3) _ l, of i] show ?thesis by auto
  next
    case False
    with c nil_reads show ?thesis by (auto simp: span_at_def)
  qed
  have "\<exists>x. span_sub k a b s = Inr x \<and> reads (mp_reader x) (take (b - a + 1) (drop a vs))"
    if "a \<le> b" "b < min k (length vs)" for a b
  proof -
    have "min (b - a + 1) (k - a) = b - a + 1" using that by (intro min_absorb1) (auto simp: Suc_le_eq intro: diff_less_mono)
    then have "take (b - a + 1) (drop a (take k vs)) = take (b - a + 1) (drop a vs)"
      by (simp only: drop_take take_take)
    moreover have "b - a < k" using that by (simp add: less_imp_diff_less)
    ultimately show ?thesis using span_sub_part [OF s(3) that(1) _ _ l, of k] that by auto
  qed
  with s c i show ?thesis by blast
qed

lemma demo_span: "reads (reader_of [1, 0xc3, 2]) [MUint 1, MBool True, MUint 2]"
proof -
  have "wires [MUint 1, MBool True, MUint 2] ([1] @ [if True then 0xc3 else 0xc2] @ [2] @ [])"
    by (intro wires_cons wires_nil wire_uint wire_bool) (simp_all add: hdr_uint_def)
  then show ?thesis using reads_reader_of by simp
qed

theorem span_items_witness:
  "\<exists>s r'. read_span ref_mp 2 (reader_of [1, 0xc3, 2]) = (Inr s, r') \<and> reads r' (drop 2 [MUint 1, MBool True, MUint 2])
     \<and> cardinality (vkind s) = Some (min 2 (length [MUint 1, MBool True, MUint 2]))
     \<and> (\<forall>i. \<exists>x. span_at i s = Inr x \<and> reads (mp_reader x)
            [if i < min 2 (length [MUint 1, MBool True, MUint 2]) then [MUint 1, MBool True, MUint 2] ! i else MNil])
     \<and> (\<forall>a b. a \<le> b \<and> b < min 2 (length [MUint 1, MBool True, MUint 2])
          \<longrightarrow> (\<exists>x. span_sub 2 a b s = Inr x
                 \<and> reads (mp_reader x) (take (b - a + 1) (drop a [MUint 1, MBool True, MUint 2]))))"
  by (rule span_items [OF ref.msgpuck_lib_axioms demo_span]) (simp add: reader_of_def mp_reader_def mp_plain_def)



section \<open>Points in time\<close>

text \<open>
  The value of an extension of type 4: seconds, nanoseconds, the offset and the index of the time zone,
  little-endian; the last three may be left out.
\<close>

definition to_le :: "nat \<Rightarrow> int \<Rightarrow> bytes" where
  "to_le k i = rev (to_be k (nat (i mod 2 ^ (8 * k))))"

definition datetime_bytes :: "int \<Rightarrow> (int \<times> bytes) option \<Rightarrow> bytes" where
  "datetime_bytes epoch rest =
     to_le 8 epoch @ (case rest of None \<Rightarrow> [] | Some (nsec, zone) \<Rightarrow> to_le 4 nsec @ zone)"

lemma length_to_le [simp]: "length (to_le k i) = k"
  by (simp add: to_le_def)

lemma of_le_to_le:
  assumes "0 < k" and "- (2 ^ (8 * k - 1)) \<le> i" and "i < 2 ^ (8 * k - 1)"
  shows "of_le k (to_le k i @ bs) = i"
proof -
  have "(256 :: nat) ^ k = 2 ^ (8 * k)" by (simp add: power_mult)
  moreover have "nat (i mod 2 ^ (8 * k)) < 2 ^ (8 * k)" by (simp add: nat_less_iff)
  ultimately have "of_be (to_be k (nat (i mod 2 ^ (8 * k)))) = nat (i mod 2 ^ (8 * k))"
    by (intro of_be_to_be) simp
  then have "of_le k (to_le k i @ bs) = signed_take_bit (8 * k - 1) (take_bit (8 * k) i)"
    by (simp add: of_le_def to_le_def take_bit_eq_mod)
  also have "\<dots> = signed_take_bit (8 * k - 1) i"
  proof -
    have "\<not> 8 * k \<le> 8 * k - 1" using assms(1) by arith
    then show ?thesis by (simp only: signed_take_bit_take_bit if_False)
  qed
  also have "\<dots> = i"
    using assms(2,3) by (simp add: signed_take_bit_int_eq_self)
  finally show ?thesis .
qed

text \<open>
  A point in time of any encoding is read as the seconds it says, or as the nanoseconds when it has
  a fraction, provided they fit 64 bits; the time zone is left aside.
\<close>
theorem datetime_read:
  fixes rd :: "(mp_reader, 'd) op"
  assumes "msgpuck_lib mp" and "reads r (MExt (mp_ext_datetime mp) (datetime_bytes epoch rest) # vs)"
    and "- (2 ^ 63) \<le> epoch" and "epoch < 2 ^ 63"
    and "case rest of None \<Rightarrow> nsec = 0 | Some (n, zone) \<Rightarrow> n = nsec \<and> - (2 ^ 31) \<le> n \<and> n < 2 ^ 31 \<and> length zone = 4"
    and "nsec = 0 \<or> \<bar>epoch\<bar> < 9223372034"
  shows "\<exists>r'. read_time mp rd r = (Inr (if nsec = 0 then Seconds epoch else Nanoseconds (epoch * 1000000000 + nsec)), r')
     \<and> reads r' vs"
proof -
  let ?d = "datetime_bytes epoch rest"
  obtain e r' more where i: "item_at mp r (MExt (mp_ext_datetime mp) ?d) vs e more r'"
    using msgpuck_lib.reads_item [OF assms(1,2)] by blast
  then obtain h where h: "e = h @ ?d" "hdr_ext (mp_ext_datetime mp) (length ?d) h"
    by (auto simp: item_at_def elim: wire.cases)
  have n: "length ?d = (if rest = None then 8 else 16)"
    using assms(5) by (auto simp: datetime_bytes_def split: option.splits)
  then have u: "unat (of_nat (length ?d) :: u32) = length ?d"
    by (simp add: unat_of_nat take_bit_nat_eq_self)
  have e8: "of_le 8 ?d = epoch"
    using assms(3,4) by (simp add: datetime_bytes_def of_le_to_le)
  have n4: "(if length ?d = 8 then 0 else of_le 4 (drop 8 ?d)) = nsec"
    using assms(5) n by (auto simp: datetime_bytes_def of_le_to_le split: option.splits)
  have "- (2 ^ 63) \<le> epoch * 1000000000 \<and> epoch * 1000000000 < 2 ^ 63
      \<and> - (2 ^ 63) \<le> nsec + epoch * 1000000000 \<and> nsec + epoch * 1000000000 < 2 ^ 63" if "nsec \<noteq> 0"
    using that assms(5,6) by (auto split: option.splits)
  then have "datetime ?d = (Inr (if nsec = 0 then Seconds epoch else Nanoseconds (epoch * 1000000000 + nsec)) :: 'd since_epoch result)"
    unfolding datetime_def e8 n4 Let_def by auto
  moreover have "mp_decode_extl mp (at_pos r) = (of_nat (length ?d), mp_ext_datetime mp, length h)"
    using i h msgpuck_lib.dec_extl [OF assms(1) h(2), of "?d @ more"] by (simp add: item_at_def)
  moreover have "take (length ?d) (drop (length h) (at_pos r)) = ?d"
    using i h(1) by (simp add: item_at_def)
  ultimately show ?thesis
    using i n u by (auto simp: read_time_def item_at_def seq_def)
qed

theorem datetime_read_witness:
  "\<exists>r'. read_time ref_mp (ret ()) (reader_of [0xd8, 4, 1, 0, 0, 0, 0, 0, 0, 0, 5, 0, 0, 0, 180, 0, 0, 0])
     = (Inr (if (5 :: int) = 0 then Seconds 1 else Nanoseconds (1 * 1000000000 + 5)), r') \<and> reads r' []"
proof (rule datetime_read [OF ref.msgpuck_lib_axioms, where rest = "Some (5, [180, 0, 0, 0])"])
  have d: "datetime_bytes 1 (Some (5, [180, 0, 0, 0])) = [1, 0, 0, 0, 0, 0, 0, 0, 5, 0, 0, 0, 180, 0, 0, 0]"
    by (simp add: datetime_bytes_def to_le_def to_be_numeral)
  have "wire (MExt 4 (datetime_bytes 1 (Some (5, [180, 0, 0, 0])))) ([0xd8, 4] @ datetime_bytes 1 (Some (5, [180, 0, 0, 0])))"
    by (rule wire_ext) (simp add: d hdr_ext_def)
  then show "reads (reader_of [0xd8, 4, 1, 0, 0, 0, 0, 0, 0, 0, 5, 0, 0, 0, 180, 0, 0, 0])
      [MExt (mp_ext_datetime ref_mp) (datetime_bytes 1 (Some (5, [180, 0, 0, 0])))]"
    using reads_reader_of [OF wires_single] by (simp add: d ref_mp_def)
qed simp_all

end
