(* ===== verification/Request_Reading.thy ===== *)
theory Request_Reading
  imports Views_Theorems
begin

text \<open>
  The other end of the line: what a peer that reads with the same views finds in a request.
\<close>

text \<open>\<^verbatim>\<open>map[key] >> x\<close>, where \<open>rd\<close> is the operator for the type of \<^verbatim>\<open>x\<close>.\<close>

definition at_key :: "msgpuck \<Rightarrow> u64 \<Rightarrow> (mp_reader, 'a) op \<Rightarrow> mp_reader \<Rightarrow> 'a result" where
  "at_key mp key rd m =
     (case map_reader_at mp (equals_int mp (uint key)) m of Inl e \<Rightarrow> Inl e | Inr r \<Rightarrow> fst (rd r))"

definition value_at :: "u64 \<Rightarrow> mpv list \<Rightarrow> mpv option" where
  "value_at key us = map_option snd (find (\<lambda>(k, _). key_is (uint key) k) (pair_up us))"

text \<open>The reader of a map that finds the value of every key of the map \<open>us\<close>.\<close>

definition map_over :: "msgpuck \<Rightarrow> mpv list \<Rightarrow> mp_reader \<Rightarrow> bool" where
  "map_over mp us m \<longleftrightarrow> (\<forall>key v. value_at key us = Some v
     \<longrightarrow> (\<exists>res. map_at mp (equals_int mp (uint key)) (view m) = Inr res \<and> reads (mp_reader res) [v]))"

lemma at_key_value:
  assumes "map_over mp us m" and "value_at key us = Some v" and "delivers rd v x"
  shows "at_key mp key rd m = Inr x"
proof -
  from assms(1,2) obtain res where
    r: "map_at mp (equals_int mp (uint key)) (view m) = Inr res" "reads (mp_reader res) [v]"
    by (auto simp: map_over_def)
  from assms(3) r(2) obtain q where "rd (mp_reader res) = (Inr x, q)" by (rule deliversE)
  with r(1) show ?thesis by (simp add: at_key_def map_reader_at_def)
qed

lemma map_keys:
  assumes lib: "msgpuck_lib mp" and r: "reads r (MMap us # vs)" and n: "length us < 2 ^ 32"
  obtains m r' where "read_map mp r = (Inr m, r')" and "reads r' vs" and "map_over mp us m"
proof -
  obtain e rest r' where i: "item_at mp r (MMap us) vs e rest r'"
    using msgpuck_lib.reads_item [OF lib r] by blast
  obtain m where m: "read_map mp r = (Inr m, r')"
    using msgpuck_lib.map_item [OF lib i n] by blast
  have "map_over mp us m"
    unfolding map_over_def
  proof (intro allI impI)
    fix key v
    assume "value_at key us = Some v"
    then obtain k where "find (\<lambda>(k, _). key_is (uint key) k) (pair_up us) = Some (k, v)"
      unfolding value_at_def by (metis (no_types, lifting) map_option_eq_Some prod.collapse)
    with msgpuck_lib.map_at_spec [OF lib i n, of "uint key"] m show
      "\<exists>res. map_at mp (equals_int mp (uint key)) (view m) = Inr res \<and> reads (mp_reader res) [v]" by fastforce
  qed
  with m i that show thesis by (simp add: item_at_def)
qed

text \<open>The header and the body of a request as values.\<close>

definition request_header :: "request_type \<Rightarrow> u64 \<Rightarrow> mpv list" where
  "request_header req i = [MUint (unat (header_key H_CODE)), MUint (unat (request_code req)),
     MUint (unat (header_key H_SYNC)), MUint (unat i)]"

definition call_request :: "body_field \<Rightarrow> bytes \<Rightarrow> wval list \<Rightarrow> mpv list" where
  "call_request key name args = [MUint (unat (body_key key)), MStr name,
     MUint (unat (body_key B_TUPLE)), denote (WTuple args)]"

lemma request_wires:
  assumes lib: "msgpuck_lib mp" and "writable (WTuple args)" "raw_free (WTuple args)" and "length name < 2 ^ 32"
  shows "wires [MMap (request_header req i), MMap (call_request key name args)]
    (request_header_bytes mp req i @ call_body mp key name args)"
proof -
  have u: "wire (MUint (unat c)) (mp_encode_uint mp (ucast c))" for c :: u8
  proof -
    have "unat (ucast c :: u64) = unat c"
      using unat_byte_lt [of c] by (simp add: unsigned_ucast_eq take_bit_nat_eq_self)
    with msgpuck_lib.wire_encode_uint [OF lib, of "ucast c"] show ?thesis by simp
  qed
  have two: "hdr_map 2 (mp_encode_map mp 2)"
    using msgpuck_lib.hdr_encode_map [OF lib, of 2] by simp
  note enc = msgpuck_lib.wire_encode_uint [OF lib] msgpuck_lib.wire_encode_str [OF lib assms(4)]
    msgpuck_lib.wire_enc_val [OF lib assms(2,3)]
  have "wire (MMap (request_header req i)) (mp_encode_map mp 2 @ mp_encode_uint mp (header_key H_CODE)
      @ mp_encode_uint mp (ucast (request_code req)) @ mp_encode_uint mp (header_key H_SYNC) @ mp_encode_uint mp i @ [])"
    unfolding request_header_def
    by (rule wire_map [where n = 2], simp, rule two) (rule wires_cons wires_nil enc u)+
  moreover have "wire (MMap (call_request key name args)) (mp_encode_map mp 2 @ mp_encode_uint mp (body_key key)
      @ mp_encode_str mp name @ mp_encode_uint mp (body_key B_TUPLE) @ enc_val mp (WTuple args) @ [])"
    unfolding call_request_def
    by (rule wire_map [where n = 2], simp, rule two) (rule wires_cons wires_nil enc)+
  ultimately show ?thesis
    using wires_cons [OF _ wires_single] unfolding request_header_bytes_def call_body_def
    by (metis append_assoc append_Nil2)
qed

lemma message_reads:
  assumes lib: "msgpuck_lib mp" and w: "wires vs m" and n: "length m < 2 ^ 32" and p: "length pre < 2 ^ 62"
  obtains msg r' where "iproto_message mp ((reader_of (pre @ frame m))\<lparr>pos := Some (length pre)\<rparr>) = (Inr msg, r')"
    and "reads msg vs" and "reads r' []"
proof -
  let ?r = "(reader_of (pre @ frame m))\<lparr>pos := Some (length pre)\<rparr>"
  let ?msg = "mp_reader (mp_plain (pre @ frame m) (Some (length pre + 5)) (Some (length pre + 5 + length m)))"
  let ?r' = "?r\<lparr>pos := Some (length (pre @ frame m))\<rparr>"
  have "iproto_message mp ?r = (Inr ?msg, ?r')"
    using message_taken [OF lib n, of ?r pre "[]" "length (pre @ frame m)"] n p
    by (simp add: reader_of_def mp_reader_def mp_plain_def frame_def)
  moreover have "reads ?msg vs"
    unfolding reads_def
    by (rule exI [of _ "pre @ 0xce # to_be 4 (length m)"], rule exI [of _ m], rule exI [of _ "[]"])
       (use w in \<open>simp add: mp_reader_def mp_plain_def frame_def\<close>)
  moreover have "reads ?r' []"
    unfolding reads_def
    by (rule exI [of _ "pre @ frame m"], rule exI [of _ "[]"], rule exI [of _ "[]"])
       (simp add: reader_of_def mp_reader_def mp_plain_def)
  ultimately show thesis by (rule that)
qed

text \<open>
  C13: A call is understood. A peer that reads the buffer behind what was there before finds one message
  and nothing more: the header says it is a call and has the number of the request, the body has the
  name of the function and, read as the type they are expected to have, the arguments.
\<close>
theorem call_understood:
  assumes "msgpuck_lib mp" and "gen (ids w) = (i, s)" and "writable (WTuple args)" and "raw_free (WTuple args)"
    and "length name < 2 ^ 32" and "length (written (mpw w)) < 2 ^ 62"
    and "accepts (mpw w) (length (request_header_bytes mp R_CALL i
           @ call_body mp B_FUNCTION_NAME name args)) (depth (WTuple args))"
    and "as_read t (denote (WTuple args)) = Some x"
  shows "\<exists>w' msg r1 hdr r2 body r3. call mp gen name args w = (Inr (), w')
     \<and> iproto_message mp ((reader_of (written (mpw w')))\<lparr>pos := Some (length (written (mpw w)))\<rparr>) = (Inr msg, r1)
     \<and> has_next True r1 = Inr False
     \<and> read_map mp msg = (Inr hdr, r2) \<and> read_map mp r2 = (Inr body, r3) \<and> has_next True r3 = Inr False
     \<and> at_key mp (header_key H_CODE) (read_int mp False 8) hdr = Inr (uint (request_code R_CALL))
     \<and> at_key mp (header_key H_SYNC) (read_int mp False 64) hdr = Inr (uint i)
     \<and> at_key mp (body_key B_FUNCTION_NAME) (read_string mp 0 0) body = Inr name
     \<and> at_key mp (body_key B_TUPLE) (read_val mp t) body = Inr x"
proof -
  let ?m = "request_header_bytes mp R_CALL i @ call_body mp B_FUNCTION_NAME name args"
  from call_sends [of mp gen w i s, OF assms(1,2,3,7)] obtain w' where
    w': "call mp gen name args w = (Inr (), w')" "written (mpw w') = written (mpw w) @ frame ?m"
    by (auto simp: sends_def sent_def)
  have "length ?m < 2 ^ 32" using assms(7) by (simp add: accepts_def)
  from message_reads [OF assms(1) request_wires [OF assms(1,3,4,5), of R_CALL i B_FUNCTION_NAME] this assms(6)]
  obtain msg r1 where msg: "iproto_message mp ((reader_of (written (mpw w')))\<lparr>pos := Some (length (written (mpw w)))\<rparr>) = (Inr msg, r1)"
      "reads msg [MMap (request_header R_CALL i), MMap (call_request B_FUNCTION_NAME name args)]" "reads r1 []"
    unfolding w'(2) by blast
  from map_keys [OF assms(1) msg(2)] obtain hdr r2 where
    hdr: "read_map mp msg = (Inr hdr, r2)" "reads r2 [MMap (call_request B_FUNCTION_NAME name args)]"
      "map_over mp (request_header R_CALL i) hdr" by (auto simp: request_header_def)
  from map_keys [OF assms(1) hdr(2)] obtain body r3 where
    body: "read_map mp r2 = (Inr body, r3)" "reads r3 []" "map_over mp (call_request B_FUNCTION_NAME name args) body"
    by (auto simp: call_request_def)
  have u: "int (unat i) \<le> int_max False 64"
    using uint_lt2p [of i] by (simp add: int_max_def)
  have "at_key mp (header_key H_CODE) (read_int mp False 8) hdr = Inr (int 10)"
    by (rule at_key_value [OF hdr(3) _ msgpuck_lib.delivers_uint [OF assms(1)]])
       (simp_all add: value_at_def request_header_def int_max_def)
  moreover have "at_key mp (header_key H_SYNC) (read_int mp False 64) hdr = Inr (int (unat i))"
    by (rule at_key_value [OF hdr(3) _ msgpuck_lib.delivers_uint [OF assms(1) u]])
       (simp add: value_at_def request_header_def)
  moreover have "at_key mp (body_key B_FUNCTION_NAME) (read_string mp 0 0) body = Inr name"
    by (rule at_key_value [OF body(3) _ msgpuck_lib.delivers_string [OF assms(1)]])
       (simp add: value_at_def call_request_def)
  moreover have "at_key mp (body_key B_TUPLE) (read_val mp t) body = Inr x"
    by (rule at_key_value [OF body(3) _ msgpuck_lib.delivers_val [OF assms(1,8)]])
       (simp add: value_at_def call_request_def)
  moreover have "has_next True r1 = Inr False" "has_next True r3 = Inr False"
    using reads_has_next [OF msg(3)] reads_has_next [OF body(2)] by simp_all
  ultimately show ?thesis
    using w'(1) msg(1) hdr(1) body(1) by auto
qed

theorem call_understood_witness:
  "\<exists>w' msg r1 hdr r2 body r3. call ref_mp next_id [0x66] [WInt 1, WVector [WNull]] demo_writer = (Inr (), w')
     \<and> iproto_message ref_mp ((reader_of (written (mpw w')))\<lparr>pos := Some (length (written (mpw demo_writer)))\<rparr>) = (Inr msg, r1)
     \<and> has_next True r1 = Inr False
     \<and> read_map ref_mp msg = (Inr hdr, r2) \<and> read_map ref_mp r2 = (Inr body, r3) \<and> has_next True r3 = Inr False
     \<and> at_key ref_mp (header_key H_CODE) (read_int ref_mp False 8) hdr = Inr (uint (request_code R_CALL))
     \<and> at_key ref_mp (header_key H_SYNC) (read_int ref_mp False 64) hdr = Inr (uint (7 :: u64))
     \<and> at_key ref_mp (body_key B_FUNCTION_NAME) (read_string ref_mp 0 0) body = Inr [0x66]
     \<and> at_key ref_mp (body_key B_TUPLE) (read_val ref_mp (TTup [TInt True 32, TVec (TOpt TBool)])) body
         = Inr (VTup [VInt 1, VVec [VOpt None]])"
proof (rule call_understood [OF ref.msgpuck_lib_axioms])
  show "length (written (mpw demo_writer)) < 2 ^ 62"
    by (simp add: demo_writer_def mp_writer_def written_def)
qed (simp_all add: demo_writer_idle next_id_def accepts_def request_header_bytes_def call_body_def ref_bytes
       all_some_def int_max_def int_min_def)

end
