(* ===== verification/Writer_Bounds.thy ===== *)
theory Writer_Bounds
  imports Writer_Theorems
begin

text \<open>
  The writer at the end of its buffer: \<^verbatim>\<open>mp_writer\<close> leaves it to its caller to have enough room, so that
  a value that does not fit runs over the block. The laws here go with those of \<open>emits\<close>.
\<close>

section \<open>Fixed storage and raw views\<close>

text \<open>
  \<^verbatim>\<open>mp_stack_writer\<close> is a writer over an array of its own, the bytes of which are \<open>area\<close>; its buffer
  cannot grow.
\<close>

definition mp_stack_writer :: "bytes \<Rightarrow> mp_writer result" where
  "mp_stack_writer area = map_sum id mp_writer (buf_of_raw (Some area) None)"

definition stack_writer_size :: "mp_writer \<Rightarrow> nat" where
  "stack_writer_size w = endp (buf w)"

text \<open>\<^verbatim>\<open>mp_raw_view\<close>: encoded items and how many they are, one unless \<^verbatim>\<open>c()\<close> says otherwise.\<close>

record mp_raw_view =
  raw_bytes :: "bytes option"
  raw_items :: nat

definition mp_raw_view :: "bytes option \<Rightarrow> mp_raw_view" where
  "mp_raw_view bs = \<lparr>raw_bytes = bs, raw_items = 1\<rparr>"

definition raw_c :: "nat \<Rightarrow> mp_raw_view \<Rightarrow> mp_raw_view" where
  "raw_c n v = v\<lparr>raw_items := n\<rparr>"

definition raw_size :: "mp_raw_view \<Rightarrow> nat" where
  "raw_size v = (case raw_bytes v of None \<Rightarrow> 0 | Some bs \<Rightarrow> length bs)"

definition write_raw :: "msgpuck \<Rightarrow> mp_raw_view \<Rightarrow> (mp_writer, unit) op" where
  "write_raw mp v = write_mp mp (case raw_bytes v of None \<Rightarrow> [] | Some bs \<Rightarrow> bs) (raw_items v)"

section \<open>Running over the block\<close>

definition overflows :: "(mp_writer, unit) op \<Rightarrow> bytes \<Rightarrow> nat \<Rightarrow> bool" where
  "overflows f bs d \<longleftrightarrow>
     (\<forall>w. wf_writer w \<longrightarrow> room w < length bs \<longrightarrow> d \<le> stk_free (opened w) \<longrightarrow> fst (f w) = Inl Overrun)"

named_theorems overflow_rules \<open>overflows, along the constructs an operation is made of\<close>

lemma overflowsI:
  assumes "\<And>w. wf_writer w \<Longrightarrow> room w < length bs \<Longrightarrow> d \<le> stk_free (opened w) \<Longrightarrow> fst (f w) = Inl Overrun"
  shows "overflows f bs d"
  using assms by (simp add: overflows_def)

lemma overflowsD:
  "overflows f bs d \<Longrightarrow> wf_writer w \<Longrightarrow> room w < length bs \<Longrightarrow> d \<le> stk_free (opened w) \<Longrightarrow> fst (f w) = Inl Overrun"
  by (simp add: overflows_def)

lemma andthen_raised: "fst (f w) = Inl e \<Longrightarrow> fst (andthen f g w) = Inl e"
  by (cases "f w") (auto simp: andthen_def seq_def)

lemma overflows_noexcept [overflow_rules]: "overflows f bs d \<Longrightarrow> overflows (noexcept f) bs d"
  by (auto simp: overflows_def noexcept_def catching_def split: prod.splits sum.splits)

lemma overflows_nothing [overflow_rules]: "overflows f [] d"
  by (rule overflowsI) simp

lemma overflows_deeper: "overflows f bs d \<Longrightarrow> d \<le> e \<Longrightarrow> overflows f bs e"
  by (auto simp: overflows_def)

lemma put_over: "wf_writer w \<Longrightarrow> room w < length bs \<Longrightarrow> put bs (buf w) = (Inl Overrun, buf w)"
  using wb.put_over [of "buf w" bs] by (auto simp: wf_writer_def room_def)

lemma overflows_emit [overflow_rules]: "overflows (emit bs) bs d"
  by (rule overflowsI) (simp add: emit_def on_buf_def put_over)

lemma overflows_seq [overflow_rules]:
  assumes "overflows f xs d" and "emits f xs n d" and "overflows g ys d"
  shows "overflows (andthen f g) (xs @ ys) d"
proof (rule overflowsI)
  fix w
  assume w: "wf_writer w" "room w < length (xs @ ys)" "d \<le> stk_free (opened w)"
  show "fst (andthen f g w) = Inl Overrun"
  proof (cases "length xs \<le> room w")
    case True
    with assms(2) w(1,3) obtain w1 where w1: "f w = (Inr (), w1)" "wrote w xs n w1" by (auto elim: emitsE)
    with w wrote_room [OF w(1) True w1(2)] have "fst (g w1) = Inl Overrun"
      using True by (intro overflowsD [OF assms(3)]) (auto simp: wrote_def)
    with w1(1) show ?thesis by (simp add: andthen_Inr)
  next
    case False
    with w overflowsD [OF assms(1)] show ?thesis by (auto intro: andthen_raised)
  qed
qed

lemma overflows_scalar [overflow_rules]: "overflows (andthen (emit bs) counted) bs d"
  using overflows_seq [OF overflows_emit emits_emit overflows_nothing] by simp

lemma overflows_strict [overflow_rules]: "overflows (andthen (emit [b]) (andthen (emit ys) counted)) (b # ys) d"
  using overflows_seq [OF overflows_emit emits_emit overflows_scalar, of "[b]"] by simp

lemma overflows_for_each:
  "(\<And>x. x \<in> set xs \<Longrightarrow> overflows (f x) (e x) d \<and> emits (f x) (e x) (c x) d) \<Longrightarrow>
     overflows (for_each f xs) (concat (map e xs)) d"
proof (induction xs)
  case Nil
  then show ?case by (simp add: overflows_nothing)
next
  case (Cons x xs)
  then have x: "overflows (f x) (e x) d" "emits (f x) (e x) (c x) d" by simp_all
  have "overflows (for_each f xs) (concat (map e xs)) d" using Cons by simp
  from overflows_seq [OF x this] show ?case by simp
qed

text \<open>A container: its header or its items do not fit; closing it takes no room.\<close>

lemma overflows_container:
  assumes opener: "opener = (\<lambda>w. let v = increment_container_counter 1 w in
      andthen (on_stack (push \<lparr>head_offset = buf_size (buf v), max_cardinality = mx, items_count = 0\<rparr>))
        (emit h) v)"
    and body: "overflows body bs d"
  shows "overflows (andthen opener (andthen body closer)) (h @ bs) (d + 1)"
proof (rule overflowsI)
  fix w
  assume w: "wf_writer w" "room w < length (h @ bs)" "d + 1 \<le> stk_free (opened w)"
  then have free: "0 < stk_free (opened w)" by simp
  show "fst (andthen opener (andthen body closer) w) = Inl Overrun"
  proof (cases "length h \<le> room w")
    case True
    from begin_container [OF w(1) True free, of mx] obtain w1 where w1: "opener w = (Inr (), w1)" "wf_writer w1"
        "buf w1 = append_bytes h (buf w)" "stk_free (opened w1) = stk_free (opened w) - 1"
      unfolding opener by blast
    have "room w1 = room w - length h"
      using w1(3) wf_writer_room [OF w(1) True] by (simp add: room_def)
    with w w1 True have "fst (body w1) = Inl Overrun"
      by (intro overflowsD [OF body]) auto
    then have "fst (andthen body closer w1) = Inl Overrun" by (rule andthen_raised)
    with w1(1) show ?thesis by (simp add: andthen_Inr)
  next
    case False
    let ?v = "increment_container_counter 1 w"
    let ?c = "\<lparr>head_offset = endp (buf w), max_cardinality = mx, items_count = 0\<rparr>"
    note v = open_increment [OF w(1), of 1]
    from v(1,4) free st.push_free [of "opened ?v" ?c] obtain s where s: "push ?c (opened ?v) = (Inr (), s)"
      by (auto simp: wf_writer_def)
    have "put h (buf w) = (Inl Overrun, buf w)" using False by (intro put_over [OF w(1)]) simp
    with s v(2) have "fst (opener w) = Inl Overrun"
      by (simp add: opener Let_def buf_size_def on_stack_def andthen_def seq_def emit_def on_buf_def)
    then show ?thesis by (rule andthen_raised)
  qed
qed

context msgpuck_lib
begin

lemma overflows_array:
  assumes "\<And>v. v \<in> set vs \<Longrightarrow> overflows (write_val mp v) (enc_val mp v) d"
    and "\<And>v. v \<in> set vs \<Longrightarrow> writable v \<and> depth v \<le> d"
  shows "overflows (andthen (begin_array mp (of_nat (length vs))) (andthen (for_each (write_val mp) vs) (finalize mp)))
     (mp_encode_array mp (of_nat (length vs)) @ concat (map (enc_val mp) vs)) (d + 1)"
  by (rule overflows_container [where mx = "of_nat (length vs)"])
     (simp add: begin_array_def fun_eq_iff,
      rule overflows_for_each [where c = "\<lambda>_. 1"], intro conjI assms(1) emits_write_val, simp_all add: assms(2))

lemma overflows_write_val:
  "writable v \<Longrightarrow> raw_free v \<Longrightarrow> depth v \<le> d \<Longrightarrow> overflows (write_val mp v) (enc_val mp v) d"
proof (induction v arbitrary: d)
  case (WStr s)
  then show ?case by (cases s) (auto simp: write_str_def overflow_rules)
next
  case (WOptional u)
  then show ?case by (cases u) (auto simp: write_nil_def overflow_rules intro: overflows_noexcept)
next
  case (WVector vs)
  let ?m = "foldr max (map depth vs) 0"
  have "overflows (write_val mp (WVector vs)) (enc_val mp (WVector vs)) (?m + 1)"
    using WVector.prems unfolding write_val.simps enc_val.simps
    by (intro overflows_array WVector.IH) (auto intro: foldr_max_ge)
  with WVector.prems show ?case by (auto intro: overflows_deeper)
next
  case (WTuple vs)
  let ?m = "foldr max (map depth vs) 0"
  have "overflows (write_val mp (WTuple vs)) (enc_val mp (WTuple vs)) (?m + 1)"
    using WTuple.prems unfolding write_val.simps enc_val.simps
    by (intro overflows_array WTuple.IH) (auto intro: foldr_max_ge)
  with WTuple.prems show ?case by (auto intro: overflows_deeper)
next
  case (WMap kvs)
  let ?m = "foldr max (map (\<lambda>kv. max (depth (fst kv)) (depth (snd kv))) kvs) 0"
  let ?pair = "\<lambda>kv. andthen (write_val mp (fst kv)) (write_val mp (snd kv))"
  have p: "overflows (?pair kv) (enc_val mp (fst kv) @ enc_val mp (snd kv)) ?m
      \<and> emits (?pair kv) (enc_val mp (fst kv) @ enc_val mp (snd kv)) (1 + 1) ?m" if "kv \<in> set kvs" for kv
  proof -
    have m: "max (depth (fst kv)) (depth (snd kv)) \<le> ?m"
      using that by (intro foldr_max_ge) auto
    have w: "writable (fst kv)" "writable (snd kv)" "raw_free (fst kv)" "raw_free (snd kv)"
      using WMap.prems that by auto
    have o1: "overflows (write_val mp (fst kv)) (enc_val mp (fst kv)) ?m"
      by (rule WMap.IH(1) [OF that]) (use w m in \<open>auto simp: prod_set_defs\<close>)
    have o2: "overflows (write_val mp (snd kv)) (enc_val mp (snd kv)) ?m"
      by (rule WMap.IH(2) [OF that]) (use w m in \<open>auto simp: prod_set_defs\<close>)
    have e: "emits (write_val mp (fst kv)) (enc_val mp (fst kv)) 1 ?m"
        "emits (write_val mp (snd kv)) (enc_val mp (snd kv)) 1 ?m"
      using m w by (simp_all add: emits_write_val del: One_nat_def)
    from overflows_seq [OF o1 e(1) o2] emits_seq [OF e] show ?thesis by simp
  qed
  have "overflows (write_val mp (WMap kvs)) (enc_val mp (WMap kvs)) (?m + 1)"
    unfolding write_val.simps enc_val.simps
    by (rule overflows_container [where mx = "of_nat (length kvs)"])
       (simp add: begin_map_def fun_eq_iff, rule overflows_for_each, rule p)
  with WMap.prems show ?case by (auto intro: overflows_deeper)
qed (auto simp: write_nil_def write_bool_def write_float_def write_int_def write_double_def
    write_strict16_def write_strict32_def write_strict64_def stores overflow_rules split: if_splits)

end


definition demo_stack_writer :: mp_writer where
  "demo_stack_writer = mp_writer \<lparr>target = RawTarget None, mem = [0, 0, 0], endp = 0\<rparr>"

lemma demo_stack_writer: "mp_stack_writer [0, 0, 0] = Inr demo_stack_writer"
  by (simp add: mp_stack_writer_def buf_of_raw_def demo_stack_writer_def)


end
