(* ===== verification/Mp_Floats.thy ===== *)
theory Mp_Floats
  imports Reader_Theorems
begin

text \<open>
  Reading floating point numbers. A \<^verbatim>\<open>float\<close> is its 32 bits and a \<^verbatim>\<open>double\<close> its 64 bits, as IEEE 754 and the
  writer (\<open>Mp_Values\<close>) have them; the conversions between the two are those of the language, with
  rounding to the nearest, to even when two are as near.
\<close>

section \<open>Conversions and comparisons\<close>

definition float_exp :: "u32 \<Rightarrow> nat" where
  "float_exp f = unat f div 2 ^ 23 mod 2 ^ 8"

definition float_frac :: "u32 \<Rightarrow> nat" where
  "float_frac f = unat f mod 2 ^ 23"

definition double_exp :: "u64 \<Rightarrow> nat" where
  "double_exp d = unat d div 2 ^ 52 mod 2 ^ 11"

definition double_frac :: "u64 \<Rightarrow> nat" where
  "double_frac d = unat d mod 2 ^ 52"

text \<open>The position of the highest bit of a number that is not 0.\<close>

fun top_bit :: "nat \<Rightarrow> nat" where
  "top_bit n = (if n < 2 then 0 else Suc (top_bit (n div 2)))"

declare top_bit.simps [simp del]

text \<open>Every float is a double; a subnormal one becomes normal. A NaN is quiet afterwards.\<close>

definition widen :: "u32 \<Rightarrow> u64" where
  "widen f =
     (let s = unat f div 2 ^ 31; e = float_exp f; m = float_frac f in
      of_nat (s * 2 ^ 63 +
        (if e = 0xff then 0x7ff * 2 ^ 52 + (if m = 0 then 0 else 2 ^ 51 + m mod 2 ^ 22 * 2 ^ 29)
         else if e = 0 then (if m = 0 then 0
           else (top_bit m + 874) * 2 ^ 52 + (m - 2 ^ top_bit m) * 2 ^ (52 - top_bit m))
         else (e + 896) * 2 ^ 52 + m * 2 ^ 29)))"

text \<open>A double that is infinite, not a number, or in the range of the normal floats, as a float.\<close>

definition narrow :: "u64 \<Rightarrow> u32" where
  "narrow d =
     (let s = unat d div 2 ^ 63; e = double_exp d; m = double_frac d in
      of_nat (s * 2 ^ 31 +
        (if e = 0x7ff then 0xff * 2 ^ 23 + (if m = 0 then 0 else 2 ^ 22 + m div 2 ^ 29 mod 2 ^ 22)
         else let q = (e - 896) * 2 ^ 23 + m div 2 ^ 29; r = m mod 2 ^ 29 in
              if 2 ^ 28 < r \<or> r = 2 ^ 28 \<and> odd q then q + 1 else q)))"

text \<open>
  The comparisons of a finite double with \<^verbatim>\<open>std::numeric_limits<float>::max()\<close> and \<^verbatim>\<open>min()\<close>, the smallest
  positive normal float.
\<close>

definition above_float_max :: "u64 \<Rightarrow> bool" where
  "above_float_max d \<longleftrightarrow> \<not> double_sign d \<and> 0x47efffffe0000000 < unat d"

definition below_float_min :: "u64 \<Rightarrow> bool" where
  "below_float_min d \<longleftrightarrow> double_sign d \<or> unat d < 0x3810000000000000"

definition double_nan :: "u64 \<Rightarrow> bool" where
  "double_nan d \<longleftrightarrow> double_exp d = 0x7ff \<and> double_frac d \<noteq> 0"

text \<open>\<^verbatim>\<open>==\<close>: no NaN equals anything, and the two zeros are equal.\<close>

definition double_eq :: "u64 \<Rightarrow> u64 \<Rightarrow> bool" where
  "double_eq a b \<longleftrightarrow> \<not> double_nan a \<and> \<not> double_nan b
     \<and> (a = b \<or> unat a mod 2 ^ 63 = 0 \<and> unat b mod 2 ^ 63 = 0)"

section \<open>Reading\<close>

text \<open>
  The value of an extension is read from its printed text; \<open>conv\<close> is \<^verbatim>\<open>std::from_chars\<close> for the type, whose
  conversion of decimal fractions is left open.
\<close>

definition ext_text :: "msgpuck \<Rightarrow> (string \<Rightarrow> 'a result) \<Rightarrow> bytes \<Rightarrow> 'a result" where
  "ext_text mp conv data =
     (case mp_snprint mp 0 data of
        None \<Rightarrow> Inl Overrun
      | Some s \<Rightarrow> if 64 \<le> length s then Inl Overrun else conv s)"

definition read_double :: "msgpuck \<Rightarrow> (string \<Rightarrow> u64 result) \<Rightarrow> (mp_reader, u64) op" where
  "read_double mp conv r =
     seq (skip mp) (\<lambda>_ r'.
       let data = at_pos r in
       case mp_typeof mp (hd data) of
         MP_FLOAT \<Rightarrow> (Inr (widen (fst (mp_decode_float mp data))), r')
       | MP_DOUBLE \<Rightarrow> (Inr (fst (mp_decode_double mp data)), r')
       | MP_EXT \<Rightarrow> (ext_text mp conv data, r')
       | t \<Rightarrow> (Inl (expected ''float'' t), r')) r"

definition read_float :: "msgpuck \<Rightarrow> (string \<Rightarrow> u32 result) \<Rightarrow> (mp_reader, u32) op" where
  "read_float mp conv r =
     seq (skip mp) (\<lambda>_ r'.
       let data = at_pos r in
       case mp_typeof mp (hd data) of
         MP_FLOAT \<Rightarrow> (Inr (fst (mp_decode_float mp data)), r')
       | MP_DOUBLE \<Rightarrow>
           (let res = fst (mp_decode_double mp data) in
            if double_finite res \<and> (above_float_max res \<or> below_float_min res)
            then (Inl (ReaderError ''value overflow''), r')
            else (Inr (narrow res), r'))
       | MP_EXT \<Rightarrow> (ext_text mp conv data, r')
       | t \<Rightarrow> (Inl (expected ''float'' t), r')) r"

text \<open>\<^verbatim>\<open>equals\<close> for a \<^verbatim>\<open>double\<close>.\<close>

definition equals_double :: "msgpuck \<Rightarrow> u64 \<Rightarrow> mp_reader \<Rightarrow> bool result" where
  "equals_double mp val r =
     (case has_next False r of
        Inl e \<Rightarrow> Inl e
      | Inr False \<Rightarrow> Inl (ReaderError ''read out of bounds'')
      | Inr True \<Rightarrow>
          (case peek_type mp r of
             Inl e \<Rightarrow> Inl e
           | Inr MP_FLOAT \<Rightarrow> Inr (double_eq val (widen (fst (mp_decode_float mp (at_pos r)))))
           | Inr MP_DOUBLE \<Rightarrow> Inr (double_eq val (fst (mp_decode_double mp (at_pos r))))
           | Inr _ \<Rightarrow> Inr False))"

section \<open>What is read\<close>

context msgpuck_lib
begin

lemma float_item: "item_at mp r (MFloat f) vs e rest r' \<Longrightarrow> mp_decode_float mp (at_pos r) = (f, 5)"
  using dec_float [of f rest] by (auto simp: item_at_def elim!: wire.cases)

lemma double_item: "item_at mp r (MDouble d) vs e rest r' \<Longrightarrow> mp_decode_double mp (at_pos r) = (d, 9)"
  using dec_double [of d rest] by (auto simp: item_at_def elim!: wire.cases)

lemma delivers_double: "delivers (read_double mp conv) (MDouble d) d"
  by (rule deliversI, frule double_item) (simp add: item_at_def read_double_def seq_def Let_def)

lemma delivers_float_as_double: "delivers (read_double mp conv) (MFloat f) (widen f)"
  by (rule deliversI, frule float_item) (simp add: item_at_def read_double_def seq_def Let_def)

lemma delivers_float: "delivers (read_float mp conv) (MFloat f) f"
  by (rule deliversI, frule float_item) (simp add: item_at_def read_float_def seq_def Let_def)

lemma delivers_narrow:
  "\<not> (double_finite d \<and> (above_float_max d \<or> below_float_min d)) \<Longrightarrow> delivers (read_float mp conv) (MDouble d) (narrow d)"
  by (rule deliversI, frule double_item) (simp add: item_at_def read_float_def seq_def Let_def)

end

text \<open>A normal float survives the way through a double.\<close>

lemma narrow_widen:
  assumes "0 < float_exp f" and "float_exp f < 0xff"
  shows "narrow (widen f) = f"
proof -
  define s e m where "s = unat f div 2 ^ 31" and "e = float_exp f" and "m = float_frac f"
  have f: "unat f = s * 2 ^ 31 + e * 2 ^ 23 + m"
  proof -
    have "unat f div 2 ^ 23 div 2 ^ 8 = s" by (simp add: s_def div_mult2_eq [symmetric])
    then have "unat f div 2 ^ 23 = s * 2 ^ 8 + e"
      unfolding e_def float_exp_def by (metis div_mult_mod_eq)
    moreover have "unat f = unat f div 2 ^ 23 * 2 ^ 23 + m"
      unfolding m_def float_frac_def by (metis div_mult_mod_eq)
    ultimately show ?thesis by (simp add: algebra_simps)
  qed
  have b: "s < 2" "m < 2 ^ 23" "0 < e" "e < 0xff"
  proof -
    have "unat f < 2 ^ LENGTH(32)" by (rule unsigned_less)
    then have "unat f < 2 * 2 ^ 31" by simp
    then show "s < 2" unfolding s_def by (rule less_mult_imp_div_less)
  qed (use assms in \<open>simp_all add: e_def m_def float_frac_def\<close>)
  let ?w = "s * 2 ^ 63 + ((e + 896) * 2 ^ 52 + m * 2 ^ 29)"
  have "widen f = of_nat ?w"
    using b unfolding widen_def s_def [symmetric] e_def [symmetric] m_def [symmetric] Let_def
    by (simp del: of_nat_add of_nat_mult)
  moreover have "?w < 2 ^ LENGTH(64)" using b by simp
  then have "unat (of_nat ?w :: u64) = ?w" by (simp only: unat_of_nat take_bit_nat_eq_self mod_less)
  ultimately have w: "unat (widen f) = ?w" by simp
  have split: "?w = m * 2 ^ 29 + (s * 2 ^ 11 + (e + 896)) * 2 ^ 52" by simp
  have "m * 2 ^ 29 < (2 :: nat) ^ 52" using b by simp
  then have "?w div 2 ^ 52 = s * 2 ^ 11 + (e + 896)" "?w mod 2 ^ 52 = m * 2 ^ 29"
    unfolding split by (simp_all only: mod_mult_self1 mod_less div_mult_self1 div_less power_not_zero numeral_neq_zero not_False_eq_True add_0_right)
  moreover have "?w div 2 ^ 63 = s"
    by (rule div_nat_eqI) (use b in simp_all)
  ultimately have "?w div 2 ^ 52 = s * 2 ^ 11 + (e + 896)" "?w mod 2 ^ 52 = m * 2 ^ 29" "?w div 2 ^ 63 = s" by blast+
  then have d: "double_exp (widen f) = e + 896" "double_frac (widen f) = m * 2 ^ 29" "unat (widen f) div 2 ^ 63 = s"
    using b unfolding double_exp_def double_frac_def w by simp_all
  have "narrow (widen f) = of_nat (s * 2 ^ 31 + (e * 2 ^ 23 + m))"
    using b unfolding narrow_def d Let_def by simp
  also have "\<dots> = f" using f by (simp only: add.assoc [symmetric] f [symmetric] of_nat_unat ucast_id)
  finally show ?thesis .
qed



end
