(* ===== verification/Cs_Parser.thy ===== *)
theory Cs_Parser
  imports Mp_Decode
begin

text \<open>
  \<^verbatim>\<open>cs_parser.cpp\<close>: the connection string. A \<^verbatim>\<open>string_view\<close> that is a tail of the string is
  the list of its characters; the character behind the end, which the code looks at, is the
  terminating zero of the storage.
\<close>

section \<open>The parser\<close>

record cs_parts =
  unix_socket_path :: string
  user :: string
  password :: string
  host :: string
  port :: string

definition no_parts :: cs_parts where
  "no_parts = \<lparr>unix_socket_path = [], user = [], password = [], host = [], port = []\<rparr>"

definition char_at :: "nat \<Rightarrow> string \<Rightarrow> char" where
  "char_at i s = (if i < length s then s ! i else CHR 0x00)"

text \<open>\<^verbatim>\<open>get_chunk\<close>: the text up to the first separator, and the tail from there on.\<close>

definition get_chunk :: "char set \<Rightarrow> string \<Rightarrow> string \<times> string" where
  "get_chunk sep tail = (takeWhile (\<lambda>c. c \<notin> sep) tail, dropWhile (\<lambda>c. c \<notin> sep) tail)"

definition separators :: "char set" where
  "separators = {CHR '':'', CHR ''/'', CHR ''@'', CHR ''[''}"

text \<open>\<^verbatim>\<open>chunk2port\<close>: whether the whole chunk is a number of at most 16 bits.\<close>

definition is_port :: "string \<Rightarrow> bool" where
  "is_port chunk \<longleftrightarrow>
     length chunk \<le> 5 \<and> chunk \<noteq> [] \<and> takeWhile is_digit chunk = chunk \<and> digits_value chunk \<le> 0xffff"

text \<open>
  The result of the parsing loop: the parts, or the name of an environment variable whose value
  is to be parsed instead.
\<close>

datatype parsed = Parts cs_parts | FromEnv string

lemma get_chunk_shorter: "(a, b) = get_chunk sep s \<Longrightarrow> length b \<le> length s"
  by (simp add: get_chunk_def length_dropWhile_le)

definition with_defaults :: "cs_parts \<Rightarrow> cs_parts" where
  "with_defaults res =
     (let r = (if user res = [] then res\<lparr>user := ''guest''\<rparr> else res)
      in if host r = [] then r\<lparr>host := ''localhost''\<rparr> else r)"

function parse_loop :: "bool \<Rightarrow> string \<Rightarrow> cs_parts \<Rightarrow> parsed" where
  "parse_loop first_chunk tail0 res =
     (let (chunk, tail) = get_chunk separators tail0 in
      if tail = []
      then (if first_chunk \<and> is_port chunk then Parts (with_defaults (res\<lparr>port := chunk\<rparr>)) else Parts no_parts)
      else if hd tail = CHR '':''
      then
        let tail1 = tl tail in
        if char_at 0 tail1 = CHR ''/'' then Parts (res\<lparr>unix_socket_path := tail1\<rparr>)
        else
          let (chunk2, tail2) = get_chunk separators tail1 in
          if tail2 = []
          then (if is_port chunk2 then Parts (with_defaults (res\<lparr>port := chunk2, host := chunk\<rparr>))
                else Parts no_parts)
          else if hd tail2 = CHR ''@''
          then parse_loop False (tl tail2) (res\<lparr>user := chunk, password := chunk2\<rparr>)
          else Parts no_parts
      else if hd tail = CHR ''/''
      then
        if char_at 1 tail = CHR '':''
        then
          let tail1 = drop 2 tail in
          if chunk = ''env'' then FromEnv tail1
          else if chunk \<noteq> ''unix'' then Parts no_parts
          else if user res \<noteq> [] then Parts no_parts
          else Parts (res\<lparr>unix_socket_path := tail1\<rparr>)
        else if user res \<noteq> [] then Parts no_parts
        else Parts (res\<lparr>unix_socket_path := tail\<rparr>)
      else if hd tail = CHR ''[''
      then
        if chunk \<noteq> [] then Parts no_parts
        else
          let (chunk2, tail1) = get_chunk {CHR '']''} (tl tail) in
          if chunk2 = [] \<or> char_at 0 tail1 \<noteq> CHR '']'' then Parts no_parts
          else if char_at 0 (tl tail1) \<noteq> CHR '':'' then Parts no_parts
          else if \<not> is_port (tl (tl tail1)) then Parts no_parts
          else Parts (with_defaults (res\<lparr>port := tl (tl tail1), host := chunk2\<rparr>))
      else parse_loop False (tl tail) (res\<lparr>user := chunk\<rparr>))"
  by pat_completeness auto
termination
  by (relation "measure (\<lambda>(_, tail, _). length tail)")
     (auto dest!: get_chunk_shorter simp: neq_Nil_conv)

declare parse_loop.simps [simp del]

definition parse_string :: "string \<Rightarrow> parsed" where
  "parse_string cs = (if cs = [] then Parts no_parts else parse_loop True cs no_parts)"

text \<open>
  \<^verbatim>\<open>parse_cs\<close>. Names of variables end at a zero character, as \<^verbatim>\<open>c_str()\<close> does. A variable may
  lead to itself again, and then the recursion does not end.
\<close>

partial_function (option) parse_cs :: "(string \<Rightarrow> string option) \<Rightarrow> string \<Rightarrow> cs_parts option" where
  "parse_cs getenv cs =
     (case parse_string cs of
        Parts p \<Rightarrow> Some p
      | FromEnv var \<Rightarrow>
          (case getenv (takeWhile (\<lambda>c. c \<noteq> CHR 0x00) var) of
             None \<Rightarrow> Some no_parts
           | Some cs' \<Rightarrow> parse_cs getenv cs'))"

section \<open>What the parser delivers\<close>

definition plain :: "string \<Rightarrow> bool" where
  "plain s \<longleftrightarrow> set s \<inter> separators = {}"

lemma chunk_sep: "plain s \<Longrightarrow> c \<in> separators \<Longrightarrow> get_chunk separators (s @ c # r) = (s, c # r)"
  by (auto simp: plain_def get_chunk_def takeWhile_append dropWhile_append)

lemma chunk_all: "plain s \<Longrightarrow> get_chunk separators s = (s, [])"
  by (auto simp: plain_def get_chunk_def)

lemma digit_not_sep: "is_digit c \<Longrightarrow> c \<notin> separators"
  by (auto simp: is_digit_def separators_def)

lemma plain_port: "is_port s \<Longrightarrow> plain s"
  using digit_not_sep by (auto simp: is_port_def plain_def takeWhile_eq_all_conv)

text \<open>Parts that make sense: nothing, a path alone, or a host with a valid port and a user.\<close>

definition sensible :: "cs_parts \<Rightarrow> bool" where
  "sensible p \<longleftrightarrow> p = no_parts
     \<or> (host p = [] \<and> port p = [])
     \<or> (unix_socket_path p = [] \<and> host p \<noteq> [] \<and> user p \<noteq> []
        \<and> port p \<noteq> [] \<and> set (port p) \<subseteq> Collect is_digit \<and> digits_value (port p) < 2 ^ 16)"

lemma port_digits: "is_port pt \<Longrightarrow> pt \<noteq> [] \<and> set pt \<subseteq> Collect is_digit \<and> digits_value pt < 65536"
  by (auto simp: is_port_def takeWhile_eq_all_conv)

lemma sensible_tcp: "is_port pt \<Longrightarrow> unix_socket_path r = [] \<Longrightarrow> port r = pt \<Longrightarrow> sensible (with_defaults r)"
  using port_digits [of pt] by (simp add: sensible_def with_defaults_def Let_def)

lemma sensible_unix: "host r = [] \<Longrightarrow> port r = [] \<Longrightarrow> sensible r"
  by (simp add: sensible_def)

lemma sensible_none: "sensible no_parts"
  by (simp add: sensible_def)

lemma parse_loop_sensible:
  "parse_loop b s res = Parts p \<Longrightarrow> unix_socket_path res = [] \<Longrightarrow> host res = [] \<Longrightarrow> port res = [] \<Longrightarrow> sensible p"
proof (induction b s res rule: parse_loop.induct)
  case (1 b s res)
  obtain chunk tail where ct: "get_chunk separators s = (chunk, tail)" by force
  obtain chunk2 tail2 where ct2: "get_chunk separators (tl tail) = (chunk2, tail2)" by force
  obtain c3 t3 where ct3: "get_chunk {CHR '']''} (tl tail) = (c3, t3)" by force
  note IH = "1.IH" [OF ct [symmetric] refl]
  note run = "1.prems"(1) [unfolded parse_loop.simps [of b s] ct ct2 ct3 Let_def prod.case]
  show ?case
  proof (cases "tail = [] \<or> hd tail = CHR ''/'' \<or> hd tail = CHR ''[''")
    case True
    with run "1.prems"(2-) show ?thesis
      by (auto simp: sensible_none intro: sensible_tcp sensible_unix split: if_splits)
  next
    case False
    with run "1.prems"(2-) ct ct2 IH show ?thesis
      by (auto simp: sensible_none Let_def intro: sensible_tcp sensible_unix split: if_splits)
  qed
qed



text \<open>
  C19: A network address comes apart as it was put together: user, password, host and port, with
  the defaults \<open>guest\<close> and \<open>localhost\<close> for empty ones.
\<close>
theorem parse_network_address:
  assumes "plain u" and "plain pw" and "plain h" and "is_port pt"
  shows "parse_cs getenv (u @ '':'' @ pw @ ''@'' @ h @ '':'' @ pt)
     = Some \<lparr>unix_socket_path = [], user = (if u = [] then ''guest'' else u), password = pw,
         host = (if h = [] then ''localhost'' else h), port = pt\<rparr>"
proof -
  note pt = plain_port [OF assms(4)]
  have sep: "CHR '':'' \<in> separators" "CHR ''@'' \<in> separators" by (simp_all add: separators_def)
  have no_slash: "char_at 0 (pw @ ''@'' @ r) \<noteq> CHR ''/''" "char_at 0 pt \<noteq> CHR ''/''" for r
    using assms(2) by (cases pw; auto simp: char_at_def plain_def separators_def)
      (use pt in \<open>cases pt; auto simp: char_at_def plain_def separators_def\<close>)
  have second: "parse_loop False (h @ '':'' @ pt) r = Parts (with_defaults (r\<lparr>port := pt, host := h\<rparr>))" for r
    using chunk_sep [OF assms(3) sep(1), of pt] chunk_all [OF pt] no_slash(2) assms(4)
    by (subst parse_loop.simps) simp
  have "parse_loop True (u @ '':'' @ pw @ ''@'' @ h @ '':'' @ pt) no_parts
      = parse_loop False (h @ '':'' @ pt) (no_parts\<lparr>user := u, password := pw\<rparr>)"
    using chunk_sep [OF assms(1) sep(1), of "pw @ ''@'' @ h @ '':'' @ pt"]
      chunk_sep [OF assms(2) sep(2), of "h @ '':'' @ pt"] no_slash(1) [of "h @ '':'' @ pt"]
    by (subst parse_loop.simps) simp
  with second show ?thesis
    by (simp add: parse_cs.simps [of getenv] parse_string_def with_defaults_def no_parts_def)
qed

theorem parse_network_address_witness:
  "parse_cs Map.empty (''bob'' @ '':'' @ ''pw'' @ ''@'' @ ''db'' @ '':'' @ ''3301'')
     = Some \<lparr>unix_socket_path = [], user = (if ''bob'' = [] then ''guest'' else ''bob''), password = ''pw'',
         host = (if ''db'' = [] then ''localhost'' else ''db''), port = ''3301''\<rparr>"
  by (rule parse_network_address)
     (simp_all add: plain_def separators_def is_port_def is_digit_def digits_value_def)

text \<open>
  C40: A variable whose value sends the parser back to the same variable makes it recurse for
  ever: no result is ever returned.
\<close>
theorem parse_env_cycle:
  assumes "getenv v = Some (''env/:'' @ v)" and "CHR 0x00 \<notin> set v"
  shows "parse_cs getenv (''env/:'' @ v) = None"
proof -
  have e: "plain ''env''" by (simp add: plain_def separators_def)
  have "get_chunk separators (''env/:'' @ v) = (''env'', ''/:'' @ v)"
    using chunk_sep [OF e, of "CHR ''/''" "'':'' @ v"] by (simp add: separators_def)
  then have p: "parse_string (''env/:'' @ v) = FromEnv v"
    by (simp add: parse_string_def parse_loop.simps [of True] char_at_def)
  have v: "takeWhile (\<lambda>c. c \<noteq> CHR 0x00) v = v"
    using assms(2) by (auto simp: takeWhile_eq_all_conv)
  have "g = getenv \<longrightarrow> cs \<noteq> ''env/:'' @ v" if "parse_cs g cs = Some q" for g cs q
  proof (rule parse_cs.raw_induct [where P = "\<lambda>g cs _. g = getenv \<longrightarrow> cs \<noteq> ''env/:'' @ v", OF _ that],
      intro impI notI)
    fix rec g cs q
    assume IH: "\<And>g c q. rec g c = Some q \<Longrightarrow> g = getenv \<longrightarrow> c \<noteq> ''env/:'' @ v"
      and run: "(case parse_string cs of Parts p \<Rightarrow> Some p
        | FromEnv var \<Rightarrow> (case g (takeWhile (\<lambda>c. c \<noteq> CHR 0x00) var) of
            None \<Rightarrow> Some no_parts | Some cs' \<Rightarrow> rec g cs')) = Some q"
      and g: "g = getenv" "cs = ''env/:'' @ v"
    from run have "rec g cs = Some q"
      by (simp only: g p v assms(1) parsed.case option.case)
    with IH g show False by blast
  qed
  then show ?thesis by (cases "parse_cs getenv (''env/:'' @ v)") auto
qed

theorem parse_env_cycle_witness:
  "parse_cs [''CS'' \<mapsto> ''env/:'' @ ''CS''] (''env/:'' @ ''CS'') = None"
  by (rule parse_env_cycle) simp_all

end
