(* ===== verification/Unique_Socket.thy ===== *)
theory Unique_Socket
  imports Prelude "HOL-Library.Multiset"
begin

text \<open>
  \<^verbatim>\<open>unique_socket\<close>: the owner of one descriptor. The objects of a program are a list of their
  \<^verbatim>\<open>_fd\<close> fields; the descriptors passed to \<^verbatim>\<open>::close\<close> are logged.
\<close>

section \<open>Operations\<close>

record sockets =
  fd :: "int list"
  closed :: "int list"

text \<open>The constructor from a descriptor adds an object.\<close>

definition new_socket :: "int \<Rightarrow> sockets \<Rightarrow> sockets" where
  "new_socket f s = s\<lparr>fd := fd s @ [f]\<rparr>"

definition handle :: "nat \<Rightarrow> sockets \<Rightarrow> int" where
  "handle i s = fd s ! i"

definition is_open :: "nat \<Rightarrow> sockets \<Rightarrow> bool" where
  "is_open i s \<longleftrightarrow> 0 \<le> fd s ! i"

definition close_socket :: "nat \<Rightarrow> sockets \<Rightarrow> sockets" where
  "close_socket i s =
     (if fd s ! i < 0 then s
      else s\<lparr>closed := closed s @ [fd s ! i], fd := (fd s)[i := - 1]\<rparr>)"

text \<open>The destructor; the object is not used any more.\<close>

definition destroy_socket :: "nat \<Rightarrow> sockets \<Rightarrow> sockets" where
  "destroy_socket i s = close_socket i s"

text \<open>Moving: \<open>unique_socket(unique_socket &&)\<close> adds an object, the assignment does not.\<close>

definition move_new :: "nat \<Rightarrow> sockets \<Rightarrow> sockets" where
  "move_new j s = s\<lparr>fd := (fd s)[j := - 1] @ [fd s ! j]\<rparr>"

definition move_assign :: "nat \<Rightarrow> nat \<Rightarrow> sockets \<Rightarrow> sockets" where
  "move_assign i j s =
     (if i = j then s
      else let s1 = close_socket i s; f = fd s1 ! j
           in s1\<lparr>fd := (fd s1)[i := f, j := - 1]\<rparr>)"

definition assign_fd :: "nat \<Rightarrow> int \<Rightarrow> sockets \<Rightarrow> sockets" where
  "assign_fd i f s = (let s1 = close_socket i s in s1\<lparr>fd := (fd s1)[i := f]\<rparr>)"

section \<open>Ownership\<close>

text \<open>
  Every operation that is given a descriptor receives it from the system; the others only pass
  descriptors on. A step says which descriptors come in.
\<close>

inductive socket_step :: "int list \<Rightarrow> sockets \<Rightarrow> sockets \<Rightarrow> bool" where
  "socket_step (if 0 \<le> f then [f] else []) s (new_socket f s)"
| "i < length (fd s) \<Longrightarrow> socket_step [] s (close_socket i s)"
| "j < length (fd s) \<Longrightarrow> socket_step [] s (move_new j s)"
| "i < length (fd s) \<Longrightarrow> j < length (fd s) \<Longrightarrow> socket_step [] s (move_assign i j s)"
| "i < length (fd s) \<Longrightarrow> socket_step (if 0 \<le> f then [f] else []) s (assign_fd i f s)"
| "i < length (fd s) \<Longrightarrow> socket_step [] s (destroy_socket i s)"

inductive socket_run :: "int list \<Rightarrow> sockets \<Rightarrow> bool" where
  run_start: "socket_run [] \<lparr>fd = [], closed = []\<rparr>"
| run_step: "socket_run fs s \<Longrightarrow> socket_step gs s t \<Longrightarrow> socket_run (fs @ gs) t"

definition held :: "sockets \<Rightarrow> int multiset" where
  "held s = filter_mset (\<lambda>f. 0 \<le> f) (mset (fd s))"

lemma held_update:
  "i < length (fd s) \<Longrightarrow>
     filter_mset (\<lambda>f. 0 \<le> f) (mset ((fd s)[i := g]))
     = filter_mset (\<lambda>f. 0 \<le> f) {#g#} + (held s - filter_mset (\<lambda>f. 0 \<le> f) {#fd s ! i#})"
  by (simp add: mset_update held_def)

lemma held_nth: "i < length (fd s) \<Longrightarrow> 0 \<le> fd s ! i \<Longrightarrow> fd s ! i \<in># held s"
  by (simp add: held_def)

lemma length_close [simp]: "length (fd (close_socket i s)) = length (fd s)"
  by (simp add: close_socket_def)

lemma close_nth: "i < length (fd s) \<Longrightarrow> fd (close_socket i s) ! i < 0"
  by (simp add: close_socket_def)

lemma close_other: "i \<noteq> j \<Longrightarrow> fd (close_socket i s) ! j = fd s ! j"
  by (simp add: close_socket_def)

lemma held_close:
  assumes "i < length (fd s)"
  shows "held (close_socket i s) + mset (closed (close_socket i s)) = held s + mset (closed s)"
proof (cases "fd s ! i < 0")
  case True
  then show ?thesis by (simp add: close_socket_def)
next
  case False
  then have "fd s ! i \<in># held s" using assms by (intro held_nth) auto
  with False assms show ?thesis
    by (simp add: close_socket_def held_def [of "s\<lparr>closed := _, fd := _\<rparr>"] held_update)
qed

lemma held_set:
  assumes "i < length (fd s)" and "fd s ! i < 0"
  shows "held (s\<lparr>fd := (fd s)[i := f]\<rparr>) = held s + filter_mset (\<lambda>f. 0 \<le> f) {#f#}"
  using assms by (simp add: held_def [of "s\<lparr>fd := _\<rparr>"] held_update)

lemma held_move:
  assumes "i < length (fd s)" and "j < length (fd s)" and "i \<noteq> j" and "fd s ! i < 0"
  shows "held (s\<lparr>fd := (fd s)[i := fd s ! j, j := - 1]\<rparr>) = held s"
proof -
  let ?t = "s\<lparr>fd := (fd s)[i := fd s ! j]\<rparr>"
  have "held (?t\<lparr>fd := (fd ?t)[j := - 1]\<rparr>) = held ?t - filter_mset (\<lambda>f. 0 \<le> f) {#fd s ! j#}"
    using assms held_update [of j ?t "- 1"] by (simp add: held_def [of "s\<lparr>fd := (fd s)[i := fd s ! j, j := - 1]\<rparr>"])
  then show ?thesis using held_set [OF assms(1,4), of "fd s ! j"] by simp
qed

lemma socket_step_conserves:
  "socket_step gs s t \<Longrightarrow> held t + mset (closed t) = held s + mset (closed s) + mset gs"
proof (induction rule: socket_step.induct)
  case (1 f s)
  then show ?case by (simp add: new_socket_def held_def)
next
  case (2 i s)
  then show ?case by (simp add: held_close)
next
  case (3 j s)
  let ?t = "s\<lparr>fd := (fd s)[j := - 1]\<rparr>"
  have "held (move_new j s) = held ?t + filter_mset (\<lambda>f. 0 \<le> f) {#fd s ! j#}"
    by (simp add: move_new_def held_def)
  also have "held ?t = held s - filter_mset (\<lambda>f. 0 \<le> f) {#fd s ! j#}"
    using 3 held_update [of j s "- 1"] by (simp add: held_def [of ?t])
  finally show ?case
    using 3 held_nth [of j s] by (auto simp: move_new_def)
next
  case (4 i s j)
  show ?case
  proof (cases "i = j")
    case False
    then show ?thesis
      using 4 held_move [of i "close_socket i s" j] held_close [of i s] close_nth [of i s]
      by (simp add: move_assign_def Let_def)
  qed (simp add: move_assign_def)
next
  case (5 i s f)
  then show ?case
    using held_set [of i "close_socket i s" f] held_close [of i s] close_nth [of i s]
    by (auto simp: assign_fd_def Let_def)
next
  case (6 i s)
  then show ?case by (simp add: destroy_socket_def held_close)
qed



end
