(* ===== verification/Connection.thy ===== *)
theory Connection
  imports Iproto_Writer Cs_Parser Unique_Socket
begin

text \<open>
  \<^verbatim>\<open>connection.h\<close> and \<^verbatim>\<open>connection.cpp\<close>: the network layer of the connector. A member
  function is an operation on the record of the connection's fields. The system it runs on is
  part of the record: the outcomes of the system calls to come are scripts, what the connection
  did is a trace. Callbacks are names, which the environment maps to operations, so that a
  callback may change the connection or call into it.
\<close>

section \<open>The connection's fields\<close>

datatype error_code =
    E_invalid_parameter | E_bad_call_sequence | E_getaddr_in_progress | E_system | E_getaddr | E_timeout
  | E_auth | E_closed_by_peer | E_unexpected_data | E_external | E_uncorked_data_jam | E_features

datatype socket_state = W_none | W_read | W_write | W_read_write

fun socket_state_code :: "socket_state \<Rightarrow> nat" where
  "socket_state_code W_none = 0"
| "socket_state_code W_read = 1"
| "socket_state_code W_write = 2"
| "socket_state_code W_read_write = 3"

datatype conn_state =
    Disconnected | AddressResolving | Connecting | FeaturesRequest | Authentication | Connected

text \<open>What a callback is called with. The response callback works on the field \<open>input_buffer\<close>.\<close>

datatype cb_arg = NoArg | ErrorArg string error_code u32 | ModeArg socket_state | InputArg

text \<open>
  The system. A \<^verbatim>\<open>recv\<close> finds bytes, none of them meaning the end of the stream, or fails with an
  error number; a \<^verbatim>\<open>send\<close> accepts so many bytes at most, or fails; a connection attempt gets no
  socket, or a descriptor and the error number of \<^verbatim>\<open>connect\<close>, if any. An exhausted script means
  that the socket is not ready.
\<close>

datatype recv_result = Data bytes | RecvErr int
datatype send_result = Accept nat | SendErr int
datatype connect_result = NoSocket int | Attempt int "int option"
datatype so_result = SoError int | SoFailed int

datatype 'h event = Sent bytes | SysClosed int | Called 'h cb_arg

record 'h sys =
  errno :: int
  now :: int
  recv_script :: "recv_result list"
  send_script :: "send_result list"
  connect_script :: "connect_result list"
  so_script :: "so_result list"
  trace :: "'h event list"

text \<open>The closures the queue of notifications holds: a handler of the user, or the resolver's.\<close>

type_synonym addrinfo = bytes

datatype 'h notification = UserNote 'h | Resolved "addrinfo list" | ResolveFailed string

record 'h connection =
  sock :: int
  current_cs :: string
  greeting :: bytes
  parts :: cs_parts
  reconnect_ticks :: int
  reconnect_timeout :: int
  idle_ticks :: int
  idle_timeout :: int
  input_buffer :: wtf_buffer
  receive_buffer :: wtf_buffer
  caller_idle :: bool
  last_head :: nat
  detected :: nat
  output_buffer :: wtf_buffer
  send_buffer :: wtf_buffer
  next_to_send :: nat
  request_id :: u64
  is_corked :: bool
  uncorked_size :: nat
  required_proto :: proto_id
  server_proto :: proto_id
  last_write_time :: int
  prev_watch :: socket_state
  st :: conn_state
  notifications :: "'h notification list"
  tmp_notifications :: "'h notification list"
  resolver_joinable :: bool
  error_cb :: "'h option"
  watcher_cb :: "'h option"
  notify_cb :: "'h option"
  response_cb :: "'h option"
  connected_cb :: "'h option"
  disconnected_cb :: "'h option"
  idle_cb :: "'h option"
  destruct_cb :: "'h option"
  construct_global_cb :: "'h option"
  destruct_global_cb :: "'h option"
  sys :: "'h sys"

text \<open>
  What the connection does not own: the msgpuck library and the flag it has for printing UUIDs,
  the callbacks, texts of error numbers,
  the process environment, the contents of an uninitialised local array of 64 characters, and
  how deep calls may nest.
\<close>

record 'h env =
  lib :: msgpuck
  unquote_uuid :: u32
  invoke :: "'h \<Rightarrow> cb_arg \<Rightarrow> ('h connection, unit) op"
  strerror :: "int \<Rightarrow> string"
  gai_strerror :: "int \<Rightarrow> string"
  getenv :: "string \<Rightarrow> string option"
  salt_area :: bytes
  depth :: nat

definition EAGAIN :: int where "EAGAIN = 11"
definition EINTR :: int where "EINTR = 4"
definition EINPROGRESS :: int where "EINPROGRESS = 115"
definition EAI_SYSTEM :: int where "EAI_SYSTEM = - 11"
definition GENERAL_TIMEOUT :: int where "GENERAL_TIMEOUT = 10"
definition SUN_PATH_SIZE :: nat where "SUN_PATH_SIZE = 108"

text \<open>Text of the connection string as bytes.\<close>

definition bytes_of :: "string \<Rightarrow> bytes" where
  "bytes_of s = map of_char s"

section \<open>Exceptions and callbacks\<close>

definition modify :: "('s \<Rightarrow> 's) \<Rightarrow> ('s, unit) op" where
  "modify f s = (Inr (), f s)"

definition on_sys :: "('h sys \<Rightarrow> 'h sys) \<Rightarrow> ('h connection, unit) op" where
  "on_sys f = modify (\<lambda>s. s\<lparr>sys := f (sys s)\<rparr>)"

definition log_event :: "'h event \<Rightarrow> ('h connection, unit) op" where
  "log_event e = on_sys (\<lambda>w. w\<lparr>trace := trace w @ [e]\<rparr>)"

text \<open>\<^verbatim>\<open>std::exception::what\<close>.\<close>

fun what :: "cpp_error \<Rightarrow> string" where
  "what (RuntimeError m) = m"
| "what (RangeError m) = m"
| "what (OverflowError m) = m"
| "what (InvalidArgument m) = m"
| "what (ReaderError m) = m"
| "what (LengthError m) = m"
| "what _ = []"

text \<open>Calling a callback, if it is set.\<close>

definition call_back :: "'h env \<Rightarrow> 'h \<Rightarrow> cb_arg \<Rightarrow> ('h connection, unit) op" where
  "call_back env h a = andthen (log_event (Called h a)) (invoke env h a)"

definition call_opt :: "'h env \<Rightarrow> ('h connection \<Rightarrow> 'h option) \<Rightarrow> cb_arg \<Rightarrow> ('h connection, unit) op" where
  "call_opt env cb a s = (case cb s of None \<Rightarrow> (Inr (), s) | Some h \<Rightarrow> call_back env h a s)"

definition handle_error :: "'h env \<Rightarrow> string \<Rightarrow> error_code \<Rightarrow> u32 \<Rightarrow> ('h connection, unit) op" where
  "handle_error env message internal_error db_error s =
     catching
       (call_opt env error_cb
         (ErrorArg (if errno (sys s) \<noteq> 0 \<and> message = [] then strerror env (errno (sys s)) else message)
            internal_error db_error))
       (\<lambda>e. ret ()) s"

definition watch_socket :: "'h env \<Rightarrow> socket_state \<Rightarrow> ('h connection, unit) op" where
  "watch_socket env mode =
     andthen (modify (\<lambda>s. s\<lparr>prev_watch := mode\<rparr>))
       (noexcept (call_opt env watcher_cb (ModeArg mode)))"

section \<open>Buffers\<close>

definition on_receive :: "(wtf_buffer, 'a) op \<Rightarrow> ('h connection, 'a) op" where
  "on_receive f s = (case f (receive_buffer s) of (r, b) \<Rightarrow> (r, s\<lparr>receive_buffer := b\<rparr>))"

definition on_input :: "(wtf_buffer, 'a) op \<Rightarrow> ('h connection, 'a) op" where
  "on_input f s = (case f (input_buffer s) of (r, b) \<Rightarrow> (r, s\<lparr>input_buffer := b\<rparr>))"

definition on_output :: "(wtf_buffer, 'a) op \<Rightarrow> ('h connection, 'a) op" where
  "on_output f s = (case f (output_buffer s) of (r, b) \<Rightarrow> (r, s\<lparr>output_buffer := b\<rparr>))"

definition on_send :: "(wtf_buffer, 'a) op \<Rightarrow> ('h connection, 'a) op" where
  "on_send f s = (case f (send_buffer s) of (r, b) \<Rightarrow> (r, s\<lparr>send_buffer := b\<rparr>))"

text \<open>A difference of pointers or sizes as \<^verbatim>\<open>size_t\<close>.\<close>

definition minus_size :: "nat \<Rightarrow> nat \<Rightarrow> nat" where
  "minus_size a b = nat ((int a - int b) mod 2 ^ 64)"

definition clear_receive_buffer :: "('h connection, unit) op" where
  "clear_receive_buffer =
     modify (\<lambda>s. s\<lparr>receive_buffer := clear (receive_buffer s), last_head := 0, detected := 0\<rparr>)"

definition clear_send_buffer :: "('h connection, unit) op" where
  "clear_send_buffer = modify (\<lambda>s. s\<lparr>send_buffer := clear (send_buffer s), next_to_send := 0\<rparr>)"

section \<open>Closing\<close>

text \<open>\<^verbatim>\<open>unique_socket::close\<close>, and the assignment of a freshly connected socket.\<close>

definition close_sock :: "('h connection, unit) op" where
  "close_sock s =
     (if sock s < 0 then (Inr (), s)
      else andthen (log_event (SysClosed (sock s))) (modify (\<lambda>s. s\<lparr>sock := - 1\<rparr>)) s)"

definition take_sock :: "int \<Rightarrow> ('h connection, unit) op" where
  "take_sock f = andthen close_sock (modify (\<lambda>s. s\<lparr>sock := f\<rparr>))"

definition no_proto :: proto_id where
  "no_proto = \<lparr>version = 0, auth = [], features = 0\<rparr>"

definition connection_close :: "'h env \<Rightarrow> bool \<Rightarrow> int \<Rightarrow> ('h connection, unit) op" where
  "connection_close env call_disconnect_handler autoreconnect_delay s0 = noexcept (\<lambda>s.
     let prev_async_stage = st s;
         s1 = s\<lparr>greeting := [], server_proto := no_proto, st := Disconnected, request_id := 0, idle_ticks := 0\<rparr>;
         s2 = (if 0 < autoreconnect_delay
               then s1\<lparr>reconnect_ticks := 0, reconnect_timeout := autoreconnect_delay\<rparr>
               else s1\<lparr>reconnect_ticks := - 1\<rparr>) in
     if sock s2 < 0 then (Inr (), s2)
     else
       andthen (watch_socket env W_none)
       (andthen close_sock
       (andthen (modify (\<lambda>s. s\<lparr>output_buffer := clear (output_buffer s)\<rparr>))
       (andthen clear_send_buffer
       (andthen (modify (\<lambda>s. s\<lparr>uncorked_size := 0, detected := 0\<rparr>))
       (andthen (\<lambda>s. on_receive (resize (last_head s)) s)
         (\<lambda>s. if prev_async_stage \<noteq> Connecting \<and> disconnected_cb s \<noteq> None \<and> call_disconnect_handler
              then catching (call_opt env disconnected_cb NoArg)
                     (\<lambda>e. handle_error env (what e) E_external 0) s
              else (Inr (), s))))))) s2) s0"

section \<open>Sending\<close>

definition bytes_to_send :: "'h connection \<Rightarrow> nat" where
  "bytes_to_send s = minus_size (endp (send_buffer s)) (next_to_send s) + uncorked_size s"

fun decimal :: "nat \<Rightarrow> string" where
  "decimal n = (if n < 10 then [char_of (48 + n)] else decimal (n div 10) @ [char_of (48 + n mod 10)])"

declare decimal.simps [simp del]

definition queue_report :: "string \<Rightarrow> nat \<Rightarrow> 'h connection \<Rightarrow> string" where
  "queue_report title n s =
     title @ [CHR 0x0A] @ ''current socket watch mode: '' @ decimal (socket_state_code (prev_watch s))
     @ [CHR 0x0A] @ ''bytes_to_send: '' @ decimal n
     @ [CHR 0x0A] @ ''uncorked_size: '' @ decimal (uncorked_size s)"

text \<open>\<^verbatim>\<open>send\<close>: the result of the call, the number of bytes, or -1 and \<^verbatim>\<open>errno\<close>.\<close>

definition sys_send :: "nat \<Rightarrow> ('h connection, int) op" where
  "sys_send n s =
     (case send_script (sys s) of
        [] \<Rightarrow> (Inr (- 1), s\<lparr>sys := (sys s)\<lparr>errno := EAGAIN\<rparr>\<rparr>)
      | SendErr e # rest \<Rightarrow> (Inr (- 1), s\<lparr>sys := (sys s)\<lparr>errno := e, send_script := rest\<rparr>\<rparr>)
      | Accept k # rest \<Rightarrow>
          let r = min k n; bs = take r (drop (next_to_send s) (mem (send_buffer s))) in
          if length bs < r then (Inl Overrun, s)
          else (Inr (int r), s\<lparr>sys := (sys s)\<lparr>send_script := rest, trace := trace (sys s) @ [Sent bs]\<rparr>\<rparr>))"

text \<open>
  \<^verbatim>\<open>_send_buffer\<close> is done, \<^verbatim>\<open>_output_buffer\<close> has data to send: the two change places. What is
  behind the mark of the last \<^verbatim>\<open>flush\<close> goes back to the output buffer.
\<close>

definition next_batch :: "('h connection, nat) op" where
  "next_batch s =
     (let s1 = s\<lparr>send_buffer := output_buffer s, output_buffer := clear (send_buffer s), next_to_send := 0,
                 uncorked_size := 0\<rparr>;
          n = uncorked_size s in
      if n < endp (send_buffer s1)
      then let corked_tail_size = endp (send_buffer s1) - n;
               tail = take corked_tail_size (drop n (mem (send_buffer s1))) in
           andthen (on_output (poke 0 tail))
             (andthen (on_output (resize corked_tail_size))
               (seq (on_send (resize n)) (\<lambda>_. ret n))) s1
      else (Inr n, s1))"

text \<open>
  The loop of \<^verbatim>\<open>write\<close>; the answer is how many bytes are left to send, or \<open>None\<close> after an error.
  Every round takes an outcome off the script, or is the last.
\<close>

fun send_loop :: "'h env \<Rightarrow> nat \<Rightarrow> nat \<Rightarrow> ('h connection, nat option) op" where
  "send_loop env 0 n s = (if n = 0 then (Inr (Some 0), s) else (Inl Diverged, s))"
| "send_loop env (Suc fuel) n s =
     (if n = 0 then (Inr (Some 0), s)
      else seq (sys_send n) (\<lambda>r s1.
        if r \<le> 0
        then if errno (sys s1) = EAGAIN then (Inr (Some n), s1)
             else if errno (sys s1) = EINTR then send_loop env fuel n s1
             else andthen (handle_error env [] E_system 0)
                    (andthen (connection_close env True 0)
                      (\<lambda>s2. (Inr None, s2\<lparr>reconnect_ticks := 0\<rparr>))) s1
        else
          let s2 = s1\<lparr>last_write_time := now (sys s1), next_to_send := next_to_send s1 + nat r\<rparr>;
              m = n - nat r in
          if m = 0 \<and> uncorked_size s2 \<noteq> 0
          then seq next_batch (send_loop env fuel) s2
          else send_loop env fuel m s2) s)"

text \<open>\<^verbatim>\<open>getsockopt(SO_ERROR)\<close>: the error of the connection attempt, \<open>None\<close> if the call failed.\<close>

definition sys_so_error :: "('h connection, int option) op" where
  "sys_so_error s =
     (case so_script (sys s) of
        [] \<Rightarrow> (Inr (Some 0), s)
      | SoError e # rest \<Rightarrow> (Inr (Some e), s\<lparr>sys := (sys s)\<lparr>so_script := rest\<rparr>\<rparr>)
      | SoFailed e # rest \<Rightarrow> (Inr None, s\<lparr>sys := (sys s)\<lparr>so_script := rest, errno := e\<rparr>\<rparr>))"

definition connection_write :: "'h env \<Rightarrow> ('h connection, unit) op" where
  "connection_write env s0 = noexcept (\<lambda>s.
     if st s = Connecting
     then seq sys_so_error (\<lambda>opt s1.
            if opt = Some 0 then watch_socket env W_read s1
            else
              let s2 = (case opt of None \<Rightarrow> s1 | Some e \<Rightarrow> s1\<lparr>sys := (sys s1)\<lparr>errno := e\<rparr>\<rparr>) in
              andthen (handle_error env [] E_system 0)
                (andthen (connection_close env False 0) (modify (\<lambda>s. s\<lparr>reconnect_ticks := 0\<rparr>))) s2) s
     else
       let s1 = s\<lparr>idle_ticks := 0\<rparr> in
       if endp (send_buffer s1) < next_to_send s1 then (Inl Terminated, s1)
       else
         let n = minus_size (endp (send_buffer s1)) (next_to_send s1) in
         andthen
           (if n = 0 \<and> uncorked_size s1 \<noteq> 0
            then handle_error env (queue_report ''~~~~~ wtf inside write() ?! ~~~~~'' n s1) E_system 0
            else ret ())
           (\<lambda>s2. seq (send_loop env (Suc (length (send_script (sys s2)))) n) (\<lambda>left s3.
              case left of
                None \<Rightarrow> (Inr (), s3)
              | Some k \<Rightarrow> watch_socket env (if k \<noteq> 0 then W_read_write else W_read) s3) s2) s1) s0"

definition flush :: "'h env \<Rightarrow> ('h connection, bool) op" where
  "flush env s0 = noexcept (\<lambda>s.
     if endp (output_buffer s) = 0 then (Inr True, s)
     else if minus_size (endp (send_buffer s)) (next_to_send s) = 0
     then seq (connection_write env) (\<lambda>_. ret True)
            (s\<lparr>send_buffer := output_buffer s, output_buffer := clear (send_buffer s), next_to_send := 0,
               uncorked_size := 0\<rparr>)
     else (Inr False, s\<lparr>uncorked_size := endp (output_buffer s)\<rparr>)) s0"

definition cork :: "('h connection, unit) op" where
  "cork = modify (\<lambda>s. s\<lparr>is_corked := True\<rparr>)"

definition uncork :: "'h env \<Rightarrow> ('h connection, unit) op" where
  "uncork env = seq (flush env) (\<lambda>_. modify (\<lambda>s. s\<lparr>is_corked := False\<rparr>))"

end
