(* ===== verification/Connection_Receive.thy ===== *)
theory Connection_Receive
  imports Connection Mp_Decode
begin

text \<open>
  The receiving half of \<^verbatim>\<open>connection.cpp\<close>: the detection of complete responses, the exchange that
  follows the greeting, the hand-over of responses to the caller, and \<^verbatim>\<open>read\<close>.
\<close>

unbundle bit_operations_syntax

section \<open>Detecting responses\<close>

text \<open>
  The loop that looks for the verges of responses. A round that goes on has found a response of
  at least one byte, so one round more than there are bytes is fuel enough.
\<close>

definition detect_size :: "'h env \<Rightarrow> nat \<Rightarrow> ('h connection, unit) op" where
  "detect_size env orphaned_bytes s =
     (if detected s = 0 \<and> 5 \<le> orphaned_bytes
      then (case deref (mem (receive_buffer s)) (last_head s) of
          Inl e \<Rightarrow> (Inl e, s)
        | Inr b \<Rightarrow>
            if mp_typeof (lib env) b = MP_UINT
            then (Inr (), s\<lparr>detected :=
                   (unat (fst (mp_decode_uint (lib env) (drop (last_head s) (mem (receive_buffer s))))) + 5)
                     mod 2 ^ 64\<rparr>)
            else andthen (handle_error env ''incorrect iproto message'' E_unexpected_data 0)
                   (\<lambda>s1. on_receive (resize (last_head s1)) s1) s)
      else (Inr (), s))"

fun detect_loop :: "'h env \<Rightarrow> nat \<Rightarrow> ('h connection, unit) op" where
  "detect_loop env 0 s = (Inl Diverged, s)"
| "detect_loop env (Suc fuel) s =
     (let orphaned_bytes = minus_size (endp (receive_buffer s)) (last_head s) in
      andthen (detect_size env orphaned_bytes)
        (\<lambda>s1. if detected s1 \<noteq> 0 \<and> detected s1 \<le> orphaned_bytes
              then detect_loop env fuel (s1\<lparr>last_head := (last_head s1 + detected s1) mod 2 ^ 64, detected := 0\<rparr>)
              else (Inr (), s1)) s)"

declare detect_loop.simps [simp del]

section \<open>Handing responses over\<close>

text \<open>
  \<^verbatim>\<open>pass_response_to_caller\<close> and \<^verbatim>\<open>input_processed\<close> call each other: the first argument is how deep
  the calls may still nest.
\<close>

definition split_input :: "('h connection, unit) op" where
  "split_input s =
     (let orphaned_bytes = minus_size (endp (receive_buffer s)) (last_head s);
          s1 = s\<lparr>input_buffer := receive_buffer s, receive_buffer := clear (input_buffer s)\<rparr> in
      andthen
        (if orphaned_bytes = 0 then ret ()
         else andthen (on_receive (resize orphaned_bytes))
           (\<lambda>s2. if length (mem (input_buffer s2)) < last_head s2 + orphaned_bytes then (Inl Overrun, s2)
                 else andthen
                   (on_receive (poke 0 (take orphaned_bytes (drop (last_head s2) (mem (input_buffer s2))))))
                   (on_input (\<lambda>b. resize (endp b - orphaned_bytes) b)) s2))
        (modify (\<lambda>s. s\<lparr>last_head := 0\<rparr>)) s1)"

fun pass_response_to_caller :: "nat \<Rightarrow> 'h env \<Rightarrow> ('h connection, unit) op" where
  "pass_response_to_caller 0 env s = (Inl Diverged, s)"
| "pass_response_to_caller (Suc deep) env s =
     (if last_head s = 0 then (Inr (), s)
      else andthen split_input
        (\<lambda>s1. if response_cb s1 = None
              then (Inr (), s1\<lparr>input_buffer := clear (input_buffer s1)\<rparr>)
              else catching (call_opt env response_cb InputArg)
                (\<lambda>e. andthen (handle_error env (what e) E_system 0)
                   (\<lambda>s2. pass_response_to_caller deep env (s2\<lparr>caller_idle := True\<rparr>)))
                (s1\<lparr>caller_idle := False\<rparr>)) s)"

declare pass_response_to_caller.simps [simp del]

definition input_processed :: "'h env \<Rightarrow> ('h connection, unit) op" where
  "input_processed env s = pass_response_to_caller (depth env) env (s\<lparr>caller_idle := True\<rparr>)"

section \<open>The exchange after the greeting\<close>

text \<open>
  A request composed right in the send buffer, by a writer of its own. \<^verbatim>\<open>_next_to_send\<close> was set before: when
  the buffer has to grow, it points into the block given up, and \<^verbatim>\<open>write\<close>, which follows, is lost.
\<close>

definition compose_to_send :: "(u64 iproto_writer, unit) op \<Rightarrow> ('h connection, unit) op" where
  "compose_to_send f s =
     (case f \<lparr>mpw = mp_writer (send_buffer s), ids = request_id s\<rparr> of
        (r, w) \<Rightarrow>
          (if r = Inr () \<and> capacity (buf (mpw w)) \<noteq> capacity (send_buffer s) then Inl Overrun else r,
           s\<lparr>send_buffer := buf (mpw w), request_id := ids w\<rparr>))"

text \<open>\<^verbatim>\<open>_request_id++\<close>.\<close>

definition next_request_id :: "u64 \<Rightarrow> u64 \<times> u64" where
  "next_request_id i = (i, i + 1)"

definition send_auth_request :: "'h env \<Rightarrow> ('h connection, bool) op" where
  "send_auth_request env s =
     (if user (parts s) = [] \<or> user (parts s) = ''guest'' then (Inr False, s)
      else andthen clear_receive_buffer
        (andthen (modify (\<lambda>s. s\<lparr>st := Authentication\<rparr>))
        (andthen clear_send_buffer
        (andthen (\<lambda>s. compose_to_send (encode_auth_request (lib env) next_request_id (salt_area env) (greeting s)
                          (bytes_of (user (parts s))) (bytes_of (password (parts s))) (auth (server_proto s))) s)
        (andthen (connection_write env) (ret True))))) s)"

definition set_connected :: "'h env \<Rightarrow> ('h connection, unit) op" where
  "set_connected env =
     andthen clear_receive_buffer
       (andthen (modify (\<lambda>s. s\<lparr>st := Connected, reconnect_ticks := - 1\<rparr>))
         (catching (call_opt env connected_cb NoArg) (\<lambda>e. handle_error env (what e) E_external 0)))"

text \<open>The reader of a buffer's content, and the value of a key of the map at a reader's position.\<close>

definition buffer_reader :: "wtf_buffer \<Rightarrow> mp_reader" where
  "buffer_reader b = mp_reader (mp_plain (mem b) (Some 0) (Some (endp b)))"

definition read_key :: "msgpuck \<Rightarrow> u64 \<Rightarrow> (mp_reader, mp_reader) op" where
  "read_key mp key =
     seq (read_map mp) (\<lambda>m r. (case map_at mp (equals_int mp (uint key)) (view m) of
        Inl e \<Rightarrow> (Inl e, r)
      | Inr v \<Rightarrow> (Inr (mp_reader v), r)))"

text \<open>
  The features the server lists, and its description of itself: the loops run over the readers
  of the array and of the map, and change \<open>_server_proto\<close> as they go.
\<close>

fun read_features :: "msgpuck \<Rightarrow> nat \<Rightarrow> (mp_reader \<times> u32, unit) op" where
  "read_features mp 0 (ff, w) = (Inl Diverged, (ff, w))"
| "read_features mp (Suc fuel) (ff, w) =
     (case has_next False ff of
        Inl e \<Rightarrow> (Inl e, (ff, w))
      | Inr b \<Rightarrow>
          if \<not> b then (Inr (), (ff, w))
          else (case read_int mp False 8 ff of
              (Inl e, ff') \<Rightarrow> (Inl e, (ff', w))
            | (Inr fnum, ff') \<Rightarrow>
                read_features mp fuel (ff', if nat fnum < 32 then set_feature (nat fnum) w else w)))"

definition read_proto_field :: "msgpuck \<Rightarrow> u32 \<Rightarrow> int \<Rightarrow> (mp_reader \<times> proto_id, unit) op" where
  "read_proto_field mp uq key bp =
     (let (body, p) = bp in
      if key = uint (body_key B_VERSION)
      then (case read_int mp False 64 body of
          (Inl e, b) \<Rightarrow> (Inl e, (b, p))
        | (Inr v, b) \<Rightarrow> (Inr (), (b, p\<lparr>version := word_of_int v\<rparr>)))
      else if key = uint (body_key B_AUTH_TYPE)
      then (case read_string mp uq (length (auth p)) body of
          (Inl e, b) \<Rightarrow> (Inl e, (b, p))
        | (Inr a, b) \<Rightarrow> (Inr (), (b, p\<lparr>auth := a\<rparr>)))
      else if key = uint (body_key B_FEATURES)
      then (case read_array mp body of
          (Inl e, b) \<Rightarrow> (Inl e, (b, p))
        | (Inr ff, b) \<Rightarrow>
            (case read_features mp (length (vmem (view ff)) + 1) (ff, features p) of
               (r, (_, w)) \<Rightarrow> (r, (b, p\<lparr>features := w\<rparr>))))
      else (case skip mp body of (r, b) \<Rightarrow> (r, (b, p))))"

fun read_proto :: "msgpuck \<Rightarrow> u32 \<Rightarrow> nat \<Rightarrow> (mp_reader \<times> proto_id, unit) op" where
  "read_proto mp uq 0 bp = (Inl Diverged, bp)"
| "read_proto mp uq (Suc fuel) bp =
     (case has_next False (fst bp) of
        Inl e \<Rightarrow> (Inl e, bp)
      | Inr b \<Rightarrow>
          if \<not> b then (Inr (), bp)
          else (case read_int mp False 32 (fst bp) of
              (Inl e, body) \<Rightarrow> (Inl e, (body, snd bp))
            | (Inr key, body) \<Rightarrow> andthen (read_proto_field mp uq key) (read_proto mp uq fuel) (body, snd bp)))"

definition read_server_proto :: "msgpuck \<Rightarrow> u32 \<Rightarrow> mp_reader \<Rightarrow> ('h connection, unit) op" where
  "read_server_proto mp uq response s =
     (case read_map mp response of
        (Inl e, _) \<Rightarrow> (Inl e, s)
      | (Inr body, _) \<Rightarrow>
          (case read_proto mp uq (length (vmem (view body)) + 1) (body, server_proto s) of
             (r, (_, p)) \<Rightarrow> (r, s\<lparr>server_proto := p\<rparr>)))"

text \<open>
  The body of the \<^verbatim>\<open>try\<close> block of \<^verbatim>\<open>process_receive_buffer\<close>: the answer is whether it has returned,
  or the connection is to be closed. \<open>response\<close> stands behind the header.
\<close>

definition on_response_code :: "'h env \<Rightarrow> u32 \<Rightarrow> mp_reader \<Rightarrow> ('h connection, bool) op" where
  "on_response_code env code response s =
     (if code = 0
      then
        andthen (if st s = FeaturesRequest then read_server_proto (lib env) (unquote_uuid env) response else ret ())
          (\<lambda>s1. if st s = FeaturesRequest
            then seq (send_auth_request env)
                   (\<lambda>sent. if sent then ret True else andthen (set_connected env) (ret True)) s1
            else andthen (set_connected env) (ret True) s1) s
      else
        let code' = code AND 0x7fff in
        if st s = FeaturesRequest \<and> code' = 0x30
        then seq (send_auth_request env)
               (\<lambda>sent. if sent then ret True else andthen (set_connected env) (ret True)) s
        else (case read_key (lib env) (response_key IPROTO_ERROR_24) response of
            (Inl e, _) \<Rightarrow> (Inl e, s)
          | (Inr r, _) \<Rightarrow>
              (case to_string (lib env) 0 r of
                 (Inl e, _) \<Rightarrow> (Inl e, s)
               | (Inr text, _) \<Rightarrow>
                   andthen (handle_error env text (if st s = FeaturesRequest then E_features else E_auth) code')
                     (ret False) s)))"

definition process_login :: "'h env \<Rightarrow> ('h connection, bool) op" where
  "process_login env s =
     (case iproto_message (lib env) (buffer_reader (receive_buffer s)) of
        (Inl e, _) \<Rightarrow> (Inl e, s)
      | (Inr response, _) \<Rightarrow>
          (case read_key (lib env) (header_key H_CODE) response of
             (Inl e, _) \<Rightarrow> (Inl e, s)
           | (Inr r, response') \<Rightarrow>
               (case read_int (lib env) False 32 r of
                  (Inl e, _) \<Rightarrow> (Inl e, s)
                | (Inr code, _) \<Rightarrow> on_response_code env (word_of_int code) response' s)))"

fun is_reader_error :: "cpp_error \<Rightarrow> bool" where
  "is_reader_error (ReaderError _) = True"
| "is_reader_error _ = False"

definition process_receive_buffer :: "'h env \<Rightarrow> ('h connection, unit) op" where
  "process_receive_buffer env s0 =
     andthen (detect_loop env (Suc (endp (receive_buffer s0))))
       (\<lambda>s. if last_head s = 0 then (Inr (), s)
            else if st s = FeaturesRequest \<or> st s = Authentication
            then
              seq (catching (process_login env)
                    (\<lambda>e. andthen (handle_error env (what e)
                                   (if is_reader_error e then E_unexpected_data else E_system) 0)
                           (ret False)))
                (\<lambda>returned. if returned then ret ()
                   else andthen clear_receive_buffer
                     (andthen (connection_close env False 0)
                       (modify (\<lambda>s. s\<lparr>reconnect_ticks := 0\<rparr>)))) s
            else if caller_idle s then pass_response_to_caller (depth env) env s
            else (Inr (), s)) s0"

section \<open>Reading from the socket\<close>

text \<open>
  \<^verbatim>\<open>recv\<close> into the room behind the content. A request for no bytes at all is answered with 0, like
  the end of the stream.
\<close>

definition sys_recv :: "nat \<Rightarrow> ('h connection, int) op" where
  "sys_recv n s =
     (case recv_script (sys s) of
        [] \<Rightarrow> (Inr (- 1), s\<lparr>sys := (sys s)\<lparr>errno := EAGAIN\<rparr>\<rparr>)
      | RecvErr e # rest \<Rightarrow> (Inr (- 1), s\<lparr>sys := (sys s)\<lparr>errno := e, recv_script := rest\<rparr>\<rparr>)
      | Data bs # rest \<Rightarrow>
          if n = 0 then (Inr 0, s)
          else
            let got = take n bs;
                s1 = s\<lparr>sys := (sys s)\<lparr>recv_script := (if length bs \<le> n then rest else Data (drop n bs) # rest)\<rparr>\<rparr> in
            if capacity (receive_buffer s) < endp (receive_buffer s) + length got then (Inl Overrun, s)
            else (Inr (int (length got)),
              s1\<lparr>receive_buffer := (receive_buffer s)
                \<lparr>mem := overwrite (endp (receive_buffer s)) got (mem (receive_buffer s))\<rparr>\<rparr>))"

text \<open>At least a kilobyte of room, or half the capacity more.\<close>

definition make_room :: "('h connection, nat) op" where
  "make_room s =
     (let buf_capacity = capacity (receive_buffer s);
          rest = minus_size buf_capacity (endp (receive_buffer s)) in
      if rest < 1024
      then andthen (on_receive (reserve (buf_capacity * 3 div 2)))
             (\<lambda>s1. (Inr (minus_size (capacity (receive_buffer s1)) (endp (receive_buffer s1))), s1)) s
      else (Inr rest, s))"

definition recv_weight :: "recv_result list \<Rightarrow> nat" where
  "recv_weight rs = sum_list (map (\<lambda>r. case r of Data bs \<Rightarrow> length bs + 1 | RecvErr _ \<Rightarrow> 1) rs)"

text \<open>The loop of \<^verbatim>\<open>read\<close>: whether to go on with what was received.\<close>

fun recv_loop :: "'h env \<Rightarrow> nat \<Rightarrow> ('h connection, bool) op" where
  "recv_loop env 0 s = (Inl Diverged, s)"
| "recv_loop env (Suc fuel) s =
     seq make_room (\<lambda>rest. seq (sys_recv rest) (\<lambda>r s1.
       let give_up = andthen (connection_close env True 0)
             (\<lambda>s2. (Inr False, s2\<lparr>reconnect_ticks := 0\<rparr>)) in
       if r = 0
       then andthen (handle_error env ''connection closed by peer'' E_closed_by_peer 0) give_up s1
       else if r < 0
       then if errno (sys s1) = EAGAIN then (Inr True, s1)
            else if errno (sys s1) = EINTR then recv_loop env fuel s1
            else andthen (handle_error env [] E_system 0) give_up s1
       else seq (on_receive (advance (nat r))) (\<lambda>_. recv_loop env fuel) s1)) s"

declare recv_loop.simps [simp del]

definition connection_read :: "'h env \<Rightarrow> ('h connection, unit) op" where
  "connection_read env s =
     (if sock s < 0 then (Inr (), s)
      else seq (recv_loop env (Suc (recv_weight (recv_script (sys s))))) (\<lambda>go_on s1.
        if \<not> go_on then (Inr (), s1)
        else if st s1 = Connecting
        then
          if endp (receive_buffer s1) < GREETING_SIZE then (Inr (), s1)
          else
            andthen (modify (\<lambda>s. s\<lparr>greeting := content (receive_buffer s)\<rparr>))
            (andthen clear_receive_buffer
            (andthen (modify (\<lambda>s. s\<lparr>st := FeaturesRequest\<rparr>))
            (andthen clear_send_buffer
            (andthen (\<lambda>s. compose_to_send (encode_id_request (lib env) next_request_id (required_proto s)) s)
              (connection_write env))))) s1
        else process_receive_buffer env s1) (s\<lparr>idle_ticks := 0\<rparr>))"

end
