(* ===== verification/Connection_Control.thy ===== *)
theory Connection_Control
  imports Connection_Receive
begin

text \<open>
  The rest of \<^verbatim>\<open>connection.cpp\<close>: opening a connection, the resolver's answers, timeouts, the queue of
  notifications, construction and destruction, and the settings.
\<close>

section \<open>Construction and settings\<close>

definition default_proto :: proto_id where
  "default_proto = proto_id [ERROR_EXTENSION] 0 (bytes_of ''chap-sha1'')"

definition fresh_buffer :: wtf_buffer where
  "fresh_buffer = buf_of_size 1048576"

definition new_connection ::
  "'h env \<Rightarrow> string \<Rightarrow> 'h option \<Rightarrow> 'h option \<Rightarrow> 'h sys \<Rightarrow> unit result \<times> 'h connection" where
  "new_connection env connection_string on_construct on_destruct w =
     call_opt env construct_global_cb NoArg
       \<lparr>sock = - 1, current_cs = connection_string, greeting = [], parts = no_parts,
        reconnect_ticks = - 1, reconnect_timeout = GENERAL_TIMEOUT, idle_ticks = - 1, idle_timeout = - 1,
        input_buffer = fresh_buffer, receive_buffer = fresh_buffer, caller_idle = True, last_head = 0,
        detected = 0, output_buffer = fresh_buffer, send_buffer = fresh_buffer, next_to_send = 0,
        request_id = 0, is_corked = False, uncorked_size = 0, required_proto = default_proto,
        server_proto = no_proto, last_write_time = 0, prev_watch = W_none, st = Disconnected,
        notifications = [], tmp_notifications = [], resolver_joinable = False, error_cb = None,
        watcher_cb = None, notify_cb = None, response_cb = None, connected_cb = None,
        disconnected_cb = None, idle_cb = None, destruct_cb = None, construct_global_cb = on_construct,
        destruct_global_cb = on_destruct, sys = w\<rparr>"

definition destroy_connection :: "'h env \<Rightarrow> ('h connection, unit) op" where
  "destroy_connection env =
     andthen (connection_close env True 0)
       (andthen (modify (\<lambda>s. s\<lparr>resolver_joinable := False\<rparr>))
         (catching
           (\<lambda>s. if destruct_cb s \<noteq> None then call_opt env destruct_cb NoArg s
                else call_opt env destruct_global_cb NoArg s)
           (\<lambda>e. handle_error env (what e) E_external 0)))"

definition set_connection_string :: "string \<Rightarrow> ('h connection, unit) op" where
  "set_connection_string cs s =
     (if st s \<noteq> Disconnected
      then (Inl (RuntimeError ''unable to reset connection string on busy connection''), s)
      else (Inr (), s\<lparr>current_cs := cs\<rparr>))"

definition set_required_proto :: "proto_id \<Rightarrow> ('h connection, unit) op" where
  "set_required_proto p = modify (\<lambda>s. s\<lparr>required_proto := p\<rparr>)"

definition socket_handle :: "'h connection \<Rightarrow> int" where
  "socket_handle s = sock s"

definition last_request_id :: "'h connection \<Rightarrow> u64" where
  "last_request_id s = request_id s - 1"

definition is_opened :: "'h connection \<Rightarrow> bool" where
  "is_opened s \<longleftrightarrow> st s = Connected"

definition is_closed :: "'h connection \<Rightarrow> bool" where
  "is_closed s \<longleftrightarrow> st s = Disconnected"

definition on_opened :: "'h option \<Rightarrow> ('h connection, unit) op" where
  "on_opened h = modify (\<lambda>s. s\<lparr>connected_cb := h\<rparr>)"

definition on_closed :: "'h option \<Rightarrow> ('h connection, unit) op" where
  "on_closed h = modify (\<lambda>s. s\<lparr>disconnected_cb := h\<rparr>)"

definition on_idle :: "int \<Rightarrow> 'h option \<Rightarrow> ('h connection, unit) op" where
  "on_idle timeout_sec h = modify (\<lambda>s. s\<lparr>idle_timeout := timeout_sec, idle_cb := h\<rparr>)"

definition on_error :: "'h option \<Rightarrow> ('h connection, unit) op" where
  "on_error h = modify (\<lambda>s. s\<lparr>error_cb := h\<rparr>)"

definition on_socket_watcher_request :: "'h option \<Rightarrow> ('h connection, unit) op" where
  "on_socket_watcher_request h = modify (\<lambda>s. s\<lparr>watcher_cb := h\<rparr>)"

definition on_response :: "'h option \<Rightarrow> ('h connection, unit) op" where
  "on_response h = modify (\<lambda>s. s\<lparr>response_cb := h\<rparr>)"

definition on_notify_request :: "'h option \<Rightarrow> ('h connection, unit) op" where
  "on_notify_request h = modify (\<lambda>s. s\<lparr>notify_cb := h\<rparr>)"

definition on_destruct :: "'h option \<Rightarrow> ('h connection, unit) op" where
  "on_destruct h = modify (\<lambda>s. s\<lparr>destruct_cb := h\<rparr>)"

section \<open>Connecting\<close>

text \<open>\<^verbatim>\<open>socket\<close> and the \<^verbatim>\<open>connect\<close> that follows it: a descriptor and the error of the attempt.\<close>

definition sys_connect :: "('h connection, (int \<times> int option) option) op" where
  "sys_connect s =
     (case connect_script (sys s) of
        [] \<Rightarrow> (Inr None, s\<lparr>sys := (sys s)\<lparr>errno := EAGAIN\<rparr>\<rparr>)
      | NoSocket e # rest \<Rightarrow> (Inr None, s\<lparr>sys := (sys s)\<lparr>errno := e, connect_script := rest\<rparr>\<rparr>)
      | Attempt f None # rest \<Rightarrow> (Inr (Some (f, None)), s\<lparr>sys := (sys s)\<lparr>connect_script := rest\<rparr>\<rparr>)
      | Attempt f (Some e) # rest \<Rightarrow>
          (Inr (Some (f, Some e)), s\<lparr>sys := (sys s)\<lparr>errno := e, connect_script := rest\<rparr>\<rparr>))"

text \<open>
  An attempt on a socket that was obtained; \<open>pending\<close> is the error number that means that the
  connection is being established. The answer is whether the attempt failed. A socket not kept is
  closed by the destructor of its \<^verbatim>\<open>unique_socket\<close>.
\<close>

definition try_connect :: "'h env \<Rightarrow> int \<Rightarrow> int \<Rightarrow> int option \<Rightarrow> ('h connection, bool) op" where
  "try_connect env pending f err =
     andthen (modify (\<lambda>s. s\<lparr>st := Connecting\<rparr>))
       (case err of
          None \<Rightarrow> andthen (take_sock f) (andthen (watch_socket env W_read) (ret False))
        | Some e \<Rightarrow>
            if e = pending
            then andthen (take_sock f)
                   (andthen (watch_socket env W_write)
                     (andthen (modify (\<lambda>s. s\<lparr>reconnect_ticks := 0\<rparr>)) (ret False)))
            else andthen (handle_error env [] E_system 0)
                   (andthen (connection_close env False 0)
                     (andthen (log_event (SysClosed f)) (ret True))))"

text \<open>The loop over the addresses: it goes on only when no socket was to be had.\<close>

fun try_addresses :: "'h env \<Rightarrow> addrinfo list \<Rightarrow> ('h connection, unit) op" where
  "try_addresses env [] = modify (\<lambda>s. s\<lparr>st := Disconnected, reconnect_ticks := 0\<rparr>)"
| "try_addresses env (addr # more_addrs) =
     seq sys_connect (\<lambda>r.
       case r of
         None \<Rightarrow> andthen (handle_error env [] E_system 0) (try_addresses env more_addrs)
       | Some (f, err) \<Rightarrow>
           seq (try_connect env EINPROGRESS f err) (\<lambda>failed.
             if failed then modify (\<lambda>s. s\<lparr>st := Disconnected, reconnect_ticks := 0\<rparr>) else ret ()))"

definition address_resolved :: "'h env \<Rightarrow> addrinfo list \<Rightarrow> ('h connection, unit) op" where
  "address_resolved env addr_info s =
     (if st s \<noteq> AddressResolving then (Inr (), s) else try_addresses env addr_info s)"

text \<open>\<^verbatim>\<open>open\<close> for a socket path: the path is copied into an array of fixed size.\<close>

definition open_unix :: "'h env \<Rightarrow> ('h connection, unit) op" where
  "open_unix env =
     seq sys_connect (\<lambda>r s.
       case r of
         None \<Rightarrow> handle_error env [] E_system 0 s
       | Some (f, err) \<Rightarrow>
           if SUN_PATH_SIZE < length (unix_socket_path (parts s)) then (Inl Overrun, s)
           else seq (try_connect env EAGAIN f err) (\<lambda>failed.
             if failed then modify (\<lambda>s. s\<lparr>reconnect_ticks := 0\<rparr>) else ret ()) s)"

definition connection_open :: "'h env \<Rightarrow> int \<Rightarrow> ('h connection, unit) op" where
  "connection_open env delay s =
     (if st s = Connected then (Inr (), s)
      else if st s \<noteq> Disconnected
      then handle_error env ''unable to connect, connection is busy'' E_bad_call_sequence 0 s
      else if 0 < delay then (Inr (), s\<lparr>reconnect_ticks := 0, reconnect_timeout := delay\<rparr>)
      else if resolver_joinable s
      then handle_error env ''address resolver is still in progress'' E_getaddr_in_progress 0 s
      else
        let s1 = s\<lparr>reconnect_timeout := GENERAL_TIMEOUT, reconnect_ticks := - 1\<rparr> in
        case parse_cs (getenv env) (current_cs s1) of
          None \<Rightarrow> (Inl Diverged, s1)
        | Some p \<Rightarrow>
            let s2 = s1\<lparr>parts := p\<rparr> in
            if host p \<noteq> [] then (Inr (), s2\<lparr>st := AddressResolving, resolver_joinable := True\<rparr>)
            else if unix_socket_path p \<noteq> [] then open_unix env s2
            else handle_error env ''incorrect connection string'' E_invalid_parameter 0 s2)"

section \<open>Notifications\<close>

definition push_handler :: "'h env \<Rightarrow> 'h \<Rightarrow> ('h connection, unit) op" where
  "push_handler env h =
     andthen (modify (\<lambda>s. s\<lparr>notifications := notifications s @ [UserNote h]\<rparr>)) (call_opt env notify_cb NoArg)"

text \<open>
  The end of the resolver's thread: \<open>res\<close> and \<open>ai\<close> are what \<^verbatim>\<open>getaddrinfo\<close> gave, \<open>err\<close> the thread's
  own \<^verbatim>\<open>errno\<close>.
\<close>

definition resolver_note :: "'h env \<Rightarrow> int \<Rightarrow> addrinfo list \<Rightarrow> int \<Rightarrow> 'h notification" where
  "resolver_note env res ai err =
     (if res = 0 \<and> ai \<noteq> [] then Resolved ai
      else ResolveFailed (if res = EAI_SYSTEM then strerror env err else gai_strerror env res))"

definition resolver_done :: "'h env \<Rightarrow> int \<Rightarrow> addrinfo list \<Rightarrow> int \<Rightarrow> ('h connection, unit) op" where
  "resolver_done env res ai err =
     andthen (modify (\<lambda>s. s\<lparr>notifications := notifications s @ [resolver_note env res ai err]\<rparr>))
       (call_opt env notify_cb NoArg)"

fun run_note :: "'h env \<Rightarrow> 'h notification \<Rightarrow> ('h connection, unit) op" where
  "run_note env (UserNote h) = call_back env h NoArg"
| "run_note env (Resolved ai) =
     andthen (modify (\<lambda>s. s\<lparr>resolver_joinable := False\<rparr>)) (address_resolved env ai)"
| "run_note env (ResolveFailed m) =
     andthen (modify (\<lambda>s. s\<lparr>resolver_joinable := False, st := Disconnected\<rparr>))
       (andthen (handle_error env m E_getaddr 0) (modify (\<lambda>s. s\<lparr>reconnect_ticks := 0\<rparr>)))"

definition acquire_notifications :: "'h env \<Rightarrow> ('h connection, unit) op" where
  "acquire_notifications env s =
     andthen (modify (\<lambda>s. s\<lparr>notifications := tmp_notifications s, tmp_notifications := notifications s\<rparr>))
       (andthen (for_each (run_note env) (notifications s))
         (modify (\<lambda>s. s\<lparr>tmp_notifications := []\<rparr>))) s"

section \<open>Timeouts\<close>

definition unstick :: "'h env \<Rightarrow> ('h connection, unit) op" where
  "unstick env s =
     (if uncorked_size s \<noteq> 0 \<and> 10 < now (sys s) - last_write_time s
      then andthen
             (handle_error env
               (queue_report ''~~~~~ uncorked data is stuck! ~~~~~''
                 (minus_size (endp (send_buffer s)) (next_to_send s)) s) E_uncorked_data_jam 0)
             (seq (flush env) (\<lambda>_. ret ())) s
      else (Inr (), s))"

definition tick_1sec :: "'h env \<Rightarrow> ('h connection, unit) op" where
  "tick_1sec env s0 = noexcept (\<lambda>s.
     let s1 = (if 0 \<le> reconnect_ticks s then s\<lparr>reconnect_ticks := reconnect_ticks s + 1\<rparr> else s) in
     if 0 \<le> reconnect_ticks s \<and> reconnect_timeout s1 \<le> reconnect_ticks s1
     then
       if st s1 = Disconnected then connection_open env 0 s1
       else andthen (connection_close env True 0)
              (andthen (handle_error env ''timeout expired'' E_timeout 0)
                (modify (\<lambda>s. s\<lparr>reconnect_ticks := 0\<rparr>))) s1
     else if is_opened s1
     then andthen (unstick env)
            (\<lambda>s2. let s3 = s2\<lparr>idle_ticks := idle_ticks s2 + 1\<rparr> in
               if idle_timeout s3 \<le> idle_ticks s3 \<and> idle_cb s3 \<noteq> None
               then andthen (call_opt env idle_cb NoArg) (modify (\<lambda>s. s\<lparr>idle_ticks := 0\<rparr>)) s3
               else (Inr (), s3)) s1
     else (Inr (), s1)) s0"

end
