(* ===== verification/Connection_Laws.thy ===== *)
theory Connection_Laws
  imports Connection_Control
begin

text \<open>
  How operations of a connection are reasoned about: conditions on the outcome of an operation,
  computed backwards through the constructs operations are built with; what is asked of
  callbacks; and what closing, sending, and receiving keep of the connection's state.
\<close>

section \<open>Conditions on outcomes\<close>

text \<open>The normal result satisfies one condition, the exceptional one another.\<close>

definition outcome :: "('a \<Rightarrow> 's \<Rightarrow> bool) \<Rightarrow> (cpp_error \<Rightarrow> 's \<Rightarrow> bool) \<Rightarrow> 'a result \<times> 's \<Rightarrow> bool" where
  "outcome Q E r \<longleftrightarrow> (case r of (Inr x, t) \<Rightarrow> Q x t | (Inl e, t) \<Rightarrow> E e t)"

named_theorems outcome_simps \<open>conditions on composed operations\<close>

lemma outcome_result [outcome_simps, simp]:
  "outcome Q E (Inr x, t) = Q x t" "outcome Q E (Inl e, t) = E e t"
  by (simp_all add: outcome_def)

lemma outcome_seq [outcome_simps]:
  "outcome Q E (seq f g s) = outcome (\<lambda>x t. outcome Q E (g x t)) E (f s)"
  by (simp add: outcome_def seq_def split: prod.splits sum.splits)

lemma outcome_andthen [outcome_simps]:
  "outcome Q E (andthen f g s) = outcome (\<lambda>_ t. outcome Q E (g t)) E (f s)"
  by (simp add: andthen_def outcome_seq)

lemma outcome_modify [outcome_simps]: "outcome Q E (modify f s) = Q () (f s)"
  by (simp add: modify_def)

lemma outcome_catching [outcome_simps]:
  "outcome Q E (catching f h s) = outcome Q (\<lambda>e t. if fatal e then E e t else outcome Q E (h e t)) (f s)"
  by (simp add: outcome_def catching_def split: prod.splits sum.splits)

lemma outcome_noexcept [outcome_simps]:
  "outcome Q E (noexcept f s) = outcome Q (\<lambda>e t. if fatal e then E e t else E Terminated t) (f s)"
  by (simp add: noexcept_def outcome_catching)

lemma outcome_if [outcome_simps]:
  "outcome Q E (if b then r else r') = (if b then outcome Q E r else outcome Q E r')"
  by simp

lemma outcome_conseq:
  assumes "outcome Q E r" and "\<And>x t. Q x t \<Longrightarrow> Q' x t" and "\<And>e t. E e t \<Longrightarrow> E' e t"
  shows "outcome Q' E' r"
  using assms by (auto simp: outcome_def split: prod.splits sum.splits)

lemma outcome_conj:
  assumes "outcome Q E r" and "outcome Q' E' r"
  shows "outcome (\<lambda>x t. Q x t \<and> Q' x t) (\<lambda>e t. E e t \<and> E' e t) r"
  using assms by (auto simp: outcome_def split: prod.splits sum.splits)

lemma outcome_Inr: "outcome Q (\<lambda>_ _. False) r \<Longrightarrow> \<exists>x t. r = (Inr x, t) \<and> Q x t"
  by (cases r) (auto simp: outcome_def split: sum.splits)

text \<open>No exception at all, and an exception that leaves the condition intact.\<close>

abbreviation firm :: "('s \<Rightarrow> bool) \<Rightarrow> 'a result \<times> 's \<Rightarrow> bool" where
  "firm P r \<equiv> outcome (\<lambda>_. P) (\<lambda>_ _. False) r"

abbreviation keeps :: "('s \<Rightarrow> bool) \<Rightarrow> 'a result \<times> 's \<Rightarrow> bool" where
  "keeps P r \<equiv> outcome (\<lambda>_. P) (\<lambda>e t. \<not> fatal e \<and> P t) r"

lemma firm_then: "firm P r \<Longrightarrow> (\<And>x t. P t \<Longrightarrow> Q x t) \<Longrightarrow> outcome Q E r"
  by (erule outcome_conseq) auto

lemma keeps_then:
  "keeps P r \<Longrightarrow> (\<And>x t. P t \<Longrightarrow> Q x t) \<Longrightarrow> (\<And>e t. \<not> fatal e \<Longrightarrow> P t \<Longrightarrow> E e t) \<Longrightarrow> outcome Q E r"
  by (erule outcome_conseq) auto

lemma firm_keeps: "firm P r \<Longrightarrow> keeps P r"
  by (erule firm_then)

section \<open>Callbacks\<close>

text \<open>
  A condition that does not depend on the log of callback calls, and callbacks that keep it. The
  watcher's callback is declared \<^verbatim>\<open>noexcept\<close>.
\<close>

definition logged :: "'h event \<Rightarrow> 'h connection \<Rightarrow> 'h connection" where
  "logged e s = s\<lparr>sys := (sys s)\<lparr>trace := trace (sys s) @ [e]\<rparr>\<rparr>"

definition indifferent :: "('h connection \<Rightarrow> bool) \<Rightarrow> bool" where
  "indifferent P \<longleftrightarrow> (\<forall>s h a. P s \<longrightarrow> P (logged (Called h a) s))"

definition tame :: "'h env \<Rightarrow> ('h connection \<Rightarrow> bool) \<Rightarrow> bool" where
  "tame env P \<longleftrightarrow> indifferent P
     \<and> (\<forall>h a s. P s \<longrightarrow> keeps P (invoke env h a s) \<and> (\<forall>m. a = ModeArg m \<longrightarrow> firm P (invoke env h a s)))"

lemma log_event_apply [outcome_simps]: "log_event e s = (Inr (), logged e s)"
  by (simp add: log_event_def on_sys_def modify_def logged_def)

lemma tame_log: "tame env P \<Longrightarrow> P s \<Longrightarrow> firm P (log_event (Called h a) s)"
  by (auto simp: tame_def indifferent_def outcome_simps)

lemma tame_call_back: "tame env P \<Longrightarrow> P s \<Longrightarrow> keeps P (call_back env h a s)"
  unfolding call_back_def outcome_andthen
  by (rule firm_then [OF tame_log [of env P]]) (auto simp: tame_def)

lemma tame_call: "tame env P \<Longrightarrow> P s \<Longrightarrow> keeps P (call_opt env cb a s)"
  by (auto simp: call_opt_def tame_call_back split: option.splits)

lemma tame_handle_error: "tame env P \<Longrightarrow> P s \<Longrightarrow> firm P (handle_error env m c d s)"
  unfolding handle_error_def outcome_simps
  by (rule keeps_then [OF tame_call [of env P]]) (auto simp: outcome_simps ret_def)

lemma tame_watch:
  assumes "tame env P" and p: "P (s\<lparr>prev_watch := m\<rparr>)"
  shows "firm P (watch_socket env m s)"
proof (cases "watcher_cb (s\<lparr>prev_watch := m\<rparr>)")
  case None
  with p show ?thesis by (simp add: watch_socket_def outcome_simps call_opt_def)
next
  case (Some h)
  have "firm P (call_back env h (ModeArg m) (s\<lparr>prev_watch := m\<rparr>))"
    unfolding call_back_def outcome_andthen
    using assms(1) by (intro firm_then [OF tame_log [OF assms(1) p]]) (auto simp: tame_def)
  with Some show ?thesis
    by (auto simp: watch_socket_def outcome_simps call_opt_def elim: firm_then)
qed

lemma tame_catching:
  "tame env P \<Longrightarrow> P s \<Longrightarrow> firm P (catching (call_opt env cb a) (\<lambda>e. handle_error env (what e) c d) s)"
  unfolding outcome_simps
  by (rule keeps_then [OF tame_call [of env P]]) (auto intro: tame_handle_error)

text \<open>
  All of a connection but the log of callback calls, and callbacks that do not touch it: they
  may throw, and act on the world outside.
\<close>

fun is_io :: "'h event \<Rightarrow> bool" where
  "is_io (Called _ _) = False"
| "is_io _ = True"

definition core :: "'h connection \<Rightarrow> 'h connection" where
  "core s = s\<lparr>sys := (sys s)\<lparr>trace := filter is_io (trace (sys s))\<rparr>\<rparr>"

definition quiet :: "'h env \<Rightarrow> bool" where
  "quiet env \<longleftrightarrow> (\<forall>u. tame env (\<lambda>s. core s = core u))"

lemma quiet_tame: "quiet env \<Longrightarrow> tame env (\<lambda>s. core s = core u)"
  by (simp add: quiet_def)

lemma quiet_call: "quiet env \<Longrightarrow> keeps (\<lambda>t. core t = core s) (call_opt env cb a s)"
  by (rule tame_call [OF quiet_tame]) simp_all

lemma quiet_handle_error: "quiet env \<Longrightarrow> firm (\<lambda>t. core t = core s) (handle_error env m c d s)"
  by (rule tame_handle_error [OF quiet_tame]) simp_all

lemma quiet_watch: "quiet env \<Longrightarrow> firm (\<lambda>t. core t = core (s\<lparr>prev_watch := m\<rparr>)) (watch_socket env m s)"
  by (rule tame_watch [OF quiet_tame]) simp_all

lemma quiet_catching:
  "quiet env \<Longrightarrow> firm (\<lambda>t. core t = core s) (catching (call_opt env cb a) (\<lambda>e. handle_error env (what e) c d) s)"
  by (rule tame_catching [OF quiet_tame]) simp_all

section \<open>The outgoing side\<close>

text \<open>
  The bytes that went out, and the bytes that are still to go, in order.
\<close>

definition sent_bytes :: "'h connection \<Rightarrow> bytes" where
  "sent_bytes s = concat (map (\<lambda>e. case e of Sent bs \<Rightarrow> bs | _ \<Rightarrow> []) (trace (sys s)))"

definition pending :: "'h connection \<Rightarrow> bytes" where
  "pending s = drop (next_to_send s) (content (send_buffer s)) @ content (output_buffer s)"

text \<open>
  The outgoing buffers are well formed, the cursor and the mark lie in them, and what the output
  buffer holds would also fit the send buffer. Data are marked only while older data are still
  on their way.
\<close>

definition out_wf :: "'h connection \<Rightarrow> bool" where
  "out_wf s \<longleftrightarrow> wf_buf (send_buffer s) \<and> growable (send_buffer s)
     \<and> wf_buf (output_buffer s) \<and> growable (output_buffer s)
     \<and> next_to_send s \<le> endp (send_buffer s) \<and> uncorked_size s \<le> endp (output_buffer s)
     \<and> endp (output_buffer s) \<le> capacity (send_buffer s)
     \<and> endp (send_buffer s) < 2 ^ 64 \<and> endp (output_buffer s) < 2 ^ 64"

definition out_ok :: "'h connection \<Rightarrow> bool" where
  "out_ok s \<longleftrightarrow> out_wf s \<and> (uncorked_size s \<noteq> 0 \<longrightarrow> next_to_send s < endp (send_buffer s))"

definition in_ok :: "'h connection \<Rightarrow> bool" where
  "in_ok s \<longleftrightarrow> wf_buf (receive_buffer s) \<and> growable (receive_buffer s)
     \<and> wf_buf (input_buffer s) \<and> growable (input_buffer s)
     \<and> last_head s \<le> endp (receive_buffer s)"

text \<open>What is the same in connections that differ in the log of callback calls only.\<close>

definition io_trace :: "'h connection \<Rightarrow> 'h event list" where
  "io_trace s = filter is_io (trace (sys s))"

lemma sent_bytes_io:
  fixes s :: "'a connection"
  shows "sent_bytes s = concat (map (\<lambda>e. case e of Sent bs \<Rightarrow> bs | _ \<Rightarrow> []) (io_trace s))"
proof -
  have "concat (map (\<lambda>e. case e of Sent bs \<Rightarrow> bs | _ \<Rightarrow> []) (filter is_io es))
      = concat (map (\<lambda>e. case e of Sent bs \<Rightarrow> bs | _ \<Rightarrow> []) es)" for es :: "'a event list"
    by (induction es) (auto split: event.splits)
  then show ?thesis by (simp add: sent_bytes_def io_trace_def)
qed

lemma core_fields:
  assumes "core t = core s"
  shows "sock t = sock s" "st t = st s" "greeting t = greeting s" "request_id t = request_id s"
    "reconnect_ticks t = reconnect_ticks s" "reconnect_timeout t = reconnect_timeout s"
    "idle_ticks t = idle_ticks s" "send_buffer t = send_buffer s" "output_buffer t = output_buffer s"
    "receive_buffer t = receive_buffer s" "input_buffer t = input_buffer s"
    "next_to_send t = next_to_send s" "uncorked_size t = uncorked_size s" "last_head t = last_head s"
    "detected t = detected s" "caller_idle t = caller_idle s" "prev_watch t = prev_watch s"
    "server_proto t = server_proto s" "parts t = parts s" "disconnected_cb t = disconnected_cb s"
    "resolver_joinable t = resolver_joinable s" "notifications t = notifications s"
    "io_trace t = io_trace s" "recv_script (sys t) = recv_script (sys s)"
    "send_script (sys t) = send_script (sys s)"
  using arg_cong [OF assms, of sock] arg_cong [OF assms, of st] arg_cong [OF assms, of greeting]
    arg_cong [OF assms, of request_id] arg_cong [OF assms, of reconnect_ticks]
    arg_cong [OF assms, of reconnect_timeout] arg_cong [OF assms, of idle_ticks]
    arg_cong [OF assms, of send_buffer] arg_cong [OF assms, of output_buffer]
    arg_cong [OF assms, of receive_buffer] arg_cong [OF assms, of input_buffer]
    arg_cong [OF assms, of next_to_send] arg_cong [OF assms, of uncorked_size]
    arg_cong [OF assms, of last_head] arg_cong [OF assms, of detected]
    arg_cong [OF assms, of caller_idle] arg_cong [OF assms, of prev_watch]
    arg_cong [OF assms, of server_proto] arg_cong [OF assms, of parts]
    arg_cong [OF assms, of disconnected_cb] arg_cong [OF assms, of resolver_joinable]
    arg_cong [OF assms, of notifications] arg_cong [OF assms, of "\<lambda>s. trace (sys s)"]
    arg_cong [OF assms, of "\<lambda>s. recv_script (sys s)"] arg_cong [OF assms, of "\<lambda>s. send_script (sys s)"]
  by (simp_all add: core_def io_trace_def)

lemma minus_size_le: "b \<le> a \<Longrightarrow> minus_size a b \<le> a - b"
  unfolding minus_size_def using zmod_le_nonneg_dividend [of "int a - int b" "2 ^ 64"] by linarith

lemma minus_size_eq: "b \<le> a \<Longrightarrow> a < 2 ^ 64 \<Longrightarrow> minus_size a b = a - b"
  unfolding minus_size_def using mod_pos_pos_trivial [of "int a - int b" "2 ^ 64"] by simp

end
