(* ===== verification/Connection_Sending.thy ===== *)
theory Connection_Sending
  imports Connection_Laws Msgpack_Ref
begin

text \<open>
  Closing and sending: what \<open>connection_close\<close> leaves behind, the order of the bytes that
  \<open>connection_write\<close> and \<open>flush\<close> send, and the overrun when the output outgrows the send buffer.
\<close>

section \<open>Closing\<close>

definition closed_state :: "'h connection \<Rightarrow> int \<Rightarrow> 'h connection \<Rightarrow> bool" where
  "closed_state s delay t \<longleftrightarrow>
     sock t = - 1 \<and> st t = Disconnected \<and> greeting t = [] \<and> request_id t = 0
     \<and> pending t = [] \<and> uncorked_size t = 0 \<and> next_to_send t = 0 \<and> detected t = 0
     \<and> io_trace t = io_trace s @ [SysClosed (sock s)]
     \<and> content (receive_buffer t) = take (last_head s) (content (receive_buffer s)) \<and> last_head t = last_head s
     \<and> reconnect_ticks t = (if 0 < delay then 0 else - 1)
     \<and> reconnect_timeout t = (if 0 < delay then delay else reconnect_timeout s)"

lemma core_conditions:
  assumes "core t = core u"
  shows "closed_state s d t = closed_state s d u" "in_ok t = in_ok u" "out_ok t = out_ok u"
    "pending t = pending u" "sent_bytes t = sent_bytes u"
  using core_fields [OF assms]
  by (simp_all add: closed_state_def in_ok_def out_ok_def out_wf_def pending_def sent_bytes_io)

lemma firm_noexcept: "firm P (f s) \<Longrightarrow> firm P (noexcept f s)"
  unfolding outcome_noexcept by (erule outcome_conseq) auto

lemma firm_andthen: "firm P (f s) \<Longrightarrow> (\<And>t. P t \<Longrightarrow> firm Q (g t)) \<Longrightarrow> firm Q (andthen f g s)"
  unfolding outcome_andthen by (erule firm_then)

lemma close_open:
  assumes q: "quiet env" and i: "in_ok s" and f: "0 \<le> sock s"
  shows "firm (closed_state s delay) (connection_close env b delay s)"
proof -
  let ?s = "(if 0 < delay
       then s\<lparr>greeting := [], server_proto := no_proto, st := Disconnected, request_id := 0, idle_ticks := 0,
            reconnect_ticks := 0, reconnect_timeout := delay\<rparr>
       else s\<lparr>greeting := [], server_proto := no_proto, st := Disconnected, request_id := 0, idle_ticks := 0,
            reconnect_ticks := - 1\<rparr>)"
  have rest: "firm (closed_state s delay)
      (andthen close_sock
       (andthen (modify (\<lambda>s. s\<lparr>output_buffer := clear (output_buffer s)\<rparr>))
       (andthen clear_send_buffer
       (andthen (modify (\<lambda>s. s\<lparr>uncorked_size := 0, detected := 0\<rparr>))
       (andthen (\<lambda>s. on_receive (resize (last_head s)) s)
         (\<lambda>s. if p \<noteq> Connecting \<and> disconnected_cb s \<noteq> None \<and> b
              then catching (call_opt env disconnected_cb NoArg)
                     (\<lambda>e. handle_error env (what e) E_external 0) s
              else (Inr (), s)))))) t)"
    if t: "core t = core (?s\<lparr>prev_watch := W_none\<rparr>)" for t p
  proof -
    let ?t = "logged (SysClosed (sock t)) t
      \<lparr>sock := - 1, output_buffer := clear (output_buffer t), send_buffer := clear (send_buffer t),
       next_to_send := 0, uncorked_size := 0, detected := 0,
       receive_buffer := receive_buffer t\<lparr>endp := last_head t\<rparr>\<rparr>"
    have t_in: "in_ok t" using i core_fields [OF t] by (simp add: in_ok_def)
    then have r: "resize (last_head t) (receive_buffer t) = (Inr (), receive_buffer t\<lparr>endp := last_head t\<rparr>)"
      by (intro resize_within) (simp add: in_ok_def wf_buf_def)
    have c: "closed_state s delay ?t"
      using core_fields [OF t] t_in
      by (auto simp: closed_state_def pending_def io_trace_def logged_def content_shrink in_ok_def)
    have "sock t = sock s" using core_fields(1) [OF t] by simp
    with f r have e: "andthen close_sock
       (andthen (modify (\<lambda>s. s\<lparr>output_buffer := clear (output_buffer s)\<rparr>))
       (andthen clear_send_buffer
       (andthen (modify (\<lambda>s. s\<lparr>uncorked_size := 0, detected := 0\<rparr>))
       (andthen (\<lambda>s. on_receive (resize (last_head s)) s) g)))) t = g ?t" for g :: "('a connection, unit) op"
      by (simp add: close_sock_def andthen_def seq_def modify_def log_event_apply clear_send_buffer_def
          on_receive_def logged_def)
    have "firm (closed_state s delay) (catching (call_opt env disconnected_cb NoArg)
        (\<lambda>e. handle_error env (what e) E_external 0) ?t)"
      by (rule firm_then [OF quiet_catching [OF q]]) (simp add: core_conditions(1) [of _ ?t] c)
    with c show ?thesis unfolding e by simp
  qed
  have "\<not> sock ?s < 0" using f by simp
  then show ?thesis
    unfolding connection_close_def Let_def
    by (intro firm_noexcept) (simp only: if_False, rule firm_andthen [OF quiet_watch [OF q]], erule rest)
qed

section \<open>The loop of write\<close>

text \<open>Everything the loop does not change.\<close>

definition away :: "'h connection \<Rightarrow> 'h connection" where
  "away s = s\<lparr>send_buffer := buf_of_size 0, output_buffer := buf_of_size 0, next_to_send := 0,
     uncorked_size := 0, last_write_time := 0,
     sys := (sys s)\<lparr>errno := 0, send_script := [], trace := filter (\<lambda>e. case e of Sent _ \<Rightarrow> False | _ \<Rightarrow> True) (trace (sys s))\<rparr>\<rparr>"

lemma away_fields:
  assumes "away t = away s"
  shows "sock t = sock s" "st t = st s" "receive_buffer t = receive_buffer s"
    "input_buffer t = input_buffer s" "last_head t = last_head s" "current_cs t = current_cs s"
    "greeting t = greeting s" "request_id t = request_id s" "parts t = parts s" "server_proto t = server_proto s"
    "detected t = detected s" "recv_script (sys t) = recv_script (sys s)"
  using arg_cong [OF assms, of parts] arg_cong [OF assms, of server_proto] arg_cong [OF assms, of detected]
    arg_cong [OF assms, of "\<lambda>s. recv_script (sys s)"] arg_cong [OF assms, of greeting] arg_cong [OF assms, of request_id] arg_cong [OF assms, of sock] arg_cong [OF assms, of st] arg_cong [OF assms, of receive_buffer]
    arg_cong [OF assms, of input_buffer] arg_cong [OF assms, of last_head] arg_cong [OF assms, of current_cs]
  by (simp_all add: away_def)

text \<open>Nothing waits behind what the send buffer holds.\<close>

definition none_behind :: "'h connection \<Rightarrow> bool" where
  "none_behind s \<longleftrightarrow> endp (output_buffer s) = 0 \<and> uncorked_size s = 0"

text \<open>Nothing that went out is taken back.\<close>

definition sent_on :: "'h connection \<Rightarrow> 'h connection \<Rightarrow> bool" where
  "sent_on s t \<longleftrightarrow> (\<exists>bs. sent_bytes t = sent_bytes s @ bs)"

lemma sent_on_trans: "sent_on s t \<Longrightarrow> sent_on t u \<Longrightarrow> sent_on s u"
  by (auto simp: sent_on_def)

lemma sent_on_same: "sent_bytes t = sent_bytes s \<Longrightarrow> sent_on s t"
  by (simp add: sent_on_def)

text \<open>A system that takes bytes or asks to try again.\<close>

definition obliging :: "'h connection \<Rightarrow> bool" where
  "obliging s \<longleftrightarrow> (\<forall>r \<in> set (send_script (sys s)). case r of Accept k \<Rightarrow> 0 < k | SendErr e \<Rightarrow> e = EAGAIN \<or> e = EINTR)"

text \<open>What the loop has done up to some moment.\<close>

definition progress :: "'h connection \<Rightarrow> 'h connection \<Rightarrow> bool" where
  "progress s t \<longleftrightarrow> out_ok t \<and> away t = away s \<and> sent_bytes t @ pending t = sent_bytes s @ pending s
     \<and> (none_behind s \<longrightarrow> none_behind t \<and> send_buffer t = send_buffer s) \<and> sent_on s t
     \<and> (obliging s \<longrightarrow> obliging t)"

lemma progress_trans: "progress s t \<Longrightarrow> progress t u \<Longrightarrow> progress s u"
  by (auto simp: progress_def elim: sent_on_trans)

lemma buf_endp_simps [simp]:
  "capacity (b\<lparr>endp := n\<rparr>) = capacity b" "growable (b\<lparr>endp := n\<rparr>) = growable b"
  by (simp_all add: capacity_def growable_def)

lemma next_batch_ok:
  assumes w: "out_wf s" and e: "next_to_send s = endp (send_buffer s)"
  obtains t where "next_batch s = (Inr (uncorked_size s), t)" and "out_ok t" and "away t = away s"
    and "pending t = pending s" and "sys t = sys s" and "next_to_send t = 0"
    and "endp (send_buffer t) = uncorked_size s"
proof -
  let ?n = "uncorked_size s" and ?o = "output_buffer s" and ?b = "clear (send_buffer s)"
  have wo: "wf_buf ?o" "growable ?o" "wf_buf ?b" "growable ?b" "?n \<le> endp ?o"
    "endp ?o \<le> capacity ?b" "endp ?o \<le> capacity ?o" "endp ?o < 2 ^ 64"
    using w by (auto simp: out_wf_def) (simp add: wf_buf_def)
  have p: "pending s = content ?o"
    using w e by (simp add: pending_def content_def)
  show thesis
  proof (cases "?n < endp ?o")
    case True
    let ?tail = "take (endp ?o - ?n) (drop ?n (mem ?o))"
    let ?b' = "?b\<lparr>mem := overwrite 0 ?tail (mem ?b), endp := endp ?o - ?n\<rparr>"
    let ?t = "s\<lparr>send_buffer := ?o\<lparr>endp := ?n\<rparr>, output_buffer := ?b', next_to_send := 0, uncorked_size := 0\<rparr>"
    have l: "length ?tail = endp ?o - ?n" using wo True by (simp add: capacity_def)
    have c: "content ?b' = ?tail"
      using l wo by (simp add: content_def overwrite_def)
    have cap: "capacity ?b' = capacity ?b"
      using l wo by (simp add: capacity_def)
    have b: "wf_buf ?b'" "growable ?b'"
      using wo cap by (auto simp: wf_buf_def growable_def clear_def)
    have "next_batch s = (Inr ?n, ?t)"
      using True l wo cap
      by (simp add: next_batch_def Let_def andthen_def seq_def on_output_def on_send_def poke_def
          resize_within capacity_def)
    moreover have "?tail = drop ?n (content ?o)"
      by (simp add: content_def drop_take)
    then have "take ?n (content ?o) @ ?tail = content ?o" by simp
    then have "pending ?t = pending s"
      using c content_shrink [OF wo(5)] p by (simp add: pending_def)
    moreover have "out_ok ?t"
      using wo b cap True by (auto simp: out_ok_def out_wf_def wf_shrink growable_def)
    ultimately show thesis
      using that [of ?t] by (simp add: away_def)
  next
    case False
    then have n: "?n = endp ?o" using wo by simp
    let ?t = "s\<lparr>send_buffer := ?o, output_buffer := ?b, next_to_send := 0, uncorked_size := 0\<rparr>"
    have "next_batch s = (Inr ?n, ?t)" using False by (simp add: next_batch_def Let_def)
    moreover have "out_ok ?t" using wo by (simp add: out_ok_def out_wf_def)
    moreover have "pending ?t = pending s" by (simp add: p) (simp add: pending_def)
    ultimately show thesis using that [of ?t] n by (simp add: away_def)
  qed
qed

text \<open>One call of \<^verbatim>\<open>send\<close>: nothing was sent, or some bytes at the cursor were.\<close>

definition advanced :: "nat \<Rightarrow> 'h connection \<Rightarrow> 'h connection" where
  "advanced r t = t\<lparr>last_write_time := now (sys t), next_to_send := next_to_send t + r\<rparr>"

lemma sys_send_cases:
  assumes w: "out_ok s" and n: "next_to_send s + n = endp (send_buffer s)" "0 < n"
  obtains (failed) r t where "sys_send n s = (Inr r, t)" and "r \<le> 0" and "progress s t"
      and "next_to_send t + n = endp (send_buffer t)"
      and "errno (sys t) = EAGAIN \<or> length (send_script (sys t)) < length (send_script (sys s))"
      and "obliging s \<longrightarrow> errno (sys t) = EAGAIN \<or> errno (sys t) = EINTR"
    | (took) r t where "sys_send n s = (Inr (int r), t)" and "0 < r" and "r \<le> n"
      and "length (send_script (sys t)) < length (send_script (sys s))"
      and "out_wf (advanced r t)" and "away (advanced r t) = away s"
      and "next_to_send (advanced r t) + (n - r) = endp (send_buffer (advanced r t))"
      and "sent_bytes (advanced r t) @ pending (advanced r t) = sent_bytes s @ pending s"
      and "none_behind s \<longrightarrow> none_behind (advanced r t) \<and> send_buffer (advanced r t) = send_buffer s" and "sent_on s (advanced r t)"
      and "obliging s \<longrightarrow> obliging (advanced r t)"
proof (cases "send_script (sys s)")
  case Nil
  show thesis
    by (rule failed [of "- 1" "s\<lparr>sys := (sys s)\<lparr>errno := EAGAIN\<rparr>\<rparr>"])
      (use w n Nil in \<open>auto simp: obliging_def sent_on_def sys_send_def progress_def none_behind_def away_def out_ok_def out_wf_def sent_bytes_def pending_def\<close>)
next
  case (Cons a rest)
  show thesis
  proof (cases a)
    case (SendErr e)
    show thesis
      by (rule failed [of "- 1" "s\<lparr>sys := (sys s)\<lparr>errno := e, send_script := rest\<rparr>\<rparr>"])
        (use w n Cons SendErr in \<open>auto simp: obliging_def sent_on_def sys_send_def progress_def none_behind_def away_def out_ok_def out_wf_def sent_bytes_def pending_def\<close>)
  next
    case (Accept k)
    let ?r = "min k n"
    let ?bs = "take ?r (drop (next_to_send s) (mem (send_buffer s)))"
    have l: "next_to_send s + ?r \<le> endp (send_buffer s)" "endp (send_buffer s) \<le> length (mem (send_buffer s))"
      using w n by (auto simp: out_ok_def out_wf_def wf_buf_def capacity_def)
    then have b: "length ?bs = ?r" by simp
    let ?c = "content (send_buffer s)"
    have c: "?bs = take ?r (drop (next_to_send s) ?c)"
      using l by (simp add: content_def drop_take min_absorb1)
    have d: "take ?r (drop (next_to_send s) ?c) @ drop (next_to_send s + ?r) ?c = drop (next_to_send s) ?c"
      by (metis append_take_drop_id drop_drop add.commute)
    let ?t = "s\<lparr>sys := (sys s)\<lparr>send_script := rest, trace := trace (sys s) @ [Sent ?bs]\<rparr>\<rparr>"
    have e: "sys_send n s = (Inr (int ?r), ?t)"
      using Cons Accept b by (simp add: sys_send_def Let_def)
    show thesis
    proof (cases "?r = 0")
      case True
      with e have "sys_send n s = (Inr 0, ?t)" by simp
      then show thesis
        by (rule failed) (use w n Cons Accept c True in \<open>auto simp: obliging_def sent_on_def progress_def none_behind_def away_def out_ok_def out_wf_def
              sent_bytes_def pending_def\<close>)
    next
      case False
      show thesis
        by (rule took [OF e])
          (use w n Cons l False d in \<open>auto simp: obliging_def sent_on_def advanced_def none_behind_def away_def sent_bytes_def pending_def out_ok_def
              out_wf_def c [symmetric]\<close>)
    qed
  qed
qed

lemma send_loop_rule:
  assumes "out_ok s" and "next_to_send s + n = endp (send_buffer s)" and "length (send_script (sys s)) < fuel"
    and stop: "\<And>k t. progress s t \<Longrightarrow> next_to_send t + k = endp (send_buffer t) \<Longrightarrow> Q (Some k) t"
    and fail: "\<And>t. progress s t \<Longrightarrow> \<not> obliging s \<Longrightarrow> outcome (\<lambda>_ u. Q None (u\<lparr>reconnect_ticks := 0\<rparr>)) E
          (andthen (handle_error env [] E_system 0) (connection_close env True 0) t)"
  shows "outcome Q E (send_loop env fuel n s)"
  using assms
proof (induction fuel arbitrary: n s)
  case 0
  then show ?case by simp
next
  case (Suc fuel)
  have step: "outcome Q E (send_loop env fuel m t)"
    if "progress s t" "next_to_send t + m = endp (send_buffer t)" "length (send_script (sys t)) < length (send_script (sys s))" for t m
    using that Suc.prems progress_trans [OF that(1)] by (intro Suc.IH) (auto simp: progress_def [of s t])
  have self: "progress s s" using Suc.prems(1) by (simp add: progress_def sent_on_same)
  show ?case
  proof (cases "n = 0")
    case True
    with Suc.prems(2,4) self show ?thesis by simp
  next
    case False
    then have n: "0 < n" by simp
    show ?thesis
    proof (rule sys_send_cases [OF Suc.prems(1,2) n], goal_cases)
      case (1 r t)
      note failed = this
      have "\<not> obliging s \<Longrightarrow> outcome Q E (andthen (handle_error env [] E_system 0)
                    (andthen (connection_close env True 0) (\<lambda>s2. (Inr None, s2\<lparr>reconnect_ticks := 0\<rparr>))) t)"
        using Suc.prems(5) [OF failed(3)] by (simp add: outcome_simps)
      moreover have "obliging s \<longrightarrow> errno (sys t) = EAGAIN \<or> errno (sys t) = EINTR" by (rule failed(6))
      ultimately show ?thesis
        using False failed(1-5) Suc.prems(4) step [of t n]
        by (auto simp: outcome_seq EAGAIN_def EINTR_def)
    next
      case (2 r t)
      note took = this
      note sent = took(1,2,4) False
      show ?thesis
      proof (cases "n - r = 0 \<and> uncorked_size t \<noteq> 0")
        case True
        with took(7) have "next_to_send (advanced r t) = endp (send_buffer (advanced r t))" by simp
        from next_batch_ok [OF took(5) this] obtain u where u: "out_ok u" "away u = away (advanced r t)"
            "pending u = pending (advanced r t)" "sys u = sys (advanced r t)" "next_to_send u = 0"
            "endp (send_buffer u) = uncorked_size (advanced r t)"
            "next_batch (advanced r t) = (Inr (uncorked_size (advanced r t)), u)" by blast
        have "sent_bytes u = sent_bytes (advanced r t)" using u(4) by (simp add: sent_bytes_def)
        moreover have "\<not> none_behind s" using took(9) True by (auto simp: none_behind_def advanced_def)
        moreover have "obliging s \<longrightarrow> obliging u" using took(11) u(4) by (simp add: obliging_def)
        moreover have "sent_on s u" using took(10) \<open>sent_bytes u = _\<close> by (simp add: sent_on_def)
        ultimately have "progress s u" using u took(6,8) by (simp add: progress_def)
        then have "outcome Q E (send_loop env fuel (uncorked_size t) u)"
          using u(4-6) took(4) by (intro step) (simp_all add: advanced_def)
        with True u(7) sent show ?thesis
          by (auto simp: outcome_seq advanced_def)
      next
        case False
        then have "out_ok (advanced r t)"
          using took(2,3,5,7) by (auto simp: out_ok_def advanced_def)
        with took(6,8,9,10,11) have "progress s (advanced r t)" by (simp add: progress_def)
        then have "outcome Q E (send_loop env fuel (n - r) (advanced r t))"
          using took(4,7) by (intro step) (simp_all add: advanced_def)
        with False sent show ?thesis
          by (auto simp: outcome_seq advanced_def)
      qed
    qed
  qed
qed

section \<open>The order of what is sent\<close>

text \<open>
  How a call that sends may end: all bytes are still accounted for in their order, and the
  watcher is asked for write readiness just when bytes of the send buffer are left; or the
  connection was closed after an error, and what went out is a beginning of it.
\<close>

definition kept_in_order :: "'h connection \<Rightarrow> 'h connection \<Rightarrow> bool" where
  "kept_in_order s t \<longleftrightarrow> out_ok t \<and> sock t = sock s \<and> st t = st s
     \<and> sent_bytes t @ pending t = sent_bytes s @ pending s \<and> sent_on s t
     \<and> receive_buffer t = receive_buffer s \<and> input_buffer t = input_buffer s
     \<and> last_head t = last_head s \<and> detected t = detected s \<and> recv_script (sys t) = recv_script (sys s)
     \<and> greeting t = greeting s \<and> request_id t = request_id s \<and> parts t = parts s \<and> server_proto t = server_proto s
     \<and> (none_behind s \<longrightarrow> none_behind t \<and> send_buffer t = send_buffer s)
     \<and> (obliging s \<longrightarrow> obliging t)
     \<and> prev_watch t = (if next_to_send t = endp (send_buffer t) then W_read else W_read_write)"

definition dropped_after_error :: "'h connection \<Rightarrow> 'h connection \<Rightarrow> bool" where
  "dropped_after_error s t \<longleftrightarrow> \<not> obliging s \<and> sock t = - 1 \<and> st t = Disconnected \<and> pending t = [] \<and> reconnect_ticks t = 0
     \<and> (\<exists>rest. sent_bytes t @ rest = sent_bytes s @ pending s)"

lemma outcome_write:
  assumes "out_ok s" and "st s \<noteq> Connecting"
  shows "outcome Q E (connection_write env s) =
    outcome Q (\<lambda>e t. if fatal e then E e t else E Terminated t)
      (seq (send_loop env (Suc (length (send_script (sys s)))) (endp (send_buffer s) - next_to_send s))
         (\<lambda>left s3. case left of
             None \<Rightarrow> (Inr (), s3)
           | Some k \<Rightarrow> watch_socket env (if k \<noteq> 0 then W_read_write else W_read) s3)
         (s\<lparr>idle_ticks := 0\<rparr>))"
proof -
  have n: "minus_size (endp (send_buffer s)) (next_to_send s) = endp (send_buffer s) - next_to_send s"
    "\<not> endp (send_buffer s) < next_to_send s"
    "endp (send_buffer s) - next_to_send s = 0 \<longrightarrow> uncorked_size s = 0"
    using assms(1) by (auto simp: out_ok_def out_wf_def minus_size_eq)
  then show ?thesis
    unfolding connection_write_def outcome_noexcept Let_def
    using assms(2) by (auto simp add: andthen_def seq_def ret_def simp del: send_loop.simps)
qed

lemma write_kept:
  assumes q: "quiet env" and o: "out_ok s" and i: "in_ok s" and c: "st s \<noteq> Connecting" and f: "0 \<le> sock s"
  shows "firm (\<lambda>t. kept_in_order s t \<or> dropped_after_error s t) (connection_write env s)"
proof -
  let ?s = "s\<lparr>idle_ticks := 0\<rparr>"
  have o': "out_ok ?s" using o by (simp add: out_ok_def out_wf_def)
  have same: "sent_bytes ?s = sent_bytes s" "pending ?s = pending s"
    "none_behind ?s = none_behind s" "obliging ?s = obliging s"
    by (simp_all add: sent_bytes_def pending_def none_behind_def obliging_def)
  have n: "next_to_send ?s + (endp (send_buffer s) - next_to_send s) = endp (send_buffer ?s)"
    using o by (simp add: out_ok_def out_wf_def)
  have "firm (\<lambda>t. kept_in_order s t \<or> dropped_after_error s t)
      (seq (send_loop env (Suc (length (send_script (sys s)))) (endp (send_buffer s) - next_to_send s))
         (\<lambda>left s3. case left of
             None \<Rightarrow> (Inr (), s3)
           | Some k \<Rightarrow> watch_socket env (if k \<noteq> 0 then W_read_write else W_read) s3) ?s)"
    unfolding outcome_seq
  proof (rule send_loop_rule [OF o' n], goal_cases)
    case 1
    then show ?case by simp
  next
    case (2 k t)
    let ?m = "if k \<noteq> 0 then W_read_write else W_read"
    have "kept_in_order s u" if "core u = core (t\<lparr>prev_watch := ?m\<rparr>)" for u
    proof -
      have "pending (t\<lparr>prev_watch := ?m\<rparr>) = pending t" "sent_bytes (t\<lparr>prev_watch := ?m\<rparr>) = sent_bytes t"
        "out_ok (t\<lparr>prev_watch := ?m\<rparr>) = out_ok t" "none_behind u = none_behind t" "sent_bytes u = sent_bytes t"
        "obliging u = obliging t"
        using core_fields [OF that] core_conditions(5) [OF that] by (simp_all add: obliging_def pending_def sent_bytes_def out_ok_def out_wf_def none_behind_def)
      then show ?thesis
        using core_fields [OF that] core_conditions(3-5) [OF that] 2 same away_fields [of t ?s]
        by (auto simp: kept_in_order_def progress_def sent_on_def)
    qed
    then show ?case
      by (simp only: option.case) (rule firm_then [OF quiet_watch [OF q]], simp)
  next
    case (3 t)
    have t: "in_ok t" "0 \<le> sock t" "sent_bytes t @ pending t = sent_bytes s @ pending s" "\<not> obliging s"
      using 3 i f same away_fields [of t ?s] by (auto simp: progress_def in_ok_def)
    show ?case
      unfolding outcome_andthen
    proof (rule firm_then [OF quiet_handle_error [OF q]])
      fix u :: "'a connection"
      assume u: "core u = core t"
      have "firm (closed_state u 0) (connection_close env True 0 u)"
        using t(1,2) core_conditions(2) [OF u] core_fields(1) [OF u] by (intro close_open [OF q]) auto
      then show "outcome (\<lambda>_ w. outcome (\<lambda>_ t. kept_in_order s t \<or> dropped_after_error s t) (\<lambda>_ _. False)
            (case None of None \<Rightarrow> (Inr (), w\<lparr>reconnect_ticks := 0\<rparr>)
             | Some k \<Rightarrow> watch_socket env (if k \<noteq> 0 then W_read_write else W_read) (w\<lparr>reconnect_ticks := 0\<rparr>)))
          (\<lambda>_ _. False) (connection_close env True 0 u)"
      proof (rule firm_then)
        fix w :: "'a connection"
        assume w: "closed_state u 0 w"
        then have "sent_bytes w = sent_bytes t"
          using core_conditions(5) [OF u] by (simp add: closed_state_def sent_bytes_io)
        with w t(3,4) show "outcome (\<lambda>_ t. kept_in_order s t \<or> dropped_after_error s t) (\<lambda>_ _. False)
            (case None of None \<Rightarrow> (Inr (), w\<lparr>reconnect_ticks := 0\<rparr>)
             | Some k \<Rightarrow> watch_socket env (if k \<noteq> 0 then W_read_write else W_read) (w\<lparr>reconnect_ticks := 0\<rparr>))"
          by (auto simp: dropped_after_error_def closed_state_def sent_bytes_def pending_def)
      qed
    qed
  qed
  then show ?thesis
    unfolding outcome_write [OF o c] by (rule outcome_conseq) auto
qed




text \<open>
  C38: When what was written after the mark of \<open>flush\<close> is more than the send buffer holds, passing it
  back to that buffer writes outside of it: \<^verbatim>\<open>memcpy\<close> comes before \<^verbatim>\<open>resize\<close>.
\<close>
theorem next_batch_overruns:
  assumes "wf_buf (output_buffer s)"
    and "capacity (send_buffer s) < endp (output_buffer s) - uncorked_size s"
  shows "fst (next_batch s) = Inl Overrun"
proof -
  have "min (length (mem (output_buffer s)) - uncorked_size s) (endp (output_buffer s) - uncorked_size s)
      = endp (output_buffer s) - uncorked_size s"
    using assms(1) by (auto simp: wf_buf_def capacity_def)
  with assms(2) show ?thesis
    by (auto simp: next_batch_def Let_def andthen_def seq_def on_output_def poke_def capacity_def clear_def)
qed

section \<open>A concrete connection\<close>

text \<open>Callbacks that do nothing, a system where nothing is ready, small buffers.\<close>

definition silent_env :: "nat env" where
  "silent_env = \<lparr>lib = ref_mp, unquote_uuid = 1, invoke = (\<lambda>_ _. ret ()), strerror = (\<lambda>_. ''error''),
     gai_strerror = (\<lambda>_. ''no address''), getenv = Map.empty, salt_area = replicate 64 0, depth = 1\<rparr>"

definition still_world :: "nat sys" where
  "still_world = \<lparr>errno = 0, now = 0, recv_script = [], send_script = [], connect_script = [], so_script = [], trace = []\<rparr>"

definition demo_conn :: "nat connection" where
  "demo_conn = (snd (new_connection silent_env ''3301'' None None still_world))
     \<lparr>input_buffer := buf_of_size 8, receive_buffer := buf_of_size 8, output_buffer := buf_of_size 8,
      send_buffer := buf_of_size 8\<rparr>"

lemma core_logged [simp]: "core (logged (Called h a) s) = core s"
  by (simp add: core_def logged_def)

lemma quiet_silent: "quiet silent_env"
  by (simp add: quiet_def tame_def indifferent_def silent_env_def)

lemma demo_fields [simp]:
  "sock demo_conn = - 1" "st demo_conn = Disconnected" "receive_buffer demo_conn = buf_of_size 8"
  "input_buffer demo_conn = buf_of_size 8" "output_buffer demo_conn = buf_of_size 8"
  "send_buffer demo_conn = buf_of_size 8" "next_to_send demo_conn = 0" "uncorked_size demo_conn = 0"
  "last_head demo_conn = 0" "detected demo_conn = 0" "caller_idle demo_conn = True"
  "sys demo_conn = still_world" "reconnect_ticks demo_conn = - 1" "response_cb demo_conn = None"
  "notifications demo_conn = []" "resolver_joinable demo_conn = False" "tmp_notifications demo_conn = []"
  by (simp_all add: demo_conn_def new_connection_def call_opt_def)

lemma demo_ok: "in_ok demo_conn" "out_ok demo_conn"
  by (simp_all add: in_ok_def out_ok_def out_wf_def)

definition demo_sending :: "nat connection" where
  "demo_sending = demo_conn\<lparr>sock := 3, st := Connected, send_buffer := append_bytes [1, 2, 3] (buf_of_size 8),
     sys := still_world\<lparr>send_script := [Accept 2, SendErr EINTR]\<rparr>\<rparr>"

lemma demo_sending_ok: "in_ok demo_sending" "out_ok demo_sending"
  by (simp_all add: demo_sending_def in_ok_def out_ok_def out_wf_def)


definition demo_corked :: "nat connection" where
  "demo_corked = demo_sending\<lparr>output_buffer := append_bytes [4, 5] (buf_of_size 8)\<rparr>"

lemma demo_corked_ok: "in_ok demo_corked" "out_ok demo_corked"
  by (simp_all add: demo_corked_def demo_sending_def in_ok_def out_ok_def out_wf_def)



theorem next_batch_overruns_witness:
  "fst (next_batch (demo_corked\<lparr>send_buffer := buf_of_size 1\<rparr>)) = Inl Overrun"
  by (rule next_batch_overruns) (simp_all add: demo_corked_def demo_sending_def)

end
