(* ===== verification/Connection_Receiving.thy ===== *)
theory Connection_Receiving
  imports Connection_Sending Iproto_Laws Reader_Laws
begin

text \<open>
  Receiving: whatever pieces the bytes of the server arrive in, the complete responses are told
  from the part of one that follows, handed to the caller in their order, and nothing is lost.
\<close>

section \<open>Taking bytes from the socket\<close>

definition incoming :: "'h connection \<Rightarrow> bytes" where
  "incoming s = concat (map (\<lambda>r. case r of Data bs \<Rightarrow> bs | RecvErr _ \<Rightarrow> []) (recv_script (sys s)))"

text \<open>Everything the loop does not change, and what it has done up to some moment.\<close>

definition beside :: "'h connection \<Rightarrow> 'h connection" where
  "beside s = s\<lparr>receive_buffer := buf_of_size 0, sys := (sys s)\<lparr>errno := 0, recv_script := []\<rparr>\<rparr>"

lemma beside_fields:
  assumes "beside t = beside s"
  shows "sock t = sock s" "st t = st s" "input_buffer t = input_buffer s" "last_head t = last_head s"
    "detected t = detected s" "caller_idle t = caller_idle s" "response_cb t = response_cb s"
    "send_buffer t = send_buffer s" "output_buffer t = output_buffer s" "next_to_send t = next_to_send s"
    "uncorked_size t = uncorked_size s" "trace (sys t) = trace (sys s)" "send_script (sys t) = send_script (sys s)"
    "required_proto t = required_proto s" "request_id t = request_id s" "parts t = parts s"
    "server_proto t = server_proto s" "greeting t = greeting s" "now (sys t) = now (sys s)"
  using arg_cong [OF assms, of sock] arg_cong [OF assms, of st] arg_cong [OF assms, of input_buffer]
    arg_cong [OF assms, of last_head] arg_cong [OF assms, of detected] arg_cong [OF assms, of caller_idle]
    arg_cong [OF assms, of response_cb] arg_cong [OF assms, of send_buffer] arg_cong [OF assms, of output_buffer]
    arg_cong [OF assms, of next_to_send] arg_cong [OF assms, of uncorked_size]
    arg_cong [OF assms, of "\<lambda>s. trace (sys s)"] arg_cong [OF assms, of "\<lambda>s. send_script (sys s)"]
    arg_cong [OF assms, of required_proto] arg_cong [OF assms, of request_id] arg_cong [OF assms, of parts]
    arg_cong [OF assms, of server_proto] arg_cong [OF assms, of greeting] arg_cong [OF assms, of "\<lambda>s. now (sys s)"]
  by (simp_all add: beside_def)

definition gathered :: "'h connection \<Rightarrow> 'h connection \<Rightarrow> bool" where
  "gathered s t \<longleftrightarrow> in_ok t \<and> beside t = beside s
     \<and> content (receive_buffer t) @ incoming t = content (receive_buffer s) @ incoming s
     \<and> endp (receive_buffer s) \<le> endp (receive_buffer t)"

lemma gathered_trans: "gathered s t \<Longrightarrow> gathered t u \<Longrightarrow> gathered s u"
  by (auto simp: gathered_def)

text \<open>
  A socket that only delivers bytes or is not ready, and a buffer of a size the machine can have.
\<close>

definition calm :: "'h connection \<Rightarrow> bool" where
  "calm s \<longleftrightarrow>
     (\<forall>r \<in> set (recv_script (sys s)). case r of Data bs \<Rightarrow> bs \<noteq> [] | RecvErr e \<Rightarrow> e = EAGAIN \<or> e = EINTR)
     \<and> endp (receive_buffer s) + length (incoming s) < 2 ^ 62
     \<and> 1 < capacity (receive_buffer s) \<and> capacity (receive_buffer s) < 2 ^ 63"

definition may_pause :: "'h connection \<Rightarrow> bool" where
  "may_pause s \<longleftrightarrow> RecvErr EAGAIN \<in> set (recv_script (sys s))"

lemma make_room_ok:
  assumes i: "in_ok s"
  obtains rest t where "make_room s = (Inr rest, t)" and "gathered s t" and "sys t = sys s"
    and "endp (receive_buffer t) + rest \<le> capacity (receive_buffer t)"
    and "calm s \<longrightarrow> calm t \<and> 0 < rest"
proof -
  let ?b = "receive_buffer s"
  have b: "wf_buf ?b" "growable ?b" using i by (simp_all add: in_ok_def)
  have le: "minus_size (capacity c) (endp c) \<le> capacity c - endp c" if "wf_buf c" for c
    using that by (intro minus_size_le) (simp add: wf_buf_def)
  show thesis
  proof (cases "minus_size (capacity ?b) (endp ?b) < 1024")
    case True
    obtain c where c: "reserve (capacity ?b * 3 div 2) ?b = (Inr (), c)" "wf_buf c" "growable c"
        "endp c = endp ?b" "content c = content ?b" "capacity c = max (capacity ?b * 3 div 2) (capacity ?b)"
      using reserve_ok [OF b] by blast
    let ?t = "s\<lparr>receive_buffer := c\<rparr>"
    have "make_room s = (Inr (minus_size (capacity c) (endp c)), ?t)"
      using True c(1) by (simp add: make_room_def Let_def andthen_def seq_def on_receive_def)
    moreover have "gathered s ?t"
      using i c by (simp add: gathered_def in_ok_def beside_def incoming_def)
    moreover have "calm s \<longrightarrow> calm ?t \<and> 0 < minus_size (capacity c) (endp c)"
    proof
      assume k: "calm s"
      then have "endp ?b < 2 ^ 62" "capacity ?b < 2 ^ 63" by (simp_all add: calm_def)
      moreover have e: "endp ?b \<le> capacity ?b" using b(1) by (simp add: wf_buf_def)
      ultimately have "capacity ?b < 2 ^ 62 + 1024"
        using True minus_size_eq [of "endp ?b" "capacity ?b"] by simp
      then have "capacity c < 2 ^ 63" "endp ?b < capacity c" "1 < capacity c"
        using c(6) e k by (auto simp: calm_def)
      then show "calm ?t \<and> 0 < minus_size (capacity c) (endp c)"
        using k c minus_size_eq [of "endp c" "capacity c"] by (simp add: calm_def incoming_def)
    qed
    ultimately show thesis
      using le [OF c(2)] c(2) that [of "minus_size (capacity c) (endp c)" ?t] by (auto simp: wf_buf_def)
  next
    case False
    then have "make_room s = (Inr (minus_size (capacity ?b) (endp ?b)), s)"
      by (simp add: make_room_def Let_def)
    then show thesis
      using le [OF b(1)] b(1) i that False by (auto simp: wf_buf_def gathered_def)
  qed
qed

text \<open>What one \<^verbatim>\<open>recv\<close> brings, with the advance of \<^verbatim>\<open>end\<close> behind it.\<close>

definition grown :: "nat \<Rightarrow> 'h connection \<Rightarrow> 'h connection" where
  "grown k t = t\<lparr>receive_buffer := receive_buffer t\<lparr>endp := endp (receive_buffer t) + k\<rparr>\<rparr>"

lemma recv_weight_simps [simp]:
  "recv_weight (Data bs # rs) = Suc (length bs + recv_weight rs)"
  "recv_weight (RecvErr e # rs) = Suc (recv_weight rs)"
  by (simp_all add: recv_weight_def)

text \<open>The ways a call may go: an error, the end of the stream, or bytes.\<close>

definition recv_failed :: "'h connection \<Rightarrow> 'h connection \<Rightarrow> bool" where
  "recv_failed s t \<longleftrightarrow> gathered s t \<and> (calm s \<longrightarrow> calm t)
     \<and> (errno (sys t) = EAGAIN \<and> (incoming t = [] \<or> may_pause s)
        \<or> recv_weight (recv_script (sys t)) < recv_weight (recv_script (sys s)) \<and> errno (sys t) \<noteq> EAGAIN
          \<and> (may_pause t \<longrightarrow> may_pause s) \<and> (calm s \<longrightarrow> errno (sys t) = EINTR))"

definition recv_took :: "nat \<Rightarrow> 'h connection \<Rightarrow> 'h connection \<Rightarrow> bool" where
  "recv_took k s t \<longleftrightarrow> 0 < k \<and> gathered s (grown k t)
     \<and> recv_weight (recv_script (sys t)) < recv_weight (recv_script (sys s))
     \<and> (may_pause t \<longrightarrow> may_pause s) \<and> (calm s \<longrightarrow> calm (grown k t))"

lemma sys_recv_cases:
  assumes i: "in_ok s" and n: "endp (receive_buffer s) + n \<le> capacity (receive_buffer s)"
  shows "(\<exists>t. sys_recv n s = (Inr (- 1), t) \<and> recv_failed s t)
       \<or> (\<exists>t. sys_recv n s = (Inr 0, t) \<and> gathered s t \<and> \<not> (calm s \<and> 0 < n))
       \<or> (\<exists>k t. sys_recv n s = (Inr (int k), t) \<and> recv_took k s t)"
proof (cases "recv_script (sys s)")
  case Nil
  with i show ?thesis
    by (auto simp: sys_recv_def recv_failed_def gathered_def in_ok_def beside_def incoming_def calm_def)
next
  case (Cons a rest)
  show ?thesis
  proof (cases a)
    case (RecvErr e)
    let ?t = "s\<lparr>sys := (sys s)\<lparr>errno := e, recv_script := rest\<rparr>\<rparr>"
    have "gathered s ?t"
      using Cons RecvErr i by (simp add: gathered_def in_ok_def beside_def incoming_def)
    moreover have "calm s \<longrightarrow> calm ?t \<and> (e = EAGAIN \<or> e = EINTR)"
      using Cons RecvErr by (auto simp: calm_def incoming_def)
    ultimately have "recv_failed s ?t"
      using Cons RecvErr by (auto simp: recv_failed_def may_pause_def EAGAIN_def EINTR_def)
    with Cons RecvErr show ?thesis by (auto simp: sys_recv_def)
  next
    case (Data bs)
    let ?b = "receive_buffer s"
    let ?got = "take n bs"
    let ?w = "(sys s)\<lparr>recv_script := (if length bs \<le> n then rest else Data (drop n bs) # rest)\<rparr>"
    let ?t = "s\<lparr>sys := ?w, receive_buffer := ?b\<lparr>mem := overwrite (endp ?b) ?got (mem ?b)\<rparr>\<rparr>"
    let ?g = "grown (length ?got) ?t"
    have room: "endp ?b + length ?got \<le> length (mem ?b)" using n by (simp add: capacity_def)
    have e: "sys_recv n s = (Inr (int (length ?got)), ?t)" if "n \<noteq> 0"
      using Cons Data that room by (simp add: sys_recv_def Let_def capacity_def not_less)
    have c: "content (receive_buffer ?g) = content ?b @ ?got"
      using room by (simp add: grown_def content_def take_overwrite_end [OF room] del: length_take)
    have inc: "?got @ incoming ?g = incoming s"
      using Cons Data by (auto simp: incoming_def grown_def)
    have ok: "in_ok ?g"
      using i room by (auto simp: in_ok_def grown_def wf_buf_def capacity_def growable_def)
    have "beside ?g = beside s" "endp ?b \<le> endp (receive_buffer ?g)"
      by (simp_all add: beside_def grown_def)
    with c inc ok have g: "gathered s ?g" by (simp only: gathered_def append_assoc simp_thms)
    have "length ?got + length (incoming ?g) = length (incoming s)"
      using arg_cong [OF inc, of length] by (simp del: length_take)
    then have k: "calm s \<longrightarrow> calm ?g"
      using Cons Data room by (auto simp: calm_def grown_def capacity_def)
    show ?thesis
    proof (cases "n = 0 \<or> bs = []")
      case True
      then show ?thesis
      proof
        assume "n = 0"
        then show ?thesis using Cons Data i by (auto simp: sys_recv_def gathered_def)
      next
        assume "bs = []"
        moreover from this have "\<not> calm s" using Cons Data by (simp add: calm_def)
        ultimately show ?thesis
          using e g Cons Data i by (cases "n = 0") (auto simp: sys_recv_def gathered_def grown_def)
      qed
    next
      case False
      then have "recv_weight (recv_script (sys ?t)) < recv_weight (recv_script (sys s))"
        using Cons Data by auto
      moreover have "may_pause ?t \<longrightarrow> may_pause s"
        using Cons Data by (auto simp: may_pause_def)
      ultimately have "recv_took (length ?got) s ?t" using False g k by (simp add: recv_took_def)
      with False e show ?thesis by blast
    qed
  qed
qed

lemma recv_loop_rule:
  assumes "in_ok s" and "recv_weight (recv_script (sys s)) < fuel"
    and stop: "\<And>t. gathered s t \<Longrightarrow> calm s \<longrightarrow> calm t \<Longrightarrow> incoming t = [] \<or> may_pause s \<Longrightarrow> Q True t"
    and fail: "\<And>t m c. gathered s t \<Longrightarrow> \<not> calm s \<Longrightarrow> outcome (\<lambda>_ u. Q False (u\<lparr>reconnect_ticks := 0\<rparr>)) E
          (andthen (handle_error env m c 0) (connection_close env True 0) t)"
  shows "outcome Q E (recv_loop env fuel s)"
  using assms
proof (induction fuel arbitrary: s)
  case 0
  then show ?case by simp
next
  case (Suc fuel)
  obtain rest s1 where r: "make_room s = (Inr rest, s1)" "gathered s s1" "sys s1 = sys s"
      "endp (receive_buffer s1) + rest \<le> capacity (receive_buffer s1)" "calm s \<longrightarrow> calm s1 \<and> 0 < rest"
    using make_room_ok [OF Suc.prems(1)] by blast
  then have p: "may_pause s1 = may_pause s" by (simp add: may_pause_def)
  have step: "outcome Q E (recv_loop env fuel t)"
    if "gathered s t" "recv_weight (recv_script (sys t)) < recv_weight (recv_script (sys s))"
      "may_pause t \<longrightarrow> may_pause s" "calm s \<longrightarrow> calm t" for t
    using that Suc.prems gathered_trans [OF that(1)] by (intro Suc.IH) (auto simp: gathered_def)
  have give_up: "outcome Q E (andthen (handle_error env m c 0)
        (andthen (connection_close env True 0) (\<lambda>s2. (Inr False, s2\<lparr>reconnect_ticks := 0\<rparr>))) t)"
    if "gathered s t" "\<not> calm s" for t m c
    using Suc.prems(4) [OF that] by (simp add: outcome_simps)
  have i1: "in_ok s1" using r(2) by (simp add: gathered_def)
  from sys_recv_cases [OF i1 r(4)] show ?case
  proof (elim disjE exE conjE, goal_cases)
    case (1 t)
    then have g: "gathered s t" using r(2) gathered_trans [of s s1 t] by (simp add: recv_failed_def)
    show ?thesis
    proof (cases "errno (sys t) = EAGAIN")
      case True
      then have "incoming t = [] \<or> may_pause s" using 1(2) p by (auto simp: recv_failed_def)
      moreover have "calm s \<longrightarrow> calm t" using 1(2) r(5) by (auto simp: recv_failed_def)
      ultimately show ?thesis
        using True 1(1) r(1) Suc.prems(3) [OF g] by (simp add: recv_loop.simps outcome_seq Let_def)
    next
      case False
      then show ?thesis
        using 1 r g p step [of t] give_up [OF g]
        by (auto simp: recv_loop.simps outcome_seq Let_def recv_failed_def EAGAIN_def EINTR_def)
    qed
  next
    case (2 t)
    then show ?thesis
      using r give_up [of t] gathered_trans [of s s1 t]
      by (auto simp: recv_loop.simps outcome_seq Let_def)
  next
    case (3 k t)
    then have "gathered s (grown k t)" using r(2) gathered_trans [of s s1 "grown k t"] by (simp add: recv_took_def)
    then have "outcome Q E (recv_loop env fuel (grown k t))"
      using 3 r p by (intro step) (auto simp: grown_def recv_took_def may_pause_def)
    with 3 r show ?thesis
      by (simp add: recv_loop.simps outcome_seq Let_def on_receive_def advance_def grown_def recv_took_def)
  qed
qed

end
