(* ===== verification/Connection_Framing.thy ===== *)
theory Connection_Framing
  imports Connection_Receiving
begin

text \<open>
  From bytes to responses: the detection loop finds the verges of responses, complete ones go to
  the caller, the beginning of the next one stays.
\<close>

section \<open>Streams of responses\<close>

definition stream :: "bytes list \<Rightarrow> bytes" where
  "stream bodies = concat (map frame bodies)"

definition sized :: "bytes list \<Rightarrow> bool" where
  "sized bodies \<longleftrightarrow> (\<forall>b \<in> set bodies. length b < 2 ^ 32)"

text \<open>A part of a response: it lacks at least one byte.\<close>

definition part_of :: "bytes \<Rightarrow> bytes \<Rightarrow> bool" where
  "part_of p body \<longleftrightarrow> length body < 2 ^ 32 \<and> (\<exists>rest. rest \<noteq> [] \<and> p @ rest = frame body)"

lemma stream_simps [simp]: "stream [] = []" "stream (b # bs) = frame b @ stream bs"
  by (simp_all add: stream_def)

lemma sized_simps [simp]: "sized []" "sized (b # bs) \<longleftrightarrow> length b < 2 ^ 32 \<and> sized bs"
  by (simp_all add: sized_def)

lemma length_frame [simp]: "length (frame b) = length b + 5"
  by (simp add: frame_def)

lemma part_shorter: "part_of p body \<Longrightarrow> length p < length body + 5"
proof -
  assume "part_of p body"
  then obtain rest where "rest \<noteq> []" "p @ rest = frame body" by (auto simp: part_of_def)
  then have "length p + length rest = length (frame body)" by (metis length_append)
  with \<open>rest \<noteq> []\<close> show ?thesis by (cases rest) simp_all
qed

lemma part_header:
  assumes "part_of p body" and "5 \<le> length p"
  obtains r where "p = 0xce # to_be 4 (length body) @ r"
proof -
  from assms(1) obtain rest where "p @ rest = frame body" by (auto simp: part_of_def)
  then have "take 5 p = take 5 (frame body)" using assms(2) by (simp flip: \<open>p @ rest = frame body\<close>)
  also have "\<dots> = 0xce # to_be 4 (length body)" by (simp add: frame_def)
  finally have "take 5 p @ drop 5 p = 0xce # to_be 4 (length body) @ drop 5 p" by simp
  then show thesis by (intro that) (simp only: append_take_drop_id)
qed

section \<open>Detection\<close>

text \<open>
  \<open>ahead s pre rest\<close>: the receive buffer holds \<open>pre\<close>, of which the responses are detected, and
  behind it \<open>rest\<close>.
\<close>

definition ahead :: "'h connection \<Rightarrow> bytes \<Rightarrow> bytes \<Rightarrow> bool" where
  "ahead s pre rest \<longleftrightarrow> content (receive_buffer s) = pre @ rest \<and> last_head s = length pre
     \<and> wf_buf (receive_buffer s) \<and> length (pre @ rest) < 2 ^ 63"

lemma ahead_orphaned:
  assumes "ahead s pre rest"
  shows "minus_size (endp (receive_buffer s)) (last_head s) = length rest"
proof -
  have "endp (receive_buffer s) = length pre + length rest"
    using assms buf_size_content [of "receive_buffer s"] by (simp add: ahead_def)
  with assms show ?thesis by (simp add: ahead_def minus_size_eq)
qed

lemma ahead_mem:
  assumes "ahead s pre rest"
  obtains spare where "drop (last_head s) (mem (receive_buffer s)) = rest @ spare"
proof -
  have "take (endp (receive_buffer s)) (mem (receive_buffer s)) = pre @ rest"
    using assms by (simp add: ahead_def content_def)
  moreover have "last_head s = length pre" using assms by (simp add: ahead_def)
  ultimately have "drop (last_head s) (take (endp (receive_buffer s)) (mem (receive_buffer s))
      @ drop (endp (receive_buffer s)) (mem (receive_buffer s)))
      = rest @ drop (endp (receive_buffer s)) (mem (receive_buffer s))"
    by simp
  then show thesis by (intro that) (simp only: append_take_drop_id)
qed

lemma detect_size_reads:
  assumes lib: "msgpuck_lib (lib env)" and a: "ahead s pre (0xce # to_be 4 n @ r)" and n: "n < 2 ^ 32"
    and d: "detected s = 0"
  shows "detect_size env (length (0xce # to_be 4 n @ r)) s = (Inr (), s\<lparr>detected := n + 5\<rparr>)"
proof -
  let ?h = "0xce # to_be 4 n"
  have h: "hdr_uint n ?h" using n by (simp add: hdr_uint_def)
  obtain spare where m: "drop (last_head s) (mem (receive_buffer s)) = (0xce # to_be 4 n @ r) @ spare"
    using ahead_mem [OF a] by blast
  then have b: "deref (mem (receive_buffer s)) (last_head s) = Inr 0xce"
  proof -
    have "last_head s < length (mem (receive_buffer s))" using m by (rule_tac ccontr) simp
    then show ?thesis using hd_drop_conv_nth [of "last_head s" "mem (receive_buffer s)"] m
      by (simp add: deref_def)
  qed
  have t: "mp_typeof (lib env) 0xce = MP_UINT"
    using msgpuck_lib.typeof_wire [OF lib wire_uint [OF h]] by simp
  have "mp_decode_uint (lib env) (drop (last_head s) (mem (receive_buffer s))) = (of_nat n, length ?h)"
    using msgpuck_lib.dec_uint [OF lib h, of "r @ spare"] m by simp
  moreover have "unat (of_nat n :: u64) = n" using n by (simp add: unsigned_of_nat take_bit_nat_eq_self)
  ultimately show ?thesis using b t d n by (simp add: detect_size_def)
qed

text \<open>One response found.\<close>

lemma detect_loop_step:
  assumes lib: "msgpuck_lib (lib env)" and a: "ahead s pre (frame b @ rest)" and n: "length b < 2 ^ 32"
    and d: "detected s = 0 \<or> detected s = length (frame b)"
  shows "detect_loop env (Suc fuel) s
    = detect_loop env fuel (s\<lparr>last_head := length (pre @ frame b), detected := 0\<rparr>)"
proof -
  have o: "minus_size (endp (receive_buffer s)) (last_head s) = length (frame b @ rest)"
    by (rule ahead_orphaned [OF a])
  have l: "last_head s = length pre" "length pre + (length b + 5) < 2 ^ 63"
    using a by (simp_all add: ahead_def)
  have "detect_size env (length (frame b @ rest)) s = (Inr (), s\<lparr>detected := length b + 5\<rparr>)"
  proof (cases "detected s = 0")
    case True
    with detect_size_reads [OF lib _ n, of s pre "b @ rest"] a show ?thesis
      by (simp add: frame_def)
  next
    case False
    with d show ?thesis by (simp add: detect_size_def)
  qed
  with o l show ?thesis
    by (subst detect_loop.simps) (simp add: Let_def andthen_def seq_def)
qed

definition part_size :: "bytes \<Rightarrow> bytes \<Rightarrow> nat" where
  "part_size p body = (if length p < 5 then 0 else length (frame body))"

lemma detected_same: "detected s = n \<Longrightarrow> s\<lparr>detected := n\<rparr> = s"
  by simp

lemma detect_loop_part:
  assumes lib: "msgpuck_lib (lib env)" and a: "ahead s pre p" and p: "part_of p body"
    and d: "detected s = 0 \<or> detected s = part_size p body"
  shows "detect_loop env (Suc fuel) s = (Inr (), s\<lparr>detected := part_size p body\<rparr>)"
proof -
  have o: "minus_size (endp (receive_buffer s)) (last_head s) = length p"
    by (rule ahead_orphaned [OF a])
  have "detect_size env (length p) s = (Inr (), s\<lparr>detected := part_size p body\<rparr>)"
  proof (cases "5 \<le> length p \<and> detected s = 0")
    case True
    then obtain r where r: "p = 0xce # to_be 4 (length body) @ r" using part_header [OF p] by blast
    have n: "length body < 2 ^ 32" using p by (simp add: part_of_def)
    have "detect_size env (length p) s = (Inr (), s\<lparr>detected := length body + 5\<rparr>)"
      unfolding r by (rule detect_size_reads [OF lib a [unfolded r] n]) (use True in simp)
    with True show ?thesis by (simp add: part_size_def)
  next
    case False
    with d have "detected s = part_size p body" by (auto simp: part_size_def)
    with False show ?thesis by (simp only: detected_same detect_size_def) (auto simp: part_size_def)
  qed
  moreover have "\<not> (part_size p body \<noteq> 0 \<and> part_size p body \<le> length p)"
    using part_shorter [OF p] by (simp add: part_size_def)
  ultimately show ?thesis
    using o by (subst detect_loop.simps) (auto simp: Let_def andthen_def seq_def)
qed

text \<open>What is known of the response behind the detected ones.\<close>

fun known_size :: "bytes list \<Rightarrow> bytes \<Rightarrow> bytes \<Rightarrow> nat" where
  "known_size [] p body = part_size p body"
| "known_size (b # bs) p body = length (frame b)"

lemma detect_loop_finds:
  assumes lib: "msgpuck_lib (lib env)" and "ahead s pre (stream bs @ p)" and "sized bs"
    and p: "part_of p body" and "detected s = 0 \<or> detected s = known_size bs p body" and "length bs < fuel"
  shows "detect_loop env fuel s
    = (Inr (), s\<lparr>last_head := length (pre @ stream bs), detected := part_size p body\<rparr>)"
  using assms(2-)
proof (induction bs arbitrary: s pre fuel)
  case Nil
  then obtain k where "fuel = Suc k" by (cases fuel) auto
  with Nil detect_loop_part [OF lib _ p, of s pre k] show ?case by (simp add: ahead_def)
next
  case (Cons b bs)
  then obtain k where k: "fuel = Suc k" "length bs < k" by (cases fuel) auto
  let ?s = "s\<lparr>last_head := length (pre @ frame b), detected := 0\<rparr>"
  have "detect_loop env fuel s = detect_loop env k ?s"
    using detect_loop_step [OF lib, of s pre b "stream bs @ p" k] Cons.prems k(1) by simp
  moreover have "detect_loop env k ?s
      = (Inr (), ?s\<lparr>last_head := length ((pre @ frame b) @ stream bs), detected := part_size p body\<rparr>)"
    using Cons.prems k(2) by (intro Cons.IH) (simp_all add: ahead_def)
  ultimately show ?case by simp
qed

section \<open>Handing over\<close>

lemma split_ok:
  assumes i: "in_ok s" and a: "ahead s pre rest"
  obtains b c where
    "split_input s = (Inr (), s\<lparr>input_buffer := b, receive_buffer := c, last_head := 0\<rparr>)"
    and "wf_buf b" "growable b" "content b = pre" and "wf_buf c" "growable c" "content c = rest"
proof -
  let ?r = "receive_buffer s" and ?i = "clear (input_buffer s)"
  have w: "wf_buf ?r" "growable ?r" "wf_buf ?i" "growable ?i"
    using i by (simp_all add: in_ok_def)
  have l: "last_head s = length pre" "content ?r = pre @ rest" using a by (simp_all add: ahead_def)
  have e: "endp ?r = length pre + length rest"
    using buf_size_content [OF w(1)] l(2) by simp
  have o: "minus_size (endp ?r) (last_head s) = length rest" by (rule ahead_orphaned [OF a])
  show thesis
  proof (cases "rest = []")
    case True
    then have "split_input s = (Inr (), s\<lparr>input_buffer := ?r, receive_buffer := ?i, last_head := 0\<rparr>)"
      unfolding split_input_def Let_def o by (simp only: True list.size if_True andthen_def seq_def ret_apply modify_def
          prod.case sum.case simp_thms)
    moreover have "content ?r = pre" "content ?i = rest" using l(2) True by simp_all
    ultimately show thesis by (rule that [OF _ w(1,2) _ w(3,4)])
  next
    case False
    obtain c where c: "resize (length rest) ?i = (Inr (), c)" "wf_buf c" "growable c"
        "capacity c = max (length rest) (capacity ?i)" "endp c = length rest"
      using resize_ok [OF w(3,4)] by blast
    have m: "last_head s + length rest \<le> length (mem ?r)"
      using w(1) e l(1) by (simp add: wf_buf_def capacity_def)
    obtain spare where "drop (last_head s) (mem ?r) = rest @ spare" using ahead_mem [OF a] by blast
    then have t: "take (length rest) (drop (last_head s) (mem ?r)) = rest" by simp
    let ?c = "c\<lparr>mem := overwrite 0 rest (mem c)\<rparr>"
    have k: "length rest \<le> capacity c" using c(4) by simp
    have n: "resize (endp ?r - length rest) ?r = (Inr (), ?r\<lparr>endp := length pre\<rparr>)"
      using w(1) e by (simp add: resize_within wf_buf_def)
    have "split_input s = (Inr (), s\<lparr>input_buffer := ?r\<lparr>endp := length pre\<rparr>, receive_buffer := ?c, last_head := 0\<rparr>)"
      using o False c(1) m t k n
      by (simp add: split_input_def Let_def andthen_def seq_def modify_def on_receive_def on_input_def poke_def)
    moreover have "wf_buf ?c" "growable ?c" "content ?c = rest"
      using c k by (auto simp: wf_buf_def growable_def capacity_def content_def overwrite_def)
    moreover have "wf_buf (?r\<lparr>endp := length pre\<rparr>)" "growable (?r\<lparr>endp := length pre\<rparr>)"
      "content (?r\<lparr>endp := length pre\<rparr>) = pre"
      using w e l(2) by (auto simp: wf_shrink content_shrink wf_buf_def)
    ultimately show thesis using that by blast
  qed
qed

text \<open>The state after a hand-over: \<open>pre\<close> is the caller's, \<open>rest\<close> stays.\<close>

definition handed :: "'h connection \<Rightarrow> bytes \<Rightarrow> bytes \<Rightarrow> 'h connection \<Rightarrow> bool" where
  "handed s pre rest t \<longleftrightarrow> content (input_buffer t) = pre \<and> content (receive_buffer t) = rest
     \<and> last_head t = 0 \<and> detected t = detected s \<and> st t = st s \<and> sock t = sock s \<and> in_ok t"

lemma handed_core: "core t = core u \<Longrightarrow> handed s pre rest t = handed s pre rest u"
  using core_fields [of t u] core_conditions(2) [of t u] by (simp add: handed_def)

lemma pass_ok:
  assumes q: "quiet env" and i: "in_ok s" and a: "ahead s pre rest" and p: "pre \<noteq> []" and h: "response_cb s = Some h"
  shows "firm (handed s pre rest) (pass_response_to_caller (Suc (Suc d)) env s)"
proof -
  obtain b c where s: "split_input s = (Inr (), s\<lparr>input_buffer := b, receive_buffer := c, last_head := 0\<rparr>)"
    and w: "wf_buf b" "growable b" "content b = pre" "wf_buf c" "growable c" "content c = rest"
    using split_ok [OF i a] by blast
  let ?t = "s\<lparr>input_buffer := b, receive_buffer := c, last_head := 0\<rparr>\<lparr>caller_idle := False\<rparr>"
  have t: "handed s pre rest ?t" using w by (simp add: handed_def in_ok_def)
  have again: "firm (handed s pre rest)
      (andthen (handle_error env (what e) E_system 0)
         (\<lambda>s2. pass_response_to_caller (Suc d) env (s2\<lparr>caller_idle := True\<rparr>)) u)" if u: "core u = core ?t" for u e
  proof (rule firm_andthen [where P = "\<lambda>v. core v = core u" and s = u])
    show "firm (\<lambda>v. core v = core u) (handle_error env (what e) E_system 0 u)"
      by (rule quiet_handle_error [OF q])
    fix v :: "'a connection"
    assume "core v = core u"
    then have "core v = core ?t" using u by simp
    then have "handed s pre rest v" using handed_core t by blast
    then show "firm (handed s pre rest) (pass_response_to_caller (Suc d) env (v\<lparr>caller_idle := True\<rparr>))"
      by (simp add: pass_response_to_caller.simps handed_def in_ok_def)
  qed
  have "firm (handed s pre rest) (catching (call_opt env response_cb InputArg)
      (\<lambda>e. andthen (handle_error env (what e) E_system 0)
         (\<lambda>s2. pass_response_to_caller (Suc d) env (s2\<lparr>caller_idle := True\<rparr>))) ?t)"
    unfolding outcome_catching
  proof (rule keeps_then [OF quiet_call [OF q]])
    show "handed s pre rest u" if "core u = core ?t" for u
      using that handed_core t by blast
    show "if fatal e then False else firm (handed s pre rest) (andthen (handle_error env (what e) E_system 0)
         (\<lambda>s2. pass_response_to_caller (Suc d) env (s2\<lparr>caller_idle := True\<rparr>)) u)"
      if "\<not> fatal e" "core u = core ?t" for e u
      using that(1) again [OF that(2)] by simp
  qed
  moreover have "last_head s \<noteq> 0" using a p by (simp add: ahead_def)
  ultimately show ?thesis
    using s h by (subst pass_response_to_caller.simps) (simp add: andthen_def [of split_input] seq_def [of split_input])
qed

section \<open>Reading from an open connection\<close>

text \<open>
  A connection in its working state that finds the rest of the responses \<open>bs\<close> and a part of a
  further one at its socket, in any pieces, with its receive buffer holding the beginning.
\<close>

definition receives :: "'h connection \<Rightarrow> bytes list \<Rightarrow> bytes \<Rightarrow> bytes \<Rightarrow> bool" where
  "receives s bs p body \<longleftrightarrow> in_ok s \<and> 0 \<le> sock s \<and> st s = Connected \<and> calm s \<and> \<not> may_pause s
     \<and> last_head s = 0 \<and> content (receive_buffer s) @ incoming s = stream bs @ p
     \<and> sized bs \<and> part_of p body \<and> (detected s = 0 \<or> detected s = known_size bs p body)"

lemma length_stream: "length bs \<le> length (stream bs)"
  by (induction bs) simp_all

lemma core_idle [simp]: "sock (s\<lparr>idle_ticks := 0\<rparr>) = sock s" by simp

text \<open>
  What the socket has is gathered behind what the receive buffer holds; what becomes of it depends on
  the state.
\<close>

definition arrived :: "'h connection \<Rightarrow> bytes" where
  "arrived s = content (receive_buffer s) @ incoming s"

lemma read_gathers:
  assumes i: "in_ok s" "calm s" "\<not> may_pause s" "0 \<le> sock s"
    and then_: "\<And>t. in_ok t \<Longrightarrow> beside t = beside (s\<lparr>idle_ticks := 0\<rparr>) \<Longrightarrow> content (receive_buffer t) = arrived s \<Longrightarrow> calm t \<Longrightarrow>
         outcome Q E (if st t = Connecting
           then if endp (receive_buffer t) < GREETING_SIZE then (Inr (), t)
             else andthen (modify (\<lambda>s. s\<lparr>greeting := content (receive_buffer s)\<rparr>))
               (andthen clear_receive_buffer
               (andthen (modify (\<lambda>s. s\<lparr>st := FeaturesRequest\<rparr>))
               (andthen clear_send_buffer
               (andthen (\<lambda>s. compose_to_send (encode_id_request (lib env) next_request_id (required_proto s)) s)
                 (connection_write env))))) t
           else process_receive_buffer env t)"
  shows "outcome Q E (connection_read env s)"
proof -
  let ?s = "s\<lparr>idle_ticks := 0\<rparr>"
  have j: "in_ok ?s" "calm ?s" "\<not> may_pause ?s" "incoming ?s = incoming s"
    using i by (simp_all add: in_ok_def calm_def may_pause_def incoming_def)
  have "\<not> sock s < 0" using i(4) by simp
  then show ?thesis
    unfolding connection_read_def if_not_P [OF \<open>\<not> sock s < 0\<close>] outcome_seq
  proof (intro recv_loop_rule [OF j(1)], goal_cases)
    case 1
    then show ?case by simp
  next
    case (2 t)
    then have "in_ok t" "beside t = beside ?s" "content (receive_buffer t) = arrived s" "calm t"
      using j(2,3,4) by (auto simp: gathered_def arrived_def)
    then show ?case using then_ by simp
  next
    case (3 t m c)
    with j(2) show ?case by simp
  qed
qed

lemma read_detects:
  assumes lib: "msgpuck_lib (lib env)" and r: "receives s bs p body"
    and then_: "\<And>t. in_ok t \<Longrightarrow> content (receive_buffer t) = stream bs @ p \<Longrightarrow> wf_buf (receive_buffer t) \<Longrightarrow>
         last_head t = length (stream bs) \<Longrightarrow> detected t = part_size p body \<Longrightarrow> st t = Connected \<Longrightarrow>
         sock t = sock s \<Longrightarrow> input_buffer t = input_buffer s \<Longrightarrow> caller_idle t = caller_idle s \<Longrightarrow>
         response_cb t = response_cb s \<Longrightarrow> length (stream bs @ p) < 2 ^ 63 \<Longrightarrow>
         outcome Q E (if last_head t = 0 then (Inr (), t)
           else if caller_idle t then pass_response_to_caller (depth env) env t else (Inr (), t))"
  shows "outcome Q E (connection_read env s)"
proof (rule read_gathers, goal_cases)
  case (5 t)
  then have e: "in_ok t" "content (receive_buffer t) = stream bs @ p"
    using r by (simp_all add: receives_def arrived_def)
  note f = beside_fields [OF 5(2)]
  have w: "wf_buf (receive_buffer t)" using e(1) by (simp add: in_ok_def)
  have len: "length (stream bs @ p) < 2 ^ 63"
  proof -
    have "length (stream bs @ p) = length (content (receive_buffer s)) + length (incoming s)"
      using r by (metis receives_def length_append)
    also have "length (content (receive_buffer s)) = endp (receive_buffer s)"
      using r by (intro buf_size_content) (simp add: receives_def in_ok_def)
    also have "endp (receive_buffer s) + length (incoming s) < 2 ^ 62" using r by (simp add: receives_def calm_def)
    finally show ?thesis by simp
  qed
  have a: "ahead t [] (stream bs @ p)"
    using e(2) f w len r by (simp add: ahead_def receives_def)
  have n: "length bs < Suc (endp (receive_buffer t))"
    using buf_size_content [OF w] e(2) length_stream [of bs] by simp
  let ?t = "t\<lparr>last_head := length ([] @ stream bs), detected := part_size p body\<rparr>"
  have d: "detect_loop env (Suc (endp (receive_buffer t))) t = (Inr (), ?t)"
    using r f n by (intro detect_loop_finds [OF lib a]) (auto simp: receives_def)
  have le: "length (stream bs) \<le> endp (receive_buffer t)"
    using buf_size_content [OF w] e(2) by simp
  have s: "st t = Connected" "sock t = sock s" "input_buffer t = input_buffer s" "caller_idle t = caller_idle s"
    "response_cb t = response_cb s"
    using r f by (simp_all add: receives_def)
  have "outcome Q E (if last_head ?t = 0 then (Inr (), ?t)
         else if caller_idle ?t then pass_response_to_caller (depth env) env ?t else (Inr (), ?t))"
    using e w s len le by (intro then_) (simp_all add: in_ok_def)
  with s(1) d show ?case
    by (auto simp: process_receive_buffer_def andthen_def seq_def)
qed (use r in \<open>simp_all add: receives_def\<close>)


text \<open>
  C12: While the caller is at work on its input buffer, reading leaves that buffer alone: new
  responses wait in the receive buffer, where \<open>input_processed\<close> finds them.
\<close>
theorem busy_caller_undisturbed:
  assumes "msgpuck_lib (lib env)" and "receives s bs p body" and "\<not> caller_idle s"
  shows "firm (\<lambda>t. input_buffer t = input_buffer s \<and> content (receive_buffer t) = stream bs @ p
           \<and> last_head t = length (stream bs) \<and> \<not> caller_idle t) (connection_read env s)"
  by (rule read_detects [OF assms(1,2)]) (use assms(3) in simp)

definition demo_receiving :: "nat connection" where
  "demo_receiving = demo_conn\<lparr>sock := 3, st := Connected, receive_buffer := append_bytes [0xce, 0, 0] (buf_of_size 8),
     response_cb := Some 7,
     sys := still_world\<lparr>recv_script := [Data [0, 2, 0x80], RecvErr EINTR, Data [0x80, 0xce, 0]]\<rparr>\<rparr>"

lemma to_be_2: "to_be 4 (Suc (Suc 0)) = [0, 0, 0, 2]"
  by (simp add: to_be_numeral)

lemma demo_receives: "receives demo_receiving [[0x80, 0x80]] [0xce, 0] []"
proof -
  have "[0xce, 0] @ [0, 0, 0] = frame []" by (simp add: frame_def to_be_numeral)
  then have "part_of [0xce, 0] []" unfolding part_of_def by force
  then show ?thesis
    by (simp add: receives_def demo_receiving_def in_ok_def calm_def may_pause_def incoming_def still_world_def
        EAGAIN_def EINTR_def frame_def to_be_2)
qed


theorem busy_caller_undisturbed_witness:
  "firm (\<lambda>t. input_buffer t = input_buffer (demo_receiving\<lparr>caller_idle := False\<rparr>)
           \<and> content (receive_buffer t) = stream [[0x80, 0x80]] @ [0xce, 0]
           \<and> last_head t = length (stream [[0x80, 0x80]]) \<and> \<not> caller_idle t)
     (connection_read silent_env (demo_receiving\<lparr>caller_idle := False\<rparr>))"
proof (rule busy_caller_undisturbed)
  show "receives (demo_receiving\<lparr>caller_idle := False\<rparr>) [[0x80, 0x80]] [0xce, 0] []"
    using demo_receives by (simp add: receives_def in_ok_def calm_def may_pause_def incoming_def)
qed (simp_all add: silent_env_def ref.msgpuck_lib_axioms)

end
