(* ===== verification/Connection_Lifecycle.thy ===== *)
theory Connection_Lifecycle
  imports Connection_Framing
begin

text \<open>
  Opening, the resolver's answers, timeouts and notifications: one attempt at a time, the order
  of attempts, when the connector tries again, and the queue of handlers.
\<close>

text \<open>What comes after an error was reported, and after the watcher was told.\<close>

lemma error_then:
  "quiet env \<Longrightarrow> (\<And>t. core t = core s \<Longrightarrow> outcome Q E (g t)) \<Longrightarrow>
     outcome Q E (andthen (handle_error env m c d) g s)"
  unfolding outcome_andthen by (rule firm_then [OF quiet_handle_error])

lemma watch_then:
  "quiet env \<Longrightarrow> (\<And>t. core t = core (s\<lparr>prev_watch := m\<rparr>) \<Longrightarrow> outcome Q E (g t)) \<Longrightarrow>
     outcome Q E (andthen (watch_socket env m) g s)"
  unfolding outcome_andthen by (rule firm_then [OF quiet_watch])

section \<open>Opening\<close>

text \<open>
  There is never a second attempt beside the first: \<open>connection_open\<close> leaves a connection that
  is not disconnected, or whose resolver still runs, as it is; a delay only sets the clock.
\<close>
theorem open_exclusive:
  assumes q: "quiet env" and s: "st s \<noteq> Disconnected \<or> (delay \<le> 0 \<and> resolver_joinable s)"
  shows "firm (\<lambda>t. core t = core s) (connection_open env delay s)"
  using s quiet_handle_error [OF q] by (auto simp: connection_open_def)

theorem open_exclusive_witness:
  "firm (\<lambda>t. core t = core (demo_conn\<lparr>st := Connecting\<rparr>)) (connection_open silent_env 5 (demo_conn\<lparr>st := Connecting\<rparr>))"
  by (rule open_exclusive [OF quiet_silent]) simp

text \<open>
  A socket path that is longer than \<^verbatim>\<open>sun_path\<close> is copied over its end.
\<close>
theorem open_path_overruns:
  assumes "st s = Disconnected" and "delay \<le> 0" and "\<not> resolver_joinable s"
    and "parse_cs (getenv env) (current_cs s) = Some p" and "host p = []"
    and "SUN_PATH_SIZE < length (unix_socket_path p)"
    and "connect_script (sys s) = Attempt f e # rest"
  shows "fst (connection_open env delay s) = Inl Overrun"
  using assms
  by (cases e) (auto simp: connection_open_def open_unix_def Let_def seq_def sys_connect_def SUN_PATH_SIZE_def)

lemma long_path: "parse_cs g (CHR ''/'' # replicate 110 (CHR ''a''))
    = Some (no_parts\<lparr>unix_socket_path := CHR ''/'' # replicate 110 (CHR ''a'')\<rparr>)"
proof -
  have "get_chunk separators (CHR ''/'' # replicate 110 (CHR ''a'')) = ([], CHR ''/'' # replicate 110 (CHR ''a''))"
    by (simp add: get_chunk_def separators_def)
  moreover have "char_at 1 (CHR ''/'' # replicate 110 (CHR ''a'')) = CHR ''a''"
    by (simp add: char_at_def)
  ultimately have "parse_string (CHR ''/'' # replicate 110 (CHR ''a''))
      = Parts (no_parts\<lparr>unix_socket_path := CHR ''/'' # replicate 110 (CHR ''a'')\<rparr>)"
    by (simp add: parse_string_def parse_loop.simps [of True] no_parts_def)
  then show ?thesis by (simp add: parse_cs.simps [of g])
qed

theorem open_path_overruns_witness:
  "fst (connection_open silent_env 0 (demo_conn\<lparr>current_cs := CHR ''/'' # replicate 110 (CHR ''a''),
     sys := still_world\<lparr>connect_script := [Attempt 3 None]\<rparr>\<rparr>)) = Inl Overrun"
  by (rule open_path_overruns [where p = "no_parts\<lparr>unix_socket_path := CHR ''/'' # replicate 110 (CHR ''a'')\<rparr>"])
     (simp_all add: long_path no_parts_def SUN_PATH_SIZE_def)

section \<open>The resolver's addresses\<close>

text \<open>What the first address with a socket decides.\<close>

definition attempted :: "'h connection \<Rightarrow> int \<Rightarrow> int option \<Rightarrow> 'h connection \<Rightarrow> bool" where
  "attempted s f err t \<longleftrightarrow>
     (case err of
        None \<Rightarrow> st t = Connecting \<and> sock t = f \<and> prev_watch t = W_read \<and> io_trace t = io_trace s
      | Some e \<Rightarrow>
          if e = EINPROGRESS
          then st t = Connecting \<and> sock t = f \<and> prev_watch t = W_write \<and> reconnect_ticks t = 0 \<and> io_trace t = io_trace s
          else st t = Disconnected \<and> sock t = sock s \<and> reconnect_ticks t = 0 \<and> io_trace t = io_trace s @ [SysClosed f])"

lemma attempted_core: "core t = core u \<Longrightarrow> attempted s f err t = attempted s f err u"
  using core_fields [of t u] by (simp add: attempted_def split: option.splits)

lemma attempted_from: "sock s = sock u \<Longrightarrow> io_trace s = io_trace u \<Longrightarrow> attempted s f err t = attempted u f err t"
  by (cases err) (simp_all add: attempted_def)

lemma close_closed:
  assumes "sock s < 0"
  shows "connection_close env b 0 s = (Inr (), s\<lparr>greeting := [], server_proto := no_proto, st := Disconnected,
     request_id := 0, idle_ticks := 0, reconnect_ticks := - 1\<rparr>)"
  using assms by (simp add: connection_close_def noexcept_def catching_def Let_def)

lemma take_sock_free:
  "sock s < 0 \<Longrightarrow> take_sock f s = (Inr (), s\<lparr>sock := f\<rparr>)"
  by (simp add: take_sock_def close_sock_def andthen_def seq_def modify_def)

definition settled :: "'h connection \<Rightarrow> int \<Rightarrow> int option \<Rightarrow> bool \<Rightarrow> 'h connection \<Rightarrow> bool" where
  "settled s f err failed t \<longleftrightarrow>
     attempted s f err (if failed then t\<lparr>st := Disconnected, reconnect_ticks := 0\<rparr> else t)"

lemma settled_simps [simp]:
  "settled s f err False t = attempted s f err t"
  "settled s f err True t = attempted s f err (t\<lparr>st := Disconnected, reconnect_ticks := 0\<rparr>)"
  by (simp_all add: settled_def)

lemma try_connect_ok:
  assumes q: "quiet env" and s: "sock s < 0"
  shows "outcome (settled s f err) (\<lambda>_ _. False) (try_connect env EINPROGRESS f err s)"
proof -
  let ?c = "s\<lparr>st := Connecting\<rparr>"
  have take: "take_sock f ?c = (Inr (), ?c\<lparr>sock := f\<rparr>)" using s by (simp add: take_sock_free)
  have io: "io_trace (s\<lparr>st := a, sock := b, prev_watch := m\<rparr>) = io_trace s" for a b m by (simp add: io_trace_def)
  show ?thesis
  proof (cases err)
    case None
    with take show ?thesis
      by (simp add: try_connect_def outcome_simps modify_def [of "\<lambda>s. s\<lparr>st := Connecting\<rparr>"])
        (rule firm_then [OF quiet_watch [OF q]], subst attempted_core, assumption, simp add: attempted_def io)
  next
    case (Some e)
    show ?thesis
    proof (cases "e = EINPROGRESS")
      case True
      have attempted_after_watch: "attempted s f (Some EINPROGRESS) (t\<lparr>reconnect_ticks := 0\<rparr>)"
        if "core t = core (?c\<lparr>sock := f, prev_watch := W_write\<rparr>)" for t
        using core_fields [OF that] by (simp add: attempted_def) (simp add: io_trace_def)
      from Some True take show ?thesis
        by (simp add: try_connect_def outcome_simps)
          (rule firm_then [OF quiet_watch [OF q]], simp add: attempted_after_watch)
    next
      case False
      have "outcome (settled s f err) (\<lambda>_ _. False)
          (andthen (connection_close env False 0) (andthen (log_event (SysClosed f)) (ret True)) t)"
        if t: "core t = core ?c" for t
        using core_fields [OF t] s Some False close_closed [of t env False]
        by (simp add: outcome_simps attempted_def) (simp add: io_trace_def logged_def)
      with Some False show ?thesis
        by (simp add: try_connect_def outcome_modify outcome_andthen [of _ _ "modify _"]
            outcome_andthen [of _ _ "handle_error _ _ _ _"])
          (rule firm_then [OF quiet_handle_error [OF q]], simp)
    qed
  qed
qed

lemma sys_connect_none:
  "connect_script (sys s) = NoSocket e # rest \<Longrightarrow>
     sys_connect s = (Inr None, s\<lparr>sys := (sys s)\<lparr>errno := e, connect_script := rest\<rparr>\<rparr>)"
  by (simp add: sys_connect_def)

lemma try_addresses_ok:
  assumes q: "quiet env"
  shows "sock s < 0 \<Longrightarrow> length es < length addrs \<Longrightarrow>
    connect_script (sys s) = map NoSocket es @ Attempt f err # rest \<Longrightarrow>
    firm (attempted s f err) (try_addresses env addrs s)"
proof (induction addrs arbitrary: s es)
  case Nil
  then show ?case by simp
next
  case (Cons a addrs)
  show ?case
  proof (cases es)
    case Nil
    obtain w where c: "sys_connect s = (Inr (Some (f, err)), s\<lparr>sys := w\<rparr>)" and w: "trace w = trace (sys s)"
      using Cons.prems(3) Nil by (cases err) (auto simp: sys_connect_def)
    let ?s = "s\<lparr>sys := w\<rparr>"
    have same: "attempted ?s f err t = attempted s f err t" for t
      by (rule attempted_from) (simp_all add: io_trace_def w)
    have "outcome (settled ?s f err) (\<lambda>_ _. False) (try_connect env EINPROGRESS f err ?s)"
      using Cons.prems(1) by (intro try_connect_ok [OF q]) simp
    then have "firm (attempted s f err) (seq (try_connect env EINPROGRESS f err) (\<lambda>failed.
             if failed then modify (\<lambda>s. s\<lparr>st := Disconnected, reconnect_ticks := 0\<rparr>) else ret ()) ?s)"
      unfolding outcome_seq
    proof (rule outcome_conseq)
      fix x :: bool and t :: "'a connection"
      assume "settled ?s f err x t"
      then show "firm (attempted s f err)
          ((if x then modify (\<lambda>s. s\<lparr>st := Disconnected, reconnect_ticks := 0\<rparr>) else ret ()) t)"
        by (cases x) (simp_all add: outcome_modify same)
    qed simp
    with c show ?thesis by (simp add: outcome_seq [of _ _ sys_connect])
  next
    case (Cons e es')
    let ?s = "s\<lparr>sys := (sys s)\<lparr>errno := e, connect_script := map NoSocket es' @ Attempt f err # rest\<rparr>\<rparr>"
    have c: "sys_connect s = (Inr None, ?s)"
      using Cons.prems(3) Cons by (simp add: sys_connect_none)
    have step: "firm (attempted s f err) (try_addresses env addrs t)" if t: "core t = core ?s" for t
    proof -
      have "connect_script (sys t) = connect_script (sys ?s)"
        using arg_cong [OF t, of "\<lambda>s. connect_script (sys s)"] by (simp add: core_def)
      then have "firm (attempted t f err) (try_addresses env addrs t)"
        using core_fields(1) [OF t] Cons.prems(1,2) Cons by (intro Cons.IH [of t es']) simp_all
      moreover have "attempted t f err = attempted s f err"
      proof (rule ext, rule attempted_from)
        show "sock t = sock s" using core_fields(1) [OF t] by simp
        have "io_trace ?s = io_trace s" by (simp add: io_trace_def)
        with core_fields(23) [OF t] show "io_trace t = io_trace s" by simp
      qed
      ultimately show ?thesis by simp
    qed
    have "firm (attempted s f err) (andthen (handle_error env [] E_system 0) (try_addresses env addrs) ?s)"
      by (rule error_then [OF q step])
    with c show ?thesis by (simp add: outcome_seq)
  qed
qed



section \<open>Timeouts\<close>

lemma tick_waits:
  assumes "st s = Disconnected" and "0 \<le> reconnect_ticks s" and "reconnect_ticks s + 1 < reconnect_timeout s"
  shows "tick_1sec env s = (Inr (), s\<lparr>reconnect_ticks := reconnect_ticks s + 1\<rparr>)"
  using assms by (simp add: tick_1sec_def noexcept_def catching_def Let_def is_opened_def)

lemma tick_opens:
  assumes "st s = Disconnected" and "0 \<le> reconnect_ticks s" and "reconnect_timeout s \<le> reconnect_ticks s + 1"
    and "\<not> resolver_joinable s" and "parse_cs (getenv env) (current_cs s) = Some p" and "host p \<noteq> []"
  shows "tick_1sec env s = (Inr (), s\<lparr>reconnect_ticks := - 1, reconnect_timeout := GENERAL_TIMEOUT, parts := p,
     st := AddressResolving, resolver_joinable := True\<rparr>)"
  using assms by (simp add: tick_1sec_def noexcept_def catching_def Let_def connection_open_def)

lemma ticks_wait:
  assumes "st s = Disconnected" and "0 \<le> reconnect_ticks s"
  shows "reconnect_ticks s + int k < reconnect_timeout s \<Longrightarrow>
    skip_n (tick_1sec env) k s = (Inr (), s\<lparr>reconnect_ticks := reconnect_ticks s + int k\<rparr>)"
  using assms
proof (induction k arbitrary: s)
  case 0
  then show ?case by simp
next
  case (Suc k)
  let ?s = "s\<lparr>reconnect_ticks := reconnect_ticks s + 1\<rparr>"
  have "tick_1sec env s = (Inr (), ?s)" using Suc.prems by (intro tick_waits) simp_all
  moreover have "skip_n (tick_1sec env) k ?s = (Inr (), ?s\<lparr>reconnect_ticks := reconnect_ticks ?s + int k\<rparr>)"
    using Suc.prems by (intro Suc.IH) simp_all
  ultimately show ?case by (simp add: andthen_Inr algebra_simps)
qed

text \<open>
  C15: A closed connection that is to be reopened waits for exactly its timeout: all ticks before
  the last only count, the last one starts the resolver and stops the clock.
\<close>
theorem tick_reconnects:
  assumes "st s = Disconnected" and "reconnect_ticks s = 0" and "reconnect_timeout s = int n" and "k < n"
    and "\<not> resolver_joinable s" and "parse_cs (getenv env) (current_cs s) = Some p" and "host p \<noteq> []"
  shows "skip_n (tick_1sec env) k s = (Inr (), s\<lparr>reconnect_ticks := int k\<rparr>)
     \<and> andthen (skip_n (tick_1sec env) (n - 1)) (tick_1sec env) s
          = (Inr (), s\<lparr>reconnect_ticks := - 1, reconnect_timeout := GENERAL_TIMEOUT, parts := p,
               st := AddressResolving, resolver_joinable := True\<rparr>)"
proof -
  have w: "skip_n (tick_1sec env) j s = (Inr (), s\<lparr>reconnect_ticks := int j\<rparr>)" if "j < n" for j
    using ticks_wait [of s j env] assms(1-3) that by simp
  moreover have "tick_1sec env (s\<lparr>reconnect_ticks := int (n - 1)\<rparr>)
      = (Inr (), s\<lparr>reconnect_ticks := int (n - 1)\<rparr>\<lparr>reconnect_ticks := - 1, reconnect_timeout := GENERAL_TIMEOUT, parts := p,
               st := AddressResolving, resolver_joinable := True\<rparr>)"
    using assms by (intro tick_opens) auto
  moreover from assms(4) have "n - 1 < n" by simp
  ultimately show ?thesis using assms(4) by (simp add: andthen_Inr)
qed

lemma demo_port: "parse_cs g ''3301'' = Some \<lparr>unix_socket_path = [], user = ''guest'', password = [],
      host = ''localhost'', port = ''3301''\<rparr>"
proof -
  have "parse_string ''3301'' = Parts \<lparr>unix_socket_path = [], user = ''guest'', password = [],
      host = ''localhost'', port = ''3301''\<rparr>"
    by (simp add: parse_string_def parse_loop.simps [of True] get_chunk_def separators_def is_port_def
        is_digit_def digits_value_def with_defaults_def no_parts_def)
  then show ?thesis by (simp add: parse_cs.simps)
qed

lemma demo_cs [simp]: "current_cs demo_conn = ''3301''"
  by (simp add: demo_conn_def new_connection_def call_opt_def)

theorem tick_reconnects_witness:
  "skip_n (tick_1sec silent_env) 1 (demo_conn\<lparr>reconnect_ticks := 0, reconnect_timeout := 2\<rparr>)
      = (Inr (), demo_conn\<lparr>reconnect_ticks := 0, reconnect_timeout := 2\<rparr>\<lparr>reconnect_ticks := int 1\<rparr>)
   \<and> andthen (skip_n (tick_1sec silent_env) (2 - 1)) (tick_1sec silent_env)
          (demo_conn\<lparr>reconnect_ticks := 0, reconnect_timeout := 2\<rparr>)
      = (Inr (), demo_conn\<lparr>reconnect_ticks := 0, reconnect_timeout := 2\<rparr>
           \<lparr>reconnect_ticks := - 1, reconnect_timeout := GENERAL_TIMEOUT,
            parts := \<lparr>unix_socket_path = [], user = ''guest'', password = [], host = ''localhost'', port = ''3301''\<rparr>,
            st := AddressResolving, resolver_joinable := True\<rparr>)"
  by (rule tick_reconnects) (simp_all add: demo_port)



section \<open>Notifications\<close>

text \<open>
  Handlers that return, and do not call \<open>acquire_notifications\<close> themselves; they may push more
  handlers, given by \<open>ns\<close>.
\<close>

definition runs :: "'h env \<Rightarrow> 'h \<Rightarrow> 'h notification list \<Rightarrow> bool" where
  "runs env h ns \<longleftrightarrow> (\<forall>s. \<exists>t. invoke env h NoArg s = (Inr (), t) \<and> trace (sys t) = trace (sys s)
     \<and> tmp_notifications t = tmp_notifications s \<and> notifications t = notifications s @ ns)"

lemma run_notes:
  assumes "\<forall>h \<in> set hs. runs env h (pushed h)"
  shows "\<exists>t. for_each (run_note env) (map UserNote hs) s = (Inr (), t)
     \<and> trace (sys t) = trace (sys s) @ map (\<lambda>h. Called h NoArg) hs
     \<and> tmp_notifications t = tmp_notifications s
     \<and> notifications t = notifications s @ concat (map pushed hs)"
  using assms
proof (induction hs arbitrary: s)
  case Nil
  then show ?case by simp
next
  case (Cons h hs)
  let ?s = "logged (Called h NoArg) s"
  from Cons.prems have "runs env h (pushed h)" by simp
  then obtain t where t: "invoke env h NoArg ?s = (Inr (), t)" "trace (sys t) = trace (sys ?s)"
      "tmp_notifications t = tmp_notifications ?s" "notifications t = notifications ?s @ pushed h"
    unfolding runs_def by blast
  from Cons.IH [of t] Cons.prems obtain u where u:
      "for_each (run_note env) (map UserNote hs) t = (Inr (), u)"
      "trace (sys u) = trace (sys t) @ map (\<lambda>h. Called h NoArg) hs"
      "tmp_notifications u = tmp_notifications t"
      "notifications u = notifications t @ concat (map pushed hs)"
    by auto
  have "run_note env (UserNote h) s = (Inr (), t)"
    using t(1) by (simp add: call_back_def andthen_def seq_def log_event_apply)
  with t u show ?case by (simp add: andthen_Inr logged_def)
qed





end
