(* ===== verification/Connection_Login.thy ===== *)
theory Connection_Login
  imports Connection_Framing Reader_Theorems
begin

text \<open>
  The exchange that opens a session: the greeting is answered with a request for the features,
  and the last answer of the server decides whether the session is open.
\<close>

section \<open>Answers of the server\<close>

lemma key_read:
  assumes lib: "msgpuck_lib mp" and r: "reads r (MMap us # vs)" and n: "length us < 2 ^ 32"
  obtains r' where "reads r' vs"
    and "case find (\<lambda>(k, _). key_is (uint key) k) (pair_up us) of
          None \<Rightarrow> \<exists>e. read_key mp key r = (Inl (ReaderError e), r')
        | Some (k, v) \<Rightarrow> \<exists>x. read_key mp key r = (Inr x, r') \<and> reads x [v]"
proof -
  obtain e rest r' where i: "item_at mp r (MMap us) vs e rest r'"
    using msgpuck_lib.reads_item [OF lib r] by blast
  obtain m where m: "read_map mp r = (Inr m, r')"
      "case find (\<lambda>(k, _). key_is (uint key) k) (pair_up us) of
          None \<Rightarrow> map_at mp (equals_int mp (uint key)) (view m) = Inl (ReaderError ''key not found'')
        | Some (k, v) \<Rightarrow> \<exists>res. map_at mp (equals_int mp (uint key)) (view m) = Inr res \<and> reads (mp_reader res) [v]"
    using msgpuck_lib.map_at_spec [OF lib i n] by blast
  show thesis
  proof (rule that)
    show "reads r' vs" using i by (simp add: item_at_def)
    show "case find (\<lambda>(k, _). key_is (uint key) k) (pair_up us) of
          None \<Rightarrow> \<exists>e. read_key mp key r = (Inl (ReaderError e), r')
        | Some (k, v) \<Rightarrow> \<exists>x. read_key mp key r = (Inr x, r') \<and> reads x [v]"
      using m by (auto simp: read_key_def seq_def split: option.splits)
  qed
qed

text \<open>
  \<open>answer s hdr bdy c\<close>: the receive buffer holds one message, a header that says \<open>c\<close> for its code,
  and a body.
\<close>

definition answer :: "'h connection \<Rightarrow> mpv list \<Rightarrow> mpv list \<Rightarrow> u32 \<Rightarrow> bool" where
  "answer s hdr bdy c \<longleftrightarrow> in_ok s \<and> calm s \<and> 0 \<le> sock s \<and> last_head s = 0
     \<and> (\<exists>m. content (receive_buffer s) = frame m \<and> wires [MMap hdr, MMap bdy] m \<and> length m < 2 ^ 32
          \<and> (detected s = 0 \<or> detected s = length (frame m)))
     \<and> length hdr < 2 ^ 32 \<and> length bdy < 2 ^ 32
     \<and> (\<exists>k. find (\<lambda>(k, _). key_is (uint (header_key H_CODE)) k) (pair_up hdr) = Some (k, MUint (unat c)))"

lemma answer_detected:
  assumes lib: "msgpuck_lib (lib env)" and a: "answer s hdr bdy c"
  obtains n where "detect_loop env (Suc (endp (receive_buffer s))) s
      = (Inr (), s\<lparr>last_head := n, detected := 0\<rparr>)" and "0 < n"
proof -
  obtain m where m: "content (receive_buffer s) = frame m" "length m < 2 ^ 32"
      "detected s = 0 \<or> detected s = length (frame m)" and w: "wf_buf (receive_buffer s)" "last_head s = 0"
    using a by (auto simp: answer_def in_ok_def)
  have n: "endp (receive_buffer s) = length m + 5"
    using buf_size_content [OF w(1)] m(1) by simp
  have "part_of [] ([] :: bytes)" by (simp add: part_of_def frame_def)
  moreover have "ahead s [] (stream [m] @ [])" using m w by (simp add: ahead_def)
  ultimately have "detect_loop env (Suc (endp (receive_buffer s))) s
      = (Inr (), s\<lparr>last_head := length ([] @ stream [m]), detected := part_size [] []\<rparr>)"
    using m(2,3) n by (intro detect_loop_finds [OF lib]) simp_all
  then have "detect_loop env (Suc (endp (receive_buffer s))) s = (Inr (), s\<lparr>last_head := length m + 5, detected := 0\<rparr>)"
    by (simp add: part_size_def)
  then show thesis by (rule that) linarith
qed

lemma answer_code:
  assumes lib: "msgpuck_lib (lib env)" and a: "answer s hdr bdy c"
  obtains response where "\<And>t. receive_buffer t = receive_buffer s \<Longrightarrow>
      process_login env t = on_response_code env c response t" and "reads response [MMap bdy]"
proof -
  obtain m k where m: "content (receive_buffer s) = frame m" "wires [MMap hdr, MMap bdy] m" "length m < 2 ^ 32"
    and w: "wf_buf (receive_buffer s)"
    and k: "find (\<lambda>(k, _). key_is (uint (header_key H_CODE)) k) (pair_up hdr) = Some (k, MUint (unat c))"
    and h: "length hdr < 2 ^ 32"
    using a by (auto simp: answer_def in_ok_def)
  let ?b = "receive_buffer s"
  have n: "endp ?b = length m + 5" using buf_size_content [OF w] m(1) by simp
  obtain spare where v: "mem ?b = frame m @ spare"
    using m(1) by (metis append_take_drop_id content_def)
  let ?r = "mp_reader (mp_plain (mem ?b) (Some 5) (Some (5 + length m)))"
  have t: "\<exists>r. iproto_message (lib env) (buffer_reader ?b) = (Inr ?r, r)"
    using message_taken [OF lib m(3), of "buffer_reader ?b" "[]" spare "endp ?b"] v n m(3)
    by (simp add: buffer_reader_def mp_reader_def mp_plain_def)
  have "reads ?r [MMap hdr, MMap bdy]"
    unfolding reads_def
    by (rule exI [of _ "0xce # to_be 4 (length m)"], rule exI [of _ m], rule exI [of _ spare])
      (use m v in \<open>simp add: mp_reader_def mp_plain_def frame_def\<close>)
  then obtain r' where r': "reads r' [MMap bdy]"
      "case find (\<lambda>(k, _). key_is (uint (header_key H_CODE)) k) (pair_up hdr) of
          None \<Rightarrow> \<exists>e. read_key (lib env) (header_key H_CODE) ?r = (Inl (ReaderError e), r')
        | Some (k, v) \<Rightarrow> \<exists>x. read_key (lib env) (header_key H_CODE) ?r = (Inr x, r') \<and> reads x [v]"
    using key_read [OF lib _ h, of ?r "[MMap bdy]" "header_key H_CODE"] by blast
  from r'(2) k obtain x where
    x: "read_key (lib env) (header_key H_CODE) ?r = (Inr x, r')" "reads x [MUint (unat c)]"
    by auto
  have "delivers (read_int (lib env) False 32) (MUint (unat c)) (int (unat c))"
    using uint_lt2p [of c] by (intro msgpuck_lib.delivers_uint [OF lib]) (simp add: int_max_def)
  from deliversE [OF this x(2)] obtain r'' where "read_int (lib env) False 32 x = (Inr (int (unat c)), r'')" .
  with t x(1) have "process_login env u = on_response_code env c r' u" if "receive_buffer u = receive_buffer s" for u
    by (auto simp: process_login_def that)
  from this r'(1) show thesis by (rule that)
qed


section \<open>The end of the exchange\<close>

text \<open>What the last answer makes of the connection.\<close>

definition session_opened :: "'h connection \<Rightarrow> 'h connection \<Rightarrow> bool" where
  "session_opened s t \<longleftrightarrow> st t = Connected \<and> sock t = sock s \<and> reconnect_ticks t = - 1
     \<and> content (receive_buffer t) = [] \<and> last_head t = 0 \<and> detected t = 0
     \<and> io_trace t = io_trace s \<and> pending t = pending s"

definition session_refused :: "'h connection \<Rightarrow> 'h connection \<Rightarrow> bool" where
  "session_refused s t \<longleftrightarrow> st t = Disconnected \<and> sock t = - 1 \<and> reconnect_ticks t = 0
     \<and> content (receive_buffer t) = [] \<and> last_head t = 0 \<and> pending t = []
     \<and> io_trace t = io_trace s @ [SysClosed (sock s)]"

lemma session_core:
  assumes "core t = core u"
  shows "session_opened s t = session_opened s u" "session_refused s t = session_refused s u"
  using core_fields [OF assms] core_conditions(4) [OF assms]
  by (simp_all add: session_opened_def session_refused_def)

lemma andthen_modify: "andthen (modify f) g s = g (f s)"
  by (simp add: andthen_def seq_def modify_def)

lemma set_connected_ok:
  assumes q: "quiet env"
  shows "firm (session_opened s) (set_connected env s)"
proof -
  let ?s = "s\<lparr>receive_buffer := clear (receive_buffer s), last_head := 0, detected := 0\<rparr>
      \<lparr>st := Connected, reconnect_ticks := - 1\<rparr>"
  have "session_opened s ?s"
    by (simp add: session_opened_def) (simp add: io_trace_def pending_def)
  then have "session_opened s t" if "core t = core ?s" for t
    using session_core(1) [OF that] by blast
  then have "firm (session_opened s)
      (catching (call_opt env connected_cb NoArg) (\<lambda>e. handle_error env (what e) E_external 0) ?s)"
    by (rule firm_then [OF quiet_catching [OF q]])
  then show ?thesis
    unfolding set_connected_def clear_receive_buffer_def andthen_modify .
qed

text \<open>Giving the session up.\<close>

definition give_up :: "'h env \<Rightarrow> ('h connection, unit) op" where
  "give_up env = andthen clear_receive_buffer
     (andthen (connection_close env False 0) (modify (\<lambda>s. s\<lparr>reconnect_ticks := 0\<rparr>)))"

lemma give_up_ok:
  assumes q: "quiet env" and i: "in_ok s" and f: "0 \<le> sock s" and t: "core t = core (s\<lparr>last_head := n, detected := 0\<rparr>)"
  shows "firm (session_refused s) (give_up env t)"
proof -
  let ?t = "t\<lparr>receive_buffer := clear (receive_buffer t), last_head := 0, detected := 0\<rparr>"
  have i': "in_ok ?t" using core_fields(10,11) [OF t] i by (simp add: in_ok_def)
  have "io_trace (s\<lparr>last_head := n, detected := 0\<rparr>) = io_trace s" by (simp add: io_trace_def)
  then have io: "io_trace ?t = io_trace s" "sock ?t = sock s" "0 \<le> sock ?t"
    using core_fields(1,23) [OF t] f by (simp_all add: io_trace_def)
  have "firm (closed_state ?t 0) (connection_close env False 0 ?t)"
    by (rule close_open [OF q i' io(3)])
  then have "firm (session_refused s)
      (andthen (connection_close env False 0) (modify (\<lambda>s. s\<lparr>reconnect_ticks := 0\<rparr>)) ?t)"
    unfolding outcome_andthen
    by (rule firm_then)
      (use io in \<open>auto simp: outcome_modify closed_state_def session_refused_def pending_def io_trace_def\<close>)
  then show ?thesis
    unfolding give_up_def clear_receive_buffer_def andthen_modify .
qed


text \<open>An answer with an error: whatever its text, it is reported, and the session is given up.\<close>

lemma refusal:
  assumes lib: "msgpuck_lib (lib env)" and q: "quiet env" and r: "reads response [MMap bdy]" and n: "length bdy < 2 ^ 32"
    and c: "c \<noteq> 0" "st s = FeaturesRequest \<Longrightarrow> c AND 0x7fff \<noteq> 0x30"
  shows "outcome (\<lambda>x t. \<not> x \<and> core t = core s) (\<lambda>e t. \<not> fatal e \<and> t = s) (on_response_code env c response s)"
proof -
  obtain r' where r': "case find (\<lambda>(k, _). key_is (uint (response_key IPROTO_ERROR_24)) k) (pair_up bdy) of
          None \<Rightarrow> \<exists>e. read_key (lib env) (response_key IPROTO_ERROR_24) response = (Inl (ReaderError e), r')
        | Some (k, v) \<Rightarrow> \<exists>x. read_key (lib env) (response_key IPROTO_ERROR_24) response = (Inr x, r') \<and> reads x [v]"
    using key_read [OF lib r n, of "response_key IPROTO_ERROR_24"] by blast
  have told: "outcome (\<lambda>x t. \<not> x \<and> core t = core s) (\<lambda>e t. \<not> fatal e \<and> t = s)
      (andthen (handle_error env m d k) (ret False) s)" for m d k
    unfolding outcome_andthen by (rule firm_then [OF quiet_handle_error [OF q]]) simp
  have no: "\<not> (st s = FeaturesRequest \<and> c AND 0x7fff = 0x30)" using c(2) by blast
  show ?thesis
  proof (cases "find (\<lambda>(k, _). key_is (uint (response_key IPROTO_ERROR_24)) k) (pair_up bdy)")
    case None
    with r' c(1) no show ?thesis by (auto simp: on_response_code_def Let_def)
  next
    case (Some kv)
    then obtain x v where x: "read_key (lib env) (response_key IPROTO_ERROR_24) response = (Inr x, r')" "reads x [v]"
      using r' by (auto split: prod.splits)
    obtain e rest x' where "item_at (lib env) x v [] e rest x'"
      using msgpuck_lib.reads_item [OF lib x(2)] by blast
    then have "skip (lib env) x = (Inr (), x')" by (simp add: item_at_def)
    with x(1) c(1) no told show ?thesis
      by (simp add: on_response_code_def Let_def to_string_def seq_def split: option.split)
  qed
qed

lemma login_answer:
  assumes lib: "msgpuck_lib (lib env)" and q: "quiet env" and a: "answer s hdr bdy c" and st: "st s = Authentication"
  shows "firm (if c = 0 then session_opened s else session_refused s) (process_receive_buffer env s)"
proof -
  obtain n where d: "detect_loop env (Suc (endp (receive_buffer s))) s = (Inr (), s\<lparr>last_head := n, detected := 0\<rparr>)"
    and n: "0 < n" using answer_detected [OF lib a] by blast
  obtain response where l: "\<And>t. receive_buffer t = receive_buffer s \<Longrightarrow>
      process_login env t = on_response_code env c response t" and r: "reads response [MMap bdy]"
    using answer_code [OF lib a] by blast
  let ?t = "s\<lparr>last_head := n, detected := 0\<rparr>"
  have e: "process_receive_buffer env s
      = seq (catching (process_login env)
                    (\<lambda>e. andthen (handle_error env (what e)
                                   (if is_reader_error e then E_unexpected_data else E_system) 0)
                           (ret False)))
                (\<lambda>returned. if returned then ret () else give_up env) ?t"
    unfolding give_up_def
    using d n st by (simp add: process_receive_buffer_def andthen_def [of "detect_loop _ _"] seq_def [of "detect_loop _ _"])
  have t: "process_login env ?t = on_response_code env c response ?t" by (rule l) simp
  show ?thesis
  proof (cases "c = 0")
    case True
    have "on_response_code env c response ?t = andthen (set_connected env) (ret True) ?t"
      using True st by (simp add: on_response_code_def andthen_def [of "ret ()"] seq_def [of "ret ()"])
    moreover have "firm (session_opened s) (set_connected env ?t)"
      by (rule firm_then [OF set_connected_ok [OF q]])
        (simp add: session_opened_def, simp add: io_trace_def pending_def)
    ultimately have "outcome (\<lambda>x u. x \<and> session_opened s u) (\<lambda>_ _. False) (on_response_code env c response ?t)"
      by (simp add: outcome_andthen)
    then show ?thesis
      using True unfolding e outcome_seq outcome_catching t by (auto elim!: outcome_conseq)
  next
    case False
    have "outcome (\<lambda>x u. \<not> x \<and> core u = core ?t) (\<lambda>e u. \<not> fatal e \<and> u = ?t) (on_response_code env c response ?t)"
      using False st a by (intro refusal [OF lib q r]) (simp_all add: answer_def)
    then have "outcome (\<lambda>x u. \<not> x \<and> core u = core ?t) (\<lambda>_ _. False)
        (catching (process_login env)
                    (\<lambda>e. andthen (handle_error env (what e)
                                   (if is_reader_error e then E_unexpected_data else E_system) 0)
                           (ret False)) ?t)"
      unfolding outcome_catching t
      by (rule outcome_conseq) (auto simp: outcome_andthen intro!: firm_then [OF quiet_handle_error [OF q]])
    moreover have "firm (session_refused s) (give_up env u)" if "core u = core ?t" for u
      by (rule give_up_ok [OF q _ _ that]) (use a in \<open>simp_all add: answer_def\<close>)
    ultimately show ?thesis
      using False unfolding e outcome_seq by (auto elim!: outcome_conseq)
  qed
qed


section \<open>The beginning of the exchange\<close>

lemma compose_sends:
  assumes "sends f \<lparr>mpw = mp_writer (send_buffer s), ids = request_id s\<rparr> body i"
    and "1024 \<le> room (mp_writer (send_buffer s))"
  obtains b where "compose_to_send f s = (Inr (), s\<lparr>send_buffer := b, request_id := i\<rparr>)" and "wf_buf b"
    and "growable b" and "content b = content (send_buffer s) @ frame body" and "capacity b = capacity (send_buffer s)"
proof -
  let ?w = "\<lparr>mpw = mp_writer (send_buffer s), ids = request_id s\<rparr>"
  obtain w where w: "f ?w = (Inr (), w)" "sent ?w body i w" using assms by (auto simp: sends_def)
  moreover have "capacity (buf (mpw w)) = capacity (send_buffer s)"
    using w(2) assms(2) by (simp add: sent_def reserved_def) (simp add: mp_writer_def)
  ultimately have "compose_to_send f s = (Inr (), s\<lparr>send_buffer := buf (mpw w), request_id := i\<rparr>)"
    by (simp add: compose_to_send_def sent_def)
  then show thesis
    by (rule that) (use w(2) \<open>capacity _ = _\<close> in \<open>simp_all add: sent_def wf_writer_def written_def mp_writer_def\<close>)
qed

text \<open>In a send buffer with less room, which its owner may have put there, composing moves the block.\<close>

lemma compose_moves:
  assumes "sends f \<lparr>mpw = mp_writer (send_buffer s), ids = request_id s\<rparr> body i"
    and "room (mp_writer (send_buffer s)) < 1024"
  shows "fst (compose_to_send f s) = Inl Overrun"
proof -
  obtain w where "f \<lparr>mpw = mp_writer (send_buffer s), ids = request_id s\<rparr> = (Inr (), w)"
      "capacity (buf (mpw w)) = capacity (send_buffer s) + 1024"
    using assms by (auto simp: sends_def sent_def reserved_def) (simp add: mp_writer_def)
  then show ?thesis by (simp add: compose_to_send_def)
qed

text \<open>The message that asks for the features.\<close>

definition features_request :: "'h env \<Rightarrow> 'h connection \<Rightarrow> bytes" where
  "features_request env s =
     request_header_bytes (lib env) R_PROTO_ID (request_id s) @ id_body (lib env) (required_proto s)"

text \<open>
  A connection whose socket has just been established: nothing is to be sent, and the request fits
  what is reserved for it; the send buffer has the kilobyte that composing asks for.
\<close>

definition greeted :: "'h env \<Rightarrow> 'h connection \<Rightarrow> bool" where
  "greeted env s \<longleftrightarrow> st s = Connecting \<and> 0 \<le> sock s \<and> in_ok s \<and> calm s \<and> \<not> may_pause s
     \<and> wf_buf (output_buffer s) \<and> growable (output_buffer s) \<and> none_behind s \<and> 1024 \<le> capacity (send_buffer s)
     \<and> accepts (mp_writer (clear (send_buffer s))) (length (features_request env s)) 0"

text \<open>A connection that has read all that has come and can read and send on.\<close>

definition expectant :: "'h connection \<Rightarrow> bool" where
  "expectant s \<longleftrightarrow> in_ok s \<and> calm s \<and> content (receive_buffer s) = [] \<and> last_head s = 0 \<and> detected s = 0
     \<and> out_ok s \<and> none_behind s"

lemma expectant_kept: "kept_in_order s t \<Longrightarrow> expectant s \<Longrightarrow> expectant t"
  by (auto simp: kept_in_order_def expectant_def in_ok_def calm_def incoming_def)

text \<open>The state in which the request goes to \<open>connection_write\<close>.\<close>

lemma request_composed:
  assumes lib: "msgpuck_lib (lib env)" and g: "greeted env s" and t: "beside t = beside (s\<lparr>idle_ticks := 0\<rparr>)" and i: "in_ok t" "calm t"
  obtains u where "andthen (modify (\<lambda>s. s\<lparr>greeting := content (receive_buffer s)\<rparr>))
            (andthen clear_receive_buffer
            (andthen (modify (\<lambda>s. s\<lparr>st := FeaturesRequest\<rparr>))
            (andthen clear_send_buffer
            (andthen (\<lambda>s. compose_to_send (encode_id_request (lib env) next_request_id (required_proto s)) s)
              f)))) t = f u"
    and "obliging u = obliging s" "expectant u" "st u = FeaturesRequest" "0 \<le> sock u" "greeting u = content (receive_buffer t)"
      "request_id u = request_id s + 1" "parts u = parts s" "server_proto u = server_proto s"
      "sent_bytes u = sent_bytes s" "pending u = frame (features_request env s)" "sock u = sock s"
      "capacity (send_buffer u) = capacity (send_buffer s)"
proof -
  note b = beside_fields [OF t]
  let ?t = "t\<lparr>greeting := content (receive_buffer t)\<rparr>\<lparr>receive_buffer := clear (receive_buffer t), last_head := 0, detected := 0\<rparr>
      \<lparr>st := FeaturesRequest\<rparr>\<lparr>send_buffer := clear (send_buffer t), next_to_send := 0\<rparr>"
  have w: "\<lparr>mpw = mp_writer (send_buffer ?t), ids = request_id ?t\<rparr>
      = \<lparr>mpw = mp_writer (clear (send_buffer s)), ids = request_id s\<rparr>" using b by simp
  have p: "required_proto ?t = required_proto s" using b by simp
  have "sends (encode_id_request (lib env) next_request_id (required_proto ?t))
      \<lparr>mpw = mp_writer (send_buffer ?t), ids = request_id ?t\<rparr> (features_request env s) (request_id s + 1)"
    unfolding w p features_request_def using g
    by (intro id_sends [OF lib]) (simp_all add: next_request_id_def greeted_def features_request_def)
  then obtain c where c: "compose_to_send (encode_id_request (lib env) next_request_id (required_proto ?t)) ?t
      = (Inr (), ?t\<lparr>send_buffer := c, request_id := request_id s + 1\<rparr>)" "wf_buf c" "growable c"
      "content c = content (send_buffer ?t) @ frame (features_request env s)" "capacity c = capacity (send_buffer ?t)"
    by (rule compose_sends) (use g b in \<open>simp add: greeted_def room_def mp_writer_def\<close>)
  let ?u = "?t\<lparr>send_buffer := c, request_id := request_id s + 1\<rparr>"
  have e: "endp c = length (features_request env s) + 5" "content c = frame (features_request env s)"
    using buf_size_content [OF c(2)] c(4) by simp_all
  have s: "wf_buf (output_buffer u) \<and> growable (output_buffer u) \<and> endp (output_buffer u) = 0 \<and> uncorked_size u = 0
      \<and> 0 \<le> sock u \<and> length (features_request env s) < 2 ^ 32 \<and> trace (sys u) = trace (sys s)" if "u = ?u" for u
    using g b that by (simp add: greeted_def accepts_def none_behind_def)
  show thesis
  proof (rule that [of ?u])
    have "out_ok ?u" using s [OF refl] c(2,3) e by (simp add: out_ok_def out_wf_def)
    moreover have "in_ok ?u" "calm ?u" using i by (simp_all add: in_ok_def calm_def incoming_def)
    ultimately show "expectant ?u" using s [OF refl] by (simp add: expectant_def none_behind_def)
    show "pending ?u = frame (features_request env s)"
      using s [OF refl] e(2) by (simp add: pending_def content_def)
    show "sent_bytes ?u = sent_bytes s" using s [OF refl] by (simp add: sent_bytes_def)
    show "obliging ?u = obliging s" using b by (simp add: obliging_def)
  qed (use c b s [OF refl] in \<open>simp_all add: andthen_modify clear_receive_buffer_def clear_send_buffer_def\<close>,
       simp add: andthen_def seq_def)
qed


text \<open>How the answer to a greeting \<open>g\<close> ends: the request is sent or on its way, or sending failed.\<close>

definition features_asked :: "'h env \<Rightarrow> 'h connection \<Rightarrow> bytes \<Rightarrow> 'h connection \<Rightarrow> bool" where
  "features_asked env s g t \<longleftrightarrow>
     (st t = FeaturesRequest \<and> sock t = sock s \<and> greeting t = g \<and> request_id t = request_id s + 1
        \<and> parts t = parts s \<and> server_proto t = server_proto s \<and> expectant t
        \<and> capacity (send_buffer t) = capacity (send_buffer s)
        \<and> sent_bytes t @ pending t = sent_bytes s @ frame (features_request env s) \<and> sent_on s t
        \<and> (obliging s \<longrightarrow> obliging t))
     \<or> (\<not> obliging s \<and> st t = Disconnected \<and> sock t = - 1 \<and> reconnect_ticks t = 0 \<and> pending t = []
        \<and> (\<exists>rest. sent_bytes t @ rest = sent_bytes s @ frame (features_request env s)))"

lemma greeting_read:
  assumes lib: "msgpuck_lib (lib env)" and q: "quiet env" and g: "greeted env s"
  shows "firm (\<lambda>t. if length (content (receive_buffer s) @ incoming s) < GREETING_SIZE
              then st t = Connecting \<and> sock t = sock s \<and> content (receive_buffer t) = content (receive_buffer s) @ incoming s
                \<and> sent_bytes t = sent_bytes s \<and> pending t = pending s
              else features_asked env s (content (receive_buffer s) @ incoming s) t)
           (connection_read env s)"
proof (rule read_gathers, goal_cases)
  case (5 t)
  let ?g = "content (receive_buffer s) @ incoming s"
  have t: "beside t = beside (s\<lparr>idle_ticks := 0\<rparr>)" "in_ok t" "content (receive_buffer t) = ?g" "calm t"
    using 5 by (simp_all add: arrived_def)
  note f = beside_fields [OF t(1)]
  have n: "endp (receive_buffer t) = length ?g"
    using buf_size_content [of "receive_buffer t"] t(2,3) by (simp add: in_ok_def)
  have c: "st t = Connecting" using f g by (simp add: greeted_def)
  show ?case
  proof (cases "length ?g < GREETING_SIZE")
    case True
    then show ?thesis
      using n c f t(3) by (simp add: sent_bytes_def pending_def)
  next
    case False
    obtain u where e: "andthen (modify (\<lambda>s. s\<lparr>greeting := content (receive_buffer s)\<rparr>))
          (andthen clear_receive_buffer
          (andthen (modify (\<lambda>s. s\<lparr>st := FeaturesRequest\<rparr>))
          (andthen clear_send_buffer
          (andthen (\<lambda>s. compose_to_send (encode_id_request (lib env) next_request_id (required_proto s)) s)
            (connection_write env))))) t = connection_write env u"
      and ob: "obliging u = obliging s" and u: "expectant u" "st u = FeaturesRequest" "0 \<le> sock u" "greeting u = content (receive_buffer t)"
        "request_id u = request_id s + 1" "parts u = parts s" "server_proto u = server_proto s"
        "sent_bytes u = sent_bytes s" "pending u = frame (features_request env s)" "sock u = sock s"
        "capacity (send_buffer u) = capacity (send_buffer s)"
      by (rule request_composed [OF lib g t(1,2,4), of "connection_write env"]) blast
    have "firm (\<lambda>t. kept_in_order u t \<or> dropped_after_error u t) (connection_write env u)"
      by (rule write_kept [OF q _ _ _ u(3)]) (use u(1,2) in \<open>simp_all add: expectant_def\<close>)
    then have "firm (features_asked env s ?g) (connection_write env u)"
      by (rule firm_then)
        (use ob u t(3) expectant_kept [OF _ u(1)] in \<open>auto simp: features_asked_def expectant_def sent_on_def kept_in_order_def dropped_after_error_def\<close>)
    with False n c show ?thesis by (simp only: e) simp
  qed
qed (use g in \<open>simp_all add: greeted_def\<close>)

text \<open>
  C8: While a connection waits for the greeting, bytes of it are only collected; once there are
  enough, they are the greeting, and exactly one request for the features, with the next request
  number, is sent or ready to be sent.
\<close>
theorem greeting_answered:
  assumes lib: "msgpuck_lib (lib env)" and q: "quiet env" and g: "greeted env s"
  shows "firm (\<lambda>t. if length (content (receive_buffer s) @ incoming s) < GREETING_SIZE
              then st t = Connecting \<and> sock t = sock s \<and> content (receive_buffer t) = content (receive_buffer s) @ incoming s
                \<and> sent_bytes t = sent_bytes s \<and> pending t = pending s
              else features_asked env s (content (receive_buffer s) @ incoming s) t)
           (connection_read env s)"
  by (rule greeting_read [OF assms])

section \<open>Answers as they arrive\<close>

text \<open>
  \<open>answering s hdr bdy c m\<close>: what the receive buffer and the socket hold together is the answer or the
  beginning of it, in whatever pieces.
\<close>

definition answering :: "'h connection \<Rightarrow> mpv list \<Rightarrow> mpv list \<Rightarrow> u32 \<Rightarrow> bytes \<Rightarrow> bool" where
  "answering s hdr bdy c m \<longleftrightarrow> in_ok s \<and> 0 \<le> sock s \<and> calm s \<and> \<not> may_pause s \<and> last_head s = 0
     \<and> (\<exists>rest. arrived s @ rest = frame m)
     \<and> (detected s = 0 \<or> detected s = part_size (arrived s) m)
     \<and> wires [MMap hdr, MMap bdy] m \<and> length m < 2 ^ 32 \<and> length hdr < 2 ^ 32 \<and> length bdy < 2 ^ 32
     \<and> (\<exists>k. find (\<lambda>(k, _). key_is (uint (header_key H_CODE)) k) (pair_up hdr) = Some (k, MUint (unat c)))"

text \<open>
  The beginning is kept until the rest comes; apart from the receive buffer, only the size of the
  message is noted once the five bytes of its prefix have come.
\<close>

definition collected :: "bytes \<Rightarrow> 'h connection \<Rightarrow> 'h connection \<Rightarrow> bool" where
  "collected m s t \<longleftrightarrow> in_ok t \<and> calm t \<and> content (receive_buffer t) = arrived s
     \<and> beside t = beside (s\<lparr>idle_ticks := 0, detected := part_size (arrived s) m\<rparr>)"

text \<open>Everything but the receive buffer and the notes about it.\<close>

definition apart :: "'h connection \<Rightarrow> 'h connection" where
  "apart s = beside (s\<lparr>idle_ticks := 0, detected := 0\<rparr>)"

lemma apart_beside: "apart s = (beside s)\<lparr>idle_ticks := 0, detected := 0\<rparr>"
  by (simp add: apart_def beside_def)

lemma apart_step:
  assumes "beside t = beside (s\<lparr>idle_ticks := n, detected := k\<rparr>)"
  shows "apart t = apart s"
  unfolding apart_beside assms by (simp add: beside_def)

lemma apart_idle: "beside t = beside (s\<lparr>idle_ticks := n\<rparr>) \<Longrightarrow> apart t = apart s"
  by (simp only: apart_beside) (simp add: beside_def)

lemma apart_fields:
  assumes "apart t = apart s"
  shows "sock t = sock s" "st t = st s" "last_head t = last_head s" "parts t = parts s" "server_proto t = server_proto s"
    "request_id t = request_id s" "greeting t = greeting s" "send_buffer t = send_buffer s" "output_buffer t = output_buffer s"
    "uncorked_size t = uncorked_size s" "next_to_send t = next_to_send s" "trace (sys t) = trace (sys s)"
    "send_script (sys t) = send_script (sys s)"
  using beside_fields [OF assms [unfolded apart_def]] by simp_all

lemma beside_detected:
  assumes "beside t = beside s"
  shows "beside (t\<lparr>detected := n\<rparr>) = beside (s\<lparr>detected := n\<rparr>)"
proof -
  have "beside (u\<lparr>detected := n\<rparr>) = (beside u)\<lparr>detected := n\<rparr>" for u :: "'a connection" by (simp add: beside_def)
  with assms show ?thesis by metis
qed

lemma answering_read:
  assumes lib: "msgpuck_lib (lib env)" and a: "answering s hdr bdy c m" and st: "st s = FeaturesRequest \<or> st s = Authentication"
    and whole: "\<And>t. apart t = apart s \<Longrightarrow> answer t hdr bdy c \<Longrightarrow>
          firm Q (process_receive_buffer env t)"
  shows "firm (\<lambda>t. if length (arrived s) < length (frame m) then collected m s t else Q t) (connection_read env s)"
proof (rule read_gathers, goal_cases)
  case (5 t)
  note f = beside_fields [OF 5(2)]
  obtain rest where rest: "arrived s @ rest = frame m" using a by (auto simp: answering_def)
  have w: "wf_buf (receive_buffer t)" using 5(1) by (simp add: in_ok_def)
  have s: "st t \<noteq> Connecting" "st t = st s" using st f by auto
  show ?case
  proof (cases "rest = []")
    case True
    then have "answer t hdr bdy c"
      using 5 a f rest by (auto simp: answer_def answering_def part_size_def)
    with whole [OF apart_idle [OF 5(2)]] rest True s show ?thesis by simp
  next
    case False
    have l: "length (arrived s) < length (frame m)"
      using False arg_cong [OF rest, of length] by (cases rest) simp_all
    have p: "part_of (arrived s) m" using a rest False by (auto simp: part_of_def answering_def)
    have "ahead t [] (arrived s)"
      using 5(3) w f a l by (auto simp: ahead_def answering_def)
    moreover have "detected t = 0 \<or> detected t = part_size (arrived s) m" using f a by (simp add: answering_def)
    ultimately have "detect_loop env (Suc (endp (receive_buffer t))) t = (Inr (), t\<lparr>detected := part_size (arrived s) m\<rparr>)"
      by (intro detect_loop_part [OF lib _ p])
    moreover have "last_head t = 0" using f a by (simp add: answering_def)
    ultimately have "process_receive_buffer env t = (Inr (), t\<lparr>detected := part_size (arrived s) m\<rparr>)"
      by (simp add: process_receive_buffer_def andthen_def seq_def)
    moreover have "collected m s (t\<lparr>detected := part_size (arrived s) m\<rparr>)"
      using 5 beside_detected [OF 5(2)] by (simp add: collected_def in_ok_def calm_def incoming_def)
    ultimately show ?thesis using l s by simp
  qed
qed (use a in \<open>simp_all add: answering_def\<close>)

lemma session_apart:
  assumes "apart t = apart s"
  shows "session_opened t = session_opened s" "session_refused t = session_refused s"
  using apart_fields [OF assms]
  by (simp_all add: session_opened_def session_refused_def io_trace_def pending_def fun_eq_iff)


section \<open>Concrete exchanges\<close>

definition demo_greeted :: "nat connection" where
  "demo_greeted = demo_conn\<lparr>sock := 3, st := Connecting, required_proto := proto_id [ERROR_EXTENSION] 0 [],
     send_buffer := buf_of_size 1024,
     sys := still_world\<lparr>recv_script := [Data (replicate 100 1), RecvErr EINTR, Data (replicate 28 2)],
       send_script := [Accept 7]\<rparr>\<rparr>"

lemma demo_greeted_ok: "greeted silent_env demo_greeted"
proof -
  have "list_features (proto_id [ERROR_EXTENSION] 0 []) = [2]"
    by (simp add: list_features_eq proto_id_def set_feature_def upt_rec bit_simps)
  moreover have "request_id demo_greeted = 0"
    by (simp add: demo_greeted_def demo_conn_def new_connection_def call_opt_def)
  ultimately have "length (features_request silent_env demo_greeted) < 100"
    by (simp add: features_request_def request_header_bytes_def id_body_def demo_greeted_def silent_env_def
        proto_id_def ref_bytes)
  moreover have "idle (mp_writer (clear (send_buffer demo_greeted)))"
    "stk_free (opened (mp_writer (clear (send_buffer demo_greeted)))) = 16"
    by (simp_all add: idle_def wf_writer_def open_containers_def mp_writer_def demo_greeted_def)
  ultimately have "accepts (mp_writer (clear (send_buffer demo_greeted))) (length (features_request silent_env demo_greeted)) 0"
    by (simp add: accepts_def)
  then show ?thesis
    by (simp add: greeted_def) (simp add: demo_greeted_def none_behind_def in_ok_def calm_def may_pause_def incoming_def still_world_def
        EAGAIN_def EINTR_def)
qed

theorem greeting_answered_witness:
  "firm (\<lambda>t. if length (content (receive_buffer demo_greeted) @ incoming demo_greeted) < GREETING_SIZE
        then st t = Connecting \<and> sock t = sock demo_greeted
          \<and> content (receive_buffer t) = content (receive_buffer demo_greeted) @ incoming demo_greeted
          \<and> sent_bytes t = sent_bytes demo_greeted \<and> pending t = pending demo_greeted
        else features_asked silent_env demo_greeted (content (receive_buffer demo_greeted) @ incoming demo_greeted) t)
     (connection_read silent_env demo_greeted)"
  by (rule greeting_answered [OF _ quiet_silent demo_greeted_ok])
    (simp add: silent_env_def ref.msgpuck_lib_axioms)

text \<open>A refusal in two pieces, of which one has come before.\<close>

definition demo_answered :: "nat connection" where
  "demo_answered = demo_conn\<lparr>sock := 3, st := Authentication,
     receive_buffer := append_bytes [0xce, 0] (buf_of_size 16),
     sys := still_world\<lparr>recv_script := [Data [0, 0, 4, 0x81], RecvErr EINTR, Data [0, 7, 0x80]]\<rparr>\<rparr>"

lemma demo_answer: "answering demo_answered [MUint 0, MUint 7] [] 7 [0x81, 0, 7, 0x80]"
proof -
  have "wires [MMap [MUint 0, MUint 7], MMap []] (([0x81] @ [0] @ [7] @ []) @ ([0x80] @ []) @ [])"
    by (intro wires_cons wires_nil wire_map [where n = 1] wire_map [where n = 0] wire_uint)
      (simp_all add: hdr_map_def hdr_uint_def)
  moreover have "arrived demo_answered = frame [0x81, 0, 7, 0x80]"
    by (simp add: arrived_def incoming_def demo_answered_def frame_def to_be_numeral)
  ultimately show ?thesis
    by (simp add: answering_def)
      (simp add: demo_answered_def in_ok_def calm_def may_pause_def incoming_def still_world_def EAGAIN_def EINTR_def)
qed


end
