(* ===== verification/Connection_Sound.thy ===== *)
theory Connection_Sound
  imports Connection_Lifecycle Connection_Login
begin

text \<open>
  What every public operation maintains, I: the four buffers are well formed and all marks lie inside
  them, whatever the server sends, whatever the system calls answer, and also when callbacks call back
  into the connection.
\<close>

section \<open>Conditions every operation maintains\<close>

text \<open>
  An operation that ends, normally or with an exception the program can catch, leaves the
  condition true.
\<close>

abbreviation maintains :: "('s \<Rightarrow> bool) \<Rightarrow> 'a result \<times> 's \<Rightarrow> bool" where
  "maintains P r \<equiv> outcome (\<lambda>_. P) (\<lambda>e t. \<not> fatal e \<longrightarrow> P t) r"

named_theorems steps \<open>what maintains a condition\<close>

lemma keeps_maintains: "keeps P r \<Longrightarrow> maintains P r"
  by (erule outcome_conseq) auto

lemma firm_maintains: "firm P r \<Longrightarrow> maintains P r"
  by (erule outcome_conseq) auto

lemma maintains_then: "maintains P r \<Longrightarrow> (\<And>x t. P t \<Longrightarrow> Q t) \<Longrightarrow> maintains Q r"
  by (erule outcome_conseq) auto

lemma maintains_seq [steps]:
  "maintains P (f s) \<Longrightarrow> (\<And>x t. P t \<Longrightarrow> maintains P (g x t)) \<Longrightarrow> maintains P (seq f g s)"
  unfolding outcome_seq by (erule outcome_conseq) auto

lemma maintains_andthen [steps]:
  "maintains P (f s) \<Longrightarrow> (\<And>t. P t \<Longrightarrow> maintains P (g t)) \<Longrightarrow> maintains P (andthen f g s)"
  unfolding outcome_andthen by (erule outcome_conseq) auto

lemma maintains_catching [steps]:
  "maintains P (f s) \<Longrightarrow> (\<And>e t. P t \<Longrightarrow> maintains P (h e t)) \<Longrightarrow> maintains P (catching f h s)"
  unfolding outcome_catching by (erule outcome_conseq) auto

lemma maintains_noexcept [steps]: "maintains P (f s) \<Longrightarrow> maintains P (noexcept f s)"
  unfolding outcome_noexcept by (erule outcome_conseq) auto

lemma maintains_modify [steps]: "P (f s) \<Longrightarrow> maintains P (modify f s)"
  by (simp add: outcome_modify)

lemma maintains_ret [steps]: "P s \<Longrightarrow> maintains P (ret x s)"
  by simp

lemma maintains_for_each [steps]:
  "P s \<Longrightarrow> (\<And>x t. P t \<Longrightarrow> maintains P (f x t)) \<Longrightarrow> maintains P (for_each f xs s)"
proof (induction xs arbitrary: s)
  case (Cons x xs)
  then show ?case by (auto intro!: steps)
qed simp

section \<open>Buffers and marks\<close>

definition sound :: "'h connection \<Rightarrow> bool" where
  "sound s \<longleftrightarrow> wf_buf (receive_buffer s) \<and> growable (receive_buffer s)
     \<and> wf_buf (input_buffer s) \<and> growable (input_buffer s)
     \<and> wf_buf (send_buffer s) \<and> growable (send_buffer s)
     \<and> wf_buf (output_buffer s) \<and> growable (output_buffer s)
     \<and> last_head s \<le> endp (receive_buffer s) \<and> next_to_send s \<le> endp (send_buffer s)
     \<and> uncorked_size s \<le> endp (output_buffer s)"

lemma sound_simps [simp]:
  "sound (s\<lparr>sock := a\<rparr>) = sound s" "sound (s\<lparr>current_cs := b\<rparr>) = sound s" "sound (s\<lparr>greeting := c\<rparr>) = sound s"
  "sound (s\<lparr>parts := d\<rparr>) = sound s" "sound (s\<lparr>reconnect_ticks := a\<rparr>) = sound s"
  "sound (s\<lparr>reconnect_timeout := a\<rparr>) = sound s" "sound (s\<lparr>idle_ticks := a\<rparr>) = sound s"
  "sound (s\<lparr>idle_timeout := a\<rparr>) = sound s" "sound (s\<lparr>caller_idle := e\<rparr>) = sound s"
  "sound (s\<lparr>detected := n\<rparr>) = sound s" "sound (s\<lparr>request_id := i\<rparr>) = sound s"
  "sound (s\<lparr>is_corked := e\<rparr>) = sound s" "sound (s\<lparr>required_proto := p\<rparr>) = sound s"
  "sound (s\<lparr>server_proto := p\<rparr>) = sound s" "sound (s\<lparr>last_write_time := a\<rparr>) = sound s"
  "sound (s\<lparr>prev_watch := w\<rparr>) = sound s" "sound (s\<lparr>st := x\<rparr>) = sound s"
  "sound (s\<lparr>notifications := ns\<rparr>) = sound s" "sound (s\<lparr>tmp_notifications := ns\<rparr>) = sound s"
  "sound (s\<lparr>resolver_joinable := e\<rparr>) = sound s" "sound (s\<lparr>sys := y\<rparr>) = sound s"
  "sound (s\<lparr>error_cb := h\<rparr>) = sound s" "sound (s\<lparr>watcher_cb := h\<rparr>) = sound s" "sound (s\<lparr>notify_cb := h\<rparr>) = sound s"
  "sound (s\<lparr>response_cb := h\<rparr>) = sound s" "sound (s\<lparr>connected_cb := h\<rparr>) = sound s"
  "sound (s\<lparr>disconnected_cb := h\<rparr>) = sound s" "sound (s\<lparr>idle_cb := h\<rparr>) = sound s"
  "sound (s\<lparr>destruct_cb := h\<rparr>) = sound s"
  by (simp_all add: sound_def)

lemma sound_in_ok: "sound s \<Longrightarrow> in_ok s"
  by (simp add: sound_def in_ok_def)

lemma sound_logged [simp]: "sound (logged e s) = sound s"
  by (simp add: logged_def)

lemma sound_close_sock [steps]: "sound s \<Longrightarrow> maintains sound (close_sock s)"
  by (simp add: close_sock_def outcome_simps)

lemma sound_take_sock [steps]: "sound s \<Longrightarrow> maintains sound (take_sock f s)"
  unfolding take_sock_def by (intro steps) simp_all

lemma sound_clear_receive [steps]: "sound s \<Longrightarrow> maintains sound (clear_receive_buffer s)"
  by (simp add: clear_receive_buffer_def outcome_simps sound_def)

lemma sound_clear_send [steps]: "sound s \<Longrightarrow> maintains sound (clear_send_buffer s)"
  by (simp add: clear_send_buffer_def outcome_simps sound_def)

lemma sound_trim: "sound s \<Longrightarrow> maintains sound (on_receive (resize (last_head s)) s)"
  by (auto simp: on_receive_def sound_def wf_buf_def resize_within wf_shrink growable_def capacity_def)

text \<open>Callbacks may do whatever maintains the condition, for one thing call public operations.\<close>

lemma sound_error [steps]: "tame env sound \<Longrightarrow> sound s \<Longrightarrow> maintains sound (handle_error env m c d s)"
  by (rule firm_maintains [OF tame_handle_error])

lemma sound_call [steps]: "tame env sound \<Longrightarrow> sound s \<Longrightarrow> maintains sound (call_opt env cb a s)"
  by (rule keeps_maintains [OF tame_call])

lemma sound_call_back [steps]: "tame env sound \<Longrightarrow> sound s \<Longrightarrow> maintains sound (call_back env h a s)"
  by (rule keeps_maintains [OF tame_call_back])

lemma sound_watch [steps]: "tame env sound \<Longrightarrow> sound s \<Longrightarrow> maintains sound (watch_socket env m s)"
  by (rule firm_maintains [OF tame_watch]) simp_all

lemma sound_close [steps]:
  assumes "tame env sound" and "sound s"
  shows "maintains sound (connection_close env b delay s)"
proof -
  have block: "maintains sound
      (andthen (modify (\<lambda>s. s\<lparr>output_buffer := clear (output_buffer s)\<rparr>))
       (andthen clear_send_buffer
       (andthen (modify (\<lambda>s. s\<lparr>uncorked_size := 0, detected := 0\<rparr>)) g)) t)"
    if "sound t" "\<And>u. sound u \<Longrightarrow> maintains sound (g u)" for g :: "('a connection, unit) op" and t
    using that by (simp add: andthen_modify clear_send_buffer_def sound_def)
  with assms show ?thesis
    unfolding connection_close_def Let_def
    by (auto intro!: maintains_noexcept maintains_andthen [OF sound_watch] maintains_andthen [OF sound_close_sock]
        block maintains_andthen [OF sound_trim] maintains_catching sound_call sound_error)
qed

section \<open>Sending\<close>

lemma sound_next_batch:
  assumes "sound s"
  shows "outcome (\<lambda>n t. sound t \<and> next_to_send t + n \<le> endp (send_buffer t)) (\<lambda>e t. fatal e) (next_batch s)"
proof -
  have w: "wf_buf (output_buffer s)" "uncorked_size s \<le> endp (output_buffer s)" "wf_buf (send_buffer s)"
    using assms by (simp_all add: sound_def)
  let ?n = "uncorked_size s" and ?o = "output_buffer s"
  have l: "length (take (endp ?o - ?n) (drop ?n (mem ?o))) = endp ?o - ?n"
    using w by (auto simp: wf_buf_def capacity_def min_def)
  show ?thesis
    using assms w l
    by (auto simp: next_batch_def Let_def outcome_simps on_output_def on_send_def poke_def sound_def
        resize_within wf_buf_def capacity_def growable_def clear_def)
qed

lemma sound_sys_send:
  assumes "sound s"
  shows "outcome (\<lambda>r t. sound t \<and> send_buffer t = send_buffer s \<and> next_to_send t = next_to_send s \<and> r \<le> int n)
    (\<lambda>e t. fatal e) (sys_send n s)"
  using assms by (auto simp: sys_send_def Let_def split: list.split send_result.split)

lemma sound_send_loop:
  assumes "tame env sound"
  shows "sound s \<Longrightarrow> next_to_send s + n \<le> endp (send_buffer s) \<Longrightarrow> maintains sound (send_loop env fuel n s)"
proof (induction fuel arbitrary: n s)
  case 0
  then show ?case by simp
next
  case (Suc fuel)
  have give_up: "maintains sound (andthen (handle_error env [] E_system 0)
      (andthen (connection_close env True 0) (\<lambda>s2. (Inr (None :: nat option), s2\<lparr>reconnect_ticks := 0\<rparr>))) t)" if "sound t" for t
    using assms that by (auto intro!: steps)
  have batch: "maintains sound (seq next_batch (send_loop env fuel) t)" if "sound t" for t
    unfolding outcome_seq
    by (rule outcome_conseq [OF sound_next_batch [OF that]]) (auto intro!: Suc.IH)
  have "maintains sound (seq (sys_send n) (\<lambda>r s1.
        if r \<le> 0
        then if errno (sys s1) = EAGAIN then (Inr (Some n), s1)
             else if errno (sys s1) = EINTR then send_loop env fuel n s1
             else andthen (handle_error env [] E_system 0)
                    (andthen (connection_close env True 0)
                      (\<lambda>s2. (Inr None, s2\<lparr>reconnect_ticks := 0\<rparr>))) s1
        else
          let s2 = s1\<lparr>last_write_time := now (sys s1), next_to_send := next_to_send s1 + nat r\<rparr>;
              m = n - nat r in
          if m = 0 \<and> uncorked_size s2 \<noteq> 0
          then seq next_batch (send_loop env fuel) s2
          else send_loop env fuel m s2) s)"
    unfolding outcome_seq [of _ _ "sys_send n"]
  proof (rule outcome_conseq [OF sound_sys_send [OF Suc.prems(1), of n]], goal_cases)
    case (1 r t)
    let ?t = "t\<lparr>last_write_time := now (sys t), next_to_send := next_to_send t + nat r\<rparr>"
    have "sound ?t" if "0 < r" using 1 that Suc.prems(2) by (auto simp: sound_def)
    moreover have "next_to_send ?t + (n - nat r) \<le> endp (send_buffer ?t)" if "0 < r"
      using 1 that Suc.prems(2) by auto
    ultimately show ?case
      using 1 Suc.prems(2) give_up [of t] batch [of ?t] Suc.IH [of t n] Suc.IH [of ?t "n - nat r"]
      by (cases "r \<le> 0") (simp_all add: Let_def)
  qed simp
  with Suc.prems(1) show ?case by simp
qed

lemma sound_write [steps]:
  assumes "tame env sound" and "sound s"
  shows "maintains sound (connection_write env s)"
proof -
  have so: "maintains sound (sys_so_error s)"
    using assms(2) by (auto simp: sys_so_error_def split: list.split so_result.split)
  have left: "maintains sound (seq (send_loop env fuel n)
        (\<lambda>left s3. case left of None \<Rightarrow> (Inr (), s3)
          | Some k \<Rightarrow> watch_socket env (if k \<noteq> 0 then W_read_write else W_read) s3) t)"
    if "sound t" "next_to_send t + n \<le> endp (send_buffer t)" for t n fuel
    using sound_send_loop [OF assms(1) that] assms(1)
    by (auto intro!: maintains_seq sound_watch split: option.split)
  have n: "next_to_send s + minus_size (endp (send_buffer s)) (next_to_send s) \<le> endp (send_buffer s)"
    using assms(2) minus_size_le [of "next_to_send s" "endp (send_buffer s)"] by (auto simp: sound_def)
  show ?thesis
    unfolding connection_write_def
  proof (rule maintains_noexcept, split if_split, intro conjI impI, goal_cases)
    case 1
    show ?case
      by (rule maintains_seq, rule so) (use assms(1) in \<open>auto intro!: steps simp: Let_def split: option.split\<close>)
  next
    case 2
    show ?case
    proof (cases "minus_size (endp (send_buffer s)) (next_to_send s) = 0")
      case True
      then show ?thesis
        using assms by (auto simp: Let_def sound_def [of s] intro!: maintains_andthen sound_error maintains_ret left)
          (auto simp: sound_def)
    next
      case False
      with assms n show ?thesis
        by (auto simp: Let_def andthen_def seq_def [of "ret ()"] sound_def [of s] intro!: left)
    qed
  qed
qed

lemma sound_flush [steps]:
  assumes "tame env sound" and "sound s"
  shows "maintains sound (flush env s)"
  using assms unfolding flush_def
  by (auto intro!: maintains_noexcept maintains_seq sound_write) (auto simp: sound_def)

lemma sound_uncork [steps]: "tame env sound \<Longrightarrow> sound s \<Longrightarrow> maintains sound (uncork env s)"
  unfolding uncork_def by (intro steps) simp_all

lemma sound_cork [steps]: "sound s \<Longrightarrow> maintains sound (cork s)"
  unfolding cork_def by (intro steps) simp_all

section \<open>Composing\<close>

text \<open>The writers leave a well-formed buffer behind, also when they throw.\<close>

definition buf_ok :: "mp_writer \<Rightarrow> bool" where
  "buf_ok w \<longleftrightarrow> wf_buf (buf w) \<and> growable (buf w)"

lemma buf_ok_simps [simp]: "buf_ok (w\<lparr>opened := x\<rparr>) = buf_ok w"
  by (simp add: buf_ok_def)

lemma buf_ok_poke [steps]: "buf_ok w \<Longrightarrow> maintains buf_ok (on_buf (poke i bs) w)"
  by (auto simp: on_buf_def poke_def buf_ok_def wf_buf_def capacity_def growable_def)

lemma buf_ok_emit [steps]: "buf_ok w \<Longrightarrow> maintains buf_ok (emit bs w)"
  by (auto simp: emit_def on_buf_def put_def buf_ok_def)

lemma buf_ok_stack [steps]: "buf_ok w \<Longrightarrow> maintains buf_ok (on_stack f w)"
  by (auto simp: on_stack_def split: prod.split sum.split) (auto simp: outcome_def split: sum.split)

lemma buf_ok_adjust [steps]: "buf_ok w \<Longrightarrow> maintains buf_ok (adjust_header mp enc sz msg h mx a w)"
  by (auto simp: adjust_header_def store_cardinality_def Let_def intro!: steps)

lemma buf_ok_finalize [steps]: "buf_ok w \<Longrightarrow> maintains buf_ok (finalize mp w)"
  by (auto simp: finalize_def Let_def intro!: steps split: prod.split sum.split mp_type.split)

lemma buf_ok_iproto_finalize [steps]: "buf_ok w \<Longrightarrow> maintains buf_ok (iproto_finalize mp w)"
  by (auto simp: iproto_finalize_def Let_def intro!: steps split: prod.split sum.split)

lemma buf_ok_finalize_all [steps]: "buf_ok w \<Longrightarrow> maintains buf_ok (iproto_finalize_all mp w)"
proof (induction mp w rule: iproto_finalize_all.induct)
  case (1 mp w)
  show ?case
  proof (cases "is_empty (opened w)")
    case True
    with 1 show ?thesis by (simp add: iproto_finalize_all.simps)
  next
    case False
    have "maintains buf_ok (iproto_finalize mp w)" using 1(2) by (rule steps)
    then show ?thesis
      using False 1(1) [OF False _ refl]
      by (cases "iproto_finalize mp w") (auto simp: iproto_finalize_all.simps [of mp w] split: sum.split)
  qed
qed

text \<open>A message starts with room for its prefix of five bytes.\<close>

lemma buf_ok_start [steps]:
  assumes "buf_ok w"
  shows "maintains buf_ok (start_message mp w)"
proof -
  have prefix: "maintains buf_ok (andthen (on_stack (push c))
       (andthen (on_buf (\<lambda>b. poke (endp b) bs b)) (on_buf (advance 5))) u)"
    if "buf_ok u" "endp (buf u) + 5 \<le> capacity (buf u)" for u c bs
    using that
    by (auto simp: outcome_simps on_stack_def on_buf_def poke_def advance_def buf_ok_def wf_buf_def capacity_def
        growable_def split: prod.split) (auto simp: outcome_def split: sum.split)
  have room: "outcome (\<lambda>_ u. buf_ok u \<and> endp (buf u) + 5 \<le> capacity (buf u)) (\<lambda>e t. \<not> fatal e \<longrightarrow> buf_ok t)
      (ensure_1k u)" if u: "buf_ok u" for u
  proof (cases "nat ((int (capacity (buf u)) - int (buf_size (buf u))) mod 2 ^ 64) < 1024")
    case True
    have b: "wf_buf (buf u)" "growable (buf u)" using u by (simp_all add: buf_ok_def)
    obtain c where "reserve (capacity (buf u) + 1024) (buf u) = (Inr (), c)" "wf_buf c" "growable c"
        "capacity c = max (capacity (buf u) + 1024) (capacity (buf u))" "endp c = endp (buf u)"
      using reserve_ok [OF b] by blast
    with True b(1) show ?thesis by (simp add: ensure_1k_def on_buf_def buf_ok_def wf_buf_def)
  next
    case False
    have "endp (buf u) \<le> capacity (buf u)" using u by (simp add: buf_ok_def wf_buf_def)
    then have "nat ((int (capacity (buf u)) - int (buf_size (buf u))) mod 2 ^ 64) \<le> capacity (buf u) - endp (buf u)"
      using minus_size_le [of "endp (buf u)" "capacity (buf u)"] by (simp add: minus_size_def buf_size_def)
    with False u show ?thesis by (simp add: ensure_1k_def)
  qed
  show ?thesis
    unfolding start_message_def
  proof (rule maintains_andthen, rule buf_ok_finalize_all [OF assms])
    fix t
    assume "buf_ok t"
    then show "maintains buf_ok (andthen ensure_1k (\<lambda>w. andthen (on_stack (push \<lparr>head_offset = buf_size (buf w),
          max_cardinality = 0xffffffff, items_count = 0\<rparr>))
        (andthen (on_buf (\<lambda>b. poke (endp b) (mp_store_u8 mp 0xce) b)) (on_buf (advance 5))) w) t)"
      unfolding outcome_andthen [of _ _ ensure_1k]
      by (rule outcome_conseq [OF room]) (auto intro!: prefix)
  qed
qed

lemma buf_ok_on_mp [steps]:
  "maintains buf_ok (f (mpw w)) \<Longrightarrow> maintains (\<lambda>w. buf_ok (mpw w)) (on_mp f w)"
  by (auto simp: on_mp_def outcome_def split: prod.split sum.split)

lemma buf_ok_header [steps]:
  "buf_ok (mpw w) \<Longrightarrow> maintains (\<lambda>w. buf_ok (mpw w)) (encode_request_header mp g req w)"
  unfolding encode_request_header_def by (auto intro!: steps split: prod.split)

lemma buf_ok_auth: "buf_ok (mpw w) \<Longrightarrow> maintains (\<lambda>w. buf_ok (mpw w)) (encode_auth_request mp g sa gr u pw ap w)"
  unfolding encode_auth_request_def by (auto intro!: steps split: prod.split sum.split)

lemma buf_ok_id: "buf_ok (mpw w) \<Longrightarrow> maintains (\<lambda>w. buf_ok (mpw w)) (encode_id_request mp g p w)"
  unfolding encode_id_request_def by (auto intro!: steps split: prod.split sum.split)

lemma sound_compose [steps]:
  assumes "sound s"
    and f: "\<And>t w. buf_ok (mpw w) \<Longrightarrow> maintains (\<lambda>w. buf_ok (mpw w)) (f t w)"
    and g: "\<And>t. sound t \<Longrightarrow> maintains sound (g t)"
  shows "maintains sound (andthen clear_send_buffer (andthen (\<lambda>s. compose_to_send (f s) s) g) s)"
proof -
  have "maintains sound (compose_to_send (f t) t)" if "sound t" "next_to_send t = 0" for t
    using f [of "\<lparr>mpw = mp_writer (send_buffer t), ids = request_id t\<rparr>" t] that
    by (auto simp: compose_to_send_def buf_ok_def mp_writer_def sound_def outcome_def split: prod.split sum.split)
  moreover have "sound (s\<lparr>send_buffer := clear (send_buffer s), next_to_send := 0\<rparr>)"
    using assms(1) by (simp add: sound_def)
  ultimately show ?thesis
    unfolding clear_send_buffer_def andthen_modify by (auto intro!: maintains_andthen g)
qed

section \<open>Receiving\<close>

text \<open>
  Callbacks of this kind may call every operation but \<open>read\<close>: an error handler that reads again
  while responses are being detected moves the marks of the detection under its feet.
\<close>

definition polite :: "'h env \<Rightarrow> bool" where
  "polite env \<longleftrightarrow> tame env sound \<and> tame env (\<lambda>s. sound s \<and> detected s = 0)"

lemma politeD: "polite env \<Longrightarrow> tame env sound"
  by (simp add: polite_def)

lemma sound_detect_size:
  assumes "polite env" and "sound s"
  shows "outcome (\<lambda>_ t. sound t \<and> (detected t = 0 \<or> receive_buffer t = receive_buffer s \<and> last_head t = last_head s))
    (\<lambda>e t. \<not> fatal e \<longrightarrow> sound t) (detect_size env n s)"
proof -
  have bad: "outcome (\<lambda>_ t. sound t \<and> detected t = 0) (\<lambda>e t. \<not> fatal e \<longrightarrow> sound t)
      (andthen (handle_error env m c d) (\<lambda>s1. on_receive (resize (last_head s1)) s1) s)" if "detected s = 0" for m c d
    unfolding outcome_andthen
  proof (rule firm_then [OF tame_handle_error [where P = "\<lambda>s. sound s \<and> detected s = 0"]])
    fix t :: "'a connection"
    assume t: "sound t \<and> detected t = 0"
    then have "last_head t \<le> capacity (receive_buffer t)" by (simp add: sound_def wf_buf_def)
    with t show "outcome (\<lambda>_ t. sound t \<and> detected t = 0) (\<lambda>e t. \<not> fatal e \<longrightarrow> sound t)
        (on_receive (resize (last_head t)) t)"
      using sound_trim [of t] by (simp add: on_receive_def resize_within)
  qed (use assms that in \<open>simp_all add: polite_def\<close>)
  show ?thesis
    using assms(2) outcome_conseq [OF bad]
    by (auto simp: detect_size_def deref_def split: sum.split)
qed

lemma sound_detect_loop [steps]:
  assumes "polite env"
  shows "sound s \<Longrightarrow> maintains sound (detect_loop env fuel s)"
proof (induction fuel arbitrary: s)
  case 0
  then show ?case by (simp add: detect_loop.simps)
next
  case (Suc fuel)
  let ?n = "minus_size (endp (receive_buffer s)) (last_head s)"
  have n: "?n \<le> endp (receive_buffer s) - last_head s" "last_head s \<le> endp (receive_buffer s)"
    using Suc.prems by (auto simp: sound_def intro!: minus_size_le)
  show ?case
    unfolding detect_loop.simps Let_def outcome_andthen
  proof (rule outcome_conseq [OF sound_detect_size [OF assms Suc.prems]], goal_cases)
    case (1 u t)
    have "sound (t\<lparr>last_head := (last_head t + detected t) mod 2 ^ 64, detected := 0\<rparr>)"
      if "detected t \<noteq> 0" "detected t \<le> ?n"
    proof -
      have "(last_head t + detected t) mod 2 ^ 64 \<le> last_head t + detected t" by (rule mod_less_eq_dividend)
      with 1 that n show ?thesis by (auto simp: sound_def)
    qed
    with 1 Suc.IH show ?case by simp
  qed
qed

lemma sound_split_input [steps]:
  assumes "sound s"
  shows "maintains sound (split_input s)"
proof -
  let ?n = "minus_size (endp (receive_buffer s)) (last_head s)"
  have b: "wf_buf (clear (input_buffer s))" "growable (clear (input_buffer s))"
    using assms by (simp_all add: sound_def)
  obtain c where c: "resize ?n (clear (input_buffer s)) = (Inr (), c)" "wf_buf c" "growable c" "endp c = ?n"
    using resize_ok [OF b] by blast
  have r: "resize (endp (receive_buffer s) - ?n) (receive_buffer s)
      = (Inr (), receive_buffer s\<lparr>endp := endp (receive_buffer s) - ?n\<rparr>)"
    using assms by (intro resize_within) (auto simp: sound_def wf_buf_def)
  from assms b c r show ?thesis
    by (auto simp: split_input_def Let_def outcome_simps on_receive_def on_input_def poke_def sound_def
        wf_buf_def capacity_def growable_def)
qed

lemma sound_pass [steps]:
  assumes "tame env sound"
  shows "sound s \<Longrightarrow> maintains sound (pass_response_to_caller deep env s)"
proof (induction deep arbitrary: s)
  case 0
  then show ?case by (simp add: pass_response_to_caller.simps)
next
  case (Suc deep)
  have "maintains sound (if response_cb t = None then (Inr (), t\<lparr>input_buffer := clear (input_buffer t)\<rparr>)
              else catching (call_opt env response_cb InputArg)
                (\<lambda>e. andthen (handle_error env (what e) E_system 0)
                   (\<lambda>s2. pass_response_to_caller deep env (s2\<lparr>caller_idle := True\<rparr>)))
                (t\<lparr>caller_idle := False\<rparr>))" if "sound t" for t
    using assms that by (auto intro!: steps Suc.IH) (simp add: sound_def)
  with Suc.prems show ?case
    by (auto simp: pass_response_to_caller.simps intro!: steps)
qed

lemma sound_input_processed [steps]: "tame env sound \<Longrightarrow> sound s \<Longrightarrow> maintains sound (input_processed env s)"
  by (simp add: input_processed_def steps)

lemma sound_auth_request [steps]:
  assumes "tame env sound" and "sound s"
  shows "maintains sound (send_auth_request env s)"
proof -
  have write_then: "maintains sound (andthen (connection_write env) (ret True) t)" if "sound t" for t
    using assms(1) that by (intro steps)
  have "maintains sound (andthen clear_send_buffer
        (andthen (\<lambda>s. compose_to_send (encode_auth_request (lib env) next_request_id (salt_area env) (greeting s)
              (bytes_of (user (parts s))) (bytes_of (password (parts s))) (auth (server_proto s))) s)
          (andthen (connection_write env) (ret True))) t)" if "sound t" for t
    by (rule sound_compose [OF that buf_ok_auth write_then])
  with assms(2) show ?thesis
    unfolding send_auth_request_def
    by (auto intro!: maintains_andthen [where P = sound, OF sound_clear_receive] simp: andthen_modify)
qed

lemma sound_set_connected [steps]: "tame env sound \<Longrightarrow> sound s \<Longrightarrow> maintains sound (set_connected env s)"
  unfolding set_connected_def by (auto intro!: steps)

lemma sound_response_code [steps]:
  assumes "tame env sound" and "sound s"
  shows "maintains sound (on_response_code env code r s)"
proof -
  have "maintains sound (read_server_proto mp uq r s)" for mp uq
    using assms(2) by (auto simp: read_server_proto_def split: prod.split sum.split)
       (auto simp: outcome_def split: sum.split)
  with assms show ?thesis
    unfolding on_response_code_def Let_def
    by (auto intro!: steps split: prod.split sum.split)
qed

lemma sound_login [steps]: "tame env sound \<Longrightarrow> sound s \<Longrightarrow> maintains sound (process_login env s)"
  by (auto simp: process_login_def intro!: steps split: prod.split sum.split)

lemma sound_process [steps]:
  assumes "polite env" and "sound s"
  shows "maintains sound (process_receive_buffer env s)"
  using assms politeD [OF assms(1)] unfolding process_receive_buffer_def
  by (auto intro!: steps)

lemma sound_gathered: "sound s \<Longrightarrow> gathered s t \<Longrightarrow> sound t"
  using beside_fields [of t s] by (auto simp: gathered_def sound_def in_ok_def)

lemma sound_read [steps]:
  assumes "polite env" and "sound s"
  shows "maintains sound (connection_read env s)"
proof -
  note t = politeD [OF assms(1)]
  let ?s = "s\<lparr>idle_ticks := 0\<rparr>"
  have recv: "maintains sound (recv_loop env (Suc (recv_weight (recv_script (sys s)))) ?s)"
  proof (rule recv_loop_rule)
    show "in_ok ?s" using assms(2) by (intro sound_in_ok) simp
  next
    fix u :: "'a connection" and m c
    assume "gathered ?s u"
    then have "sound u" using assms(2) by (auto elim: sound_gathered [rotated])
    then have "maintains sound (andthen (handle_error env m c 0) (connection_close env True 0) u)"
      using t by (auto intro!: steps)
    then show "outcome (\<lambda>_ u. sound (u\<lparr>reconnect_ticks := 0\<rparr>)) (\<lambda>e t. \<not> fatal e \<longrightarrow> sound t)
        (andthen (handle_error env m c 0) (connection_close env True 0) u)" by simp
  next
    fix u :: "'a connection"
    assume "gathered ?s u"
    then show "sound u" using assms(2) by (auto elim: sound_gathered [rotated])
  qed simp
  have write_on: "maintains sound (connection_write env u)" if "sound u" for u
    using t that by (rule steps)
  have "maintains sound (andthen clear_send_buffer
       (andthen (\<lambda>s. compose_to_send (encode_id_request (lib env) next_request_id (required_proto s)) s)
          (connection_write env)) u)" if "sound u" for u
    by (rule sound_compose [OF that buf_ok_id write_on])
  then have greeted: "maintains sound
      (andthen (modify (\<lambda>s. s\<lparr>greeting := content (receive_buffer s)\<rparr>))
            (andthen clear_receive_buffer
            (andthen (modify (\<lambda>s. s\<lparr>st := FeaturesRequest\<rparr>))
            (andthen clear_send_buffer
            (andthen (\<lambda>s. compose_to_send (encode_id_request (lib env) next_request_id (required_proto s)) s)
              (connection_write env))))) u)" if "sound u" for u
    using that by (auto intro!: maintains_andthen [where P = sound, OF sound_clear_receive] simp: andthen_modify)
  have "maintains sound (process_receive_buffer env u)" if "sound u" for u
    using assms(1) that by (rule steps)
  with assms(2) greeted show ?thesis
    unfolding connection_read_def by (auto intro!: maintains_seq [where P = sound] recv)
qed

section \<open>Opening, timeouts and notifications\<close>

lemma sound_sys_connect [steps]: "sound s \<Longrightarrow> maintains sound (sys_connect s)"
  by (auto simp: sys_connect_def split: list.split connect_result.split option.split)

lemma sound_try_connect [steps]:
  "tame env sound \<Longrightarrow> sound s \<Longrightarrow> maintains sound (try_connect env p f err s)"
  unfolding try_connect_def
  by (auto intro!: steps simp: log_event_apply split: option.split)

lemma sound_try_addresses [steps]:
  "tame env sound \<Longrightarrow> sound s \<Longrightarrow> maintains sound (try_addresses env addrs s)"
  by (induction addrs arbitrary: s) (auto intro!: steps split: option.split)

lemma sound_open [steps]:
  assumes "tame env sound" and "sound s"
  shows "maintains sound (connection_open env delay s)"
proof -
  have "maintains sound (open_unix env t)" if "sound t" for t
    using assms(1) that unfolding open_unix_def by (auto intro!: steps split: option.split)
  with assms show ?thesis
    unfolding connection_open_def Let_def by (auto intro!: sound_error split: option.split)
qed

lemma sound_run_note [steps]: "tame env sound \<Longrightarrow> sound s \<Longrightarrow> maintains sound (run_note env n s)"
  by (cases n) (auto simp: address_resolved_def intro!: steps)

lemma sound_acquire [steps]: "tame env sound \<Longrightarrow> sound s \<Longrightarrow> maintains sound (acquire_notifications env s)"
  unfolding acquire_notifications_def by (auto intro!: steps)

lemma sound_push [steps]: "tame env sound \<Longrightarrow> sound s \<Longrightarrow> maintains sound (push_handler env h s)"
  unfolding push_handler_def by (auto intro!: steps)

lemma sound_resolver_done [steps]:
  "tame env sound \<Longrightarrow> sound s \<Longrightarrow> maintains sound (resolver_done env res ai err s)"
  unfolding resolver_done_def by (auto intro!: steps)

lemma sound_tick [steps]: "tame env sound \<Longrightarrow> sound s \<Longrightarrow> maintains sound (tick_1sec env s)"
  unfolding tick_1sec_def unstick_def Let_def by (auto intro!: steps)

lemma sound_destroy [steps]: "tame env sound \<Longrightarrow> sound s \<Longrightarrow> maintains sound (destroy_connection env s)"
  unfolding destroy_connection_def by (auto intro!: steps)

lemma sound_new: "tame env sound \<Longrightarrow> maintains sound (new_connection env cs a b w)"
  unfolding new_connection_def by (rule sound_call) (simp_all add: sound_def fresh_buffer_def)

end
