(* ===== verification/Connection_Session.thy ===== *)
theory Connection_Session
  imports Connection_Sound
begin

text \<open>
  What every public operation maintains, II: the socket, the stage of the session, the resolver's
  thread and the queue of notifications agree with each other.
\<close>

section \<open>The session's part of the state\<close>

fun of_resolver :: "'h notification \<Rightarrow> bool" where
  "of_resolver (UserNote h) = False"
| "of_resolver (Resolved ai) = True"
| "of_resolver (ResolveFailed m) = True"

definition resolver_notes :: "'h notification list \<Rightarrow> nat" where
  "resolver_notes ns = length (filter of_resolver ns)"

lemma resolver_notes_simps [simp]:
  "resolver_notes [] = 0" "resolver_notes (n # ns) = (if of_resolver n then 1 else 0) + resolver_notes ns"
  "resolver_notes (ns @ ms) = resolver_notes ns + resolver_notes ms"
  by (simp_all add: resolver_notes_def)

definition session :: "'h connection \<Rightarrow> int \<times> conn_state \<times> bool \<times> nat \<times> 'h notification list \<times> connect_result list" where
  "session s = (sock s, st s, resolver_joinable s, resolver_notes (notifications s), tmp_notifications s,
     connect_script (sys s))"

text \<open>
  Callbacks that leave the session alone. They may take the input, call \<open>input_processed\<close>, compose
  requests, push handlers, change settings; and throw.
\<close>

definition discreet :: "'h env \<Rightarrow> bool" where
  "discreet env \<longleftrightarrow> (\<forall>u. tame env (\<lambda>s. session s = u))"

definition of_session :: "('h connection \<Rightarrow> bool) \<Rightarrow> bool" where
  "of_session P \<longleftrightarrow> (\<forall>s t. session s = session t \<longrightarrow> P s = P t)"

lemma session_logged [simp]: "session (logged e s) = session s"
  by (simp add: session_def logged_def)

lemma of_sessionD: "of_session P \<Longrightarrow> P s \<Longrightarrow> session t = session s \<Longrightarrow> P t"
  unfolding of_session_def by blast

lemma discreet_tame:
  assumes "discreet env" and "of_session P"
  shows "tame env P"
proof -
  have t: "tame env (\<lambda>t. session t = session s)" for s
    using assms(1) unfolding discreet_def by (rule spec)
  have "keeps P (invoke env h a s)" if "P s" for h a s
    by (rule keeps_then [of "\<lambda>t. session t = session s"])
      (use t [of s] of_sessionD [OF assms(2) that] in \<open>auto simp: tame_def\<close>)
  moreover have "firm P (invoke env h (ModeArg m) s)" if "P s" for h m s
    by (rule firm_then [of "\<lambda>t. session t = session s"])
      (use t [of s] of_sessionD [OF assms(2) that] in \<open>auto simp: tame_def\<close>)
  moreover have "indifferent P"
    unfolding indifferent_def using of_sessionD [OF assms(2)] by simp
  ultimately show ?thesis by (simp add: tame_def)
qed

section \<open>Agreement\<close>

fun on_line :: "conn_state \<Rightarrow> bool" where
  "on_line Disconnected = False"
| "on_line AddressResolving = False"
| "on_line _ = True"

definition usable :: "connect_result list \<Rightarrow> bool" where
  "usable cs \<longleftrightarrow> list_all (\<lambda>c. case c of NoSocket e \<Rightarrow> True | Attempt f e \<Rightarrow> 0 \<le> f) cs"

text \<open>
  There is a socket just in the stages that need one; while the resolver's thread is not joined there
  is none; addresses are awaited only while it runs; at most one answer of it is under way, and
  none when it is not running. \<open>k\<close> answers are still to be taken from the queue \<open>ts\<close> that is being
  run; between operations these are 0 and the empty queue. \<open>X\<close> are the stages the session is confined to.
\<close>

definition coherent :: "conn_state set \<Rightarrow> nat \<Rightarrow> 'h notification list \<Rightarrow> 'h connection \<Rightarrow> bool" where
  "coherent X k ts s \<longleftrightarrow> (0 \<le> sock s \<longleftrightarrow> on_line (st s))
     \<and> (resolver_joinable s \<longrightarrow> sock s < 0)
     \<and> (st s = AddressResolving \<longrightarrow> resolver_joinable s)
     \<and> k + resolver_notes (notifications s) \<le> of_bool (resolver_joinable s)
     \<and> tmp_notifications s = ts \<and> usable (connect_script (sys s)) \<and> st s \<in> X"

text \<open>No socket and no resolver: where attempts to connect start from.\<close>

definition vacant :: "nat \<Rightarrow> 'h notification list \<Rightarrow> 'h connection \<Rightarrow> bool" where
  "vacant k ts s \<longleftrightarrow> sock s < 0 \<and> \<not> resolver_joinable s \<and> k + resolver_notes (notifications s) = 0
     \<and> tmp_notifications s = ts \<and> usable (connect_script (sys s))"

text \<open>What closing turns into a coherent state, and the way there: the stage is set already.\<close>

definition closable :: "conn_state set \<Rightarrow> nat \<Rightarrow> 'h notification list \<Rightarrow> 'h connection \<Rightarrow> bool" where
  "closable X k ts s \<longleftrightarrow> coherent X k ts (s\<lparr>sock := - 1, st := Disconnected\<rparr>)"

definition offline :: "conn_state set \<Rightarrow> nat \<Rightarrow> 'h notification list \<Rightarrow> 'h connection \<Rightarrow> bool" where
  "offline X k ts s \<longleftrightarrow> coherent X k ts s \<and> sock s < 0"

definition online :: "conn_state set \<Rightarrow> nat \<Rightarrow> 'h notification list \<Rightarrow> 'h connection \<Rightarrow> bool" where
  "online X k ts s \<longleftrightarrow> coherent X k ts s \<and> 0 \<le> sock s"

definition closing :: "conn_state set \<Rightarrow> nat \<Rightarrow> 'h notification list \<Rightarrow> 'h connection \<Rightarrow> bool" where
  "closing X k ts s \<longleftrightarrow> closable X k ts s \<and> st s = Disconnected"

lemmas stage_defs = coherent_def vacant_def closable_def offline_def online_def closing_def

lemma of_session_intros [intro, simp]:
  "of_session (coherent X k ts)" "of_session (vacant k ts)" "of_session (closable X k ts)"
  "of_session (offline X k ts)" "of_session (online X k ts)" "of_session (closing X k ts)"
  by (simp_all add: of_session_def session_def stage_defs)

lemma closable_from:
  "coherent X k ts s \<Longrightarrow> Disconnected \<in> X \<Longrightarrow> closable X k ts s"
  "vacant k ts s \<Longrightarrow> Disconnected \<in> X \<Longrightarrow> closable X k ts s"
  by (auto simp: closable_def coherent_def vacant_def)

section \<open>Outcomes without catchable exceptions\<close>

abbreviation sure :: "('a \<Rightarrow> 's \<Rightarrow> bool) \<Rightarrow> 'a result \<times> 's \<Rightarrow> bool" where
  "sure Q r \<equiv> outcome Q (\<lambda>e t. fatal e) r"

lemma firm_sure: "firm P r \<Longrightarrow> (\<And>x t. P t \<Longrightarrow> Q x t) \<Longrightarrow> sure Q r"
  by (erule outcome_conseq) auto

lemma sure_maintains: "sure (\<lambda>_. P) r \<Longrightarrow> maintains P r"
  by (erule outcome_conseq) auto

lemma sure_andthen: "sure (\<lambda>_. P) (f s) \<Longrightarrow> (\<And>t. P t \<Longrightarrow> sure Q (g t)) \<Longrightarrow> sure Q (andthen f g s)"
  unfolding outcome_andthen by (erule outcome_conseq) auto

lemma sure_seq: "sure R (f s) \<Longrightarrow> (\<And>x t. R x t \<Longrightarrow> sure Q (g x t)) \<Longrightarrow> sure Q (seq f g s)"
  unfolding outcome_seq by (erule outcome_conseq) auto

lemma sure_noexcept: "maintains P (f s) \<Longrightarrow> sure (\<lambda>_. P) (noexcept f s)"
  unfolding outcome_noexcept by (erule outcome_conseq) auto

lemma sure_error: "discreet env \<Longrightarrow> of_session P \<Longrightarrow> P s \<Longrightarrow> sure (\<lambda>_. P) (handle_error env m c e s)"
  by (rule firm_sure [OF tame_handle_error [OF discreet_tame]])

lemma sure_watch:
  "discreet env \<Longrightarrow> of_session P \<Longrightarrow> P (s\<lparr>prev_watch := m\<rparr>) \<Longrightarrow> sure (\<lambda>_. P) (watch_socket env m s)"
  by (rule firm_sure [OF tame_watch [OF discreet_tame]])

lemma session_call: "discreet env \<Longrightarrow> of_session P \<Longrightarrow> P s \<Longrightarrow> maintains P (call_opt env cb a s)"
  by (rule keeps_maintains [OF tame_call [OF discreet_tame]])

lemma session_catching:
  "discreet env \<Longrightarrow> of_session P \<Longrightarrow> P s \<Longrightarrow>
     maintains P (catching (call_opt env cb a) (\<lambda>e. handle_error env (what e) c dd) s)"
  by (rule firm_maintains [OF tame_catching [OF discreet_tame]])

text \<open>A condition on the session says nothing of the other fields.\<close>

lemma session_simps [simp]:
  "session (s\<lparr>current_cs := b\<rparr>) = session s" "session (s\<lparr>greeting := c\<rparr>) = session s"
  "session (s\<lparr>parts := d\<rparr>) = session s" "session (s\<lparr>reconnect_ticks := a\<rparr>) = session s"
  "session (s\<lparr>reconnect_timeout := a\<rparr>) = session s" "session (s\<lparr>idle_ticks := a\<rparr>) = session s"
  "session (s\<lparr>idle_timeout := a\<rparr>) = session s" "session (s\<lparr>caller_idle := e\<rparr>) = session s"
  "session (s\<lparr>last_head := n\<rparr>) = session s" "session (s\<lparr>next_to_send := n\<rparr>) = session s"
  "session (s\<lparr>uncorked_size := n\<rparr>) = session s"
  "session (s\<lparr>receive_buffer := wb\<rparr>) = session s" "session (s\<lparr>input_buffer := wb\<rparr>) = session s"
  "session (s\<lparr>send_buffer := wb\<rparr>) = session s" "session (s\<lparr>output_buffer := wb\<rparr>) = session s"
  "session (s\<lparr>detected := n\<rparr>) = session s" "session (s\<lparr>request_id := i\<rparr>) = session s"
  "session (s\<lparr>is_corked := e\<rparr>) = session s" "session (s\<lparr>required_proto := p\<rparr>) = session s"
  "session (s\<lparr>server_proto := p\<rparr>) = session s" "session (s\<lparr>last_write_time := a\<rparr>) = session s"
  "session (s\<lparr>prev_watch := w\<rparr>) = session s"
  "session (s\<lparr>error_cb := h\<rparr>) = session s" "session (s\<lparr>watcher_cb := h\<rparr>) = session s"
  "session (s\<lparr>notify_cb := h\<rparr>) = session s" "session (s\<lparr>response_cb := h\<rparr>) = session s"
  "session (s\<lparr>connected_cb := h\<rparr>) = session s" "session (s\<lparr>disconnected_cb := h\<rparr>) = session s"
  "session (s\<lparr>idle_cb := h\<rparr>) = session s" "session (s\<lparr>destruct_cb := h\<rparr>) = session s"
  by (simp_all add: session_def)

text \<open>Outcomes in which the session is untouched, whatever became of the buffers.\<close>

abbreviation unmoved :: "'h connection \<Rightarrow> 'a result \<times> 'h connection \<Rightarrow> bool" where
  "unmoved s r \<equiv> outcome (\<lambda>_ t. session t = session s) (\<lambda>e t. session t = session s) r"

named_theorems stays \<open>operations that do not touch the session\<close>

lemma unmoved_buffers [stays]:
  "session u = session s \<Longrightarrow> unmoved s (on_receive f u)" "session u = session s \<Longrightarrow> unmoved s (on_input f u)"
  "session u = session s \<Longrightarrow> unmoved s (on_output f u)" "session u = session s \<Longrightarrow> unmoved s (on_send f u)"
  "session u = session s \<Longrightarrow> unmoved s (compose_to_send g u)"
  by (auto simp: on_receive_def on_input_def on_output_def on_send_def
      compose_to_send_def outcome_def split: prod.splits sum.splits)

lemma unmoved_modify [stays]: "session (f u) = session s \<Longrightarrow> unmoved s (modify f u)"
  by (simp add: outcome_modify)

lemma unmoved_ret [stays]: "session u = session s \<Longrightarrow> unmoved s (ret x u)"
  by simp

lemma unmoved_seq [stays]:
  "unmoved s (f u) \<Longrightarrow> (\<And>x t. session t = session s \<Longrightarrow> unmoved s (g x t)) \<Longrightarrow> unmoved s (seq f g u)"
  unfolding outcome_seq by (erule outcome_conseq) auto

lemma unmoved_andthen [stays]:
  "unmoved s (f u) \<Longrightarrow> (\<And>t. session t = session s \<Longrightarrow> unmoved s (g t)) \<Longrightarrow> unmoved s (andthen f g u)"
  unfolding andthen_def by (rule unmoved_seq)

lemma unmoved_clear [stays]:
  "session u = session s \<Longrightarrow> unmoved s (clear_receive_buffer u)"
  "session u = session s \<Longrightarrow> unmoved s (clear_send_buffer u)"
  unfolding clear_receive_buffer_def clear_send_buffer_def by (auto intro!: stays)

lemma unmoved_calls [stays]: "unmoved s (sys_send n s)" "unmoved s (sys_so_error s)" "unmoved s (sys_recv n s)"
  by (auto simp: sys_send_def sys_so_error_def sys_recv_def Let_def session_def
      split: list.split send_result.split so_result.split recv_result.split)

lemma unmoved_make_room [stays]: "unmoved s (make_room s)"
  unfolding make_room_def Let_def by (auto intro!: stays)

lemma unmoved_next_batch [stays]: "unmoved s (next_batch s)"
  unfolding next_batch_def Let_def by (auto intro!: stays)

lemma unmoved_split_input [stays]: "unmoved s (split_input s)"
  unfolding split_input_def Let_def by (auto intro!: stays)

lemma unmoved_proto [stays]: "unmoved s (read_server_proto mp uq r s)"
  by (auto simp: read_server_proto_def outcome_def split: prod.split sum.split)

lemma maintains_unmoved: "of_session P \<Longrightarrow> P s \<Longrightarrow> unmoved s r \<Longrightarrow> maintains P r"
  by (erule outcome_conseq) (auto elim: of_sessionD)

lemma insensitive: "session t = session s \<Longrightarrow> of_session P \<Longrightarrow> P t = P s"
  unfolding of_session_def by blast

lemmas session_free = session_simps [THEN insensitive]

lemmas stage_simps [simp] =
  session_free [OF of_session_intros(1)] session_free [OF of_session_intros(2)] session_free [OF of_session_intros(3)]
  session_free [OF of_session_intros(4)] session_free [OF of_session_intros(5)] session_free [OF of_session_intros(6)]

named_theorems session_steps \<open>what maintains a condition on the session\<close>

lemmas [session_steps] = maintains_seq maintains_andthen maintains_modify maintains_ret maintains_noexcept
  session_call session_catching sure_error [THEN sure_maintains] sure_watch [THEN sure_maintains]

lemma session_buffers [session_steps]:
  assumes "of_session P" and "P s"
  shows "maintains P (on_receive f s)" "maintains P (on_input f s)" "maintains P (on_output f s)"
    "maintains P (on_send f s)" "maintains P (compose_to_send g s)" "maintains P (clear_receive_buffer s)"
    "maintains P (clear_send_buffer s)" "maintains P (sys_send n s)" "maintains P (sys_so_error s)"
    "maintains P (sys_recv n s)" "maintains P (make_room s)" "maintains P (next_batch s)" "maintains P (split_input s)"
    "maintains P (read_server_proto mp uq r s)"
  by (rule maintains_unmoved [OF assms], rule stays, (rule refl)?)+

section \<open>Closing and sending\<close>

lemma closing_reset:
  assumes "closable X k ts s"
  shows "closing X k ts (s\<lparr>greeting := [], server_proto := no_proto, st := Disconnected\<rparr>)"
    "sock s < 0 \<Longrightarrow> offline X k ts (s\<lparr>greeting := [], server_proto := no_proto, st := Disconnected\<rparr>)"
  using assms by (auto simp: stage_defs)

lemma coherent_close:
  assumes d: "discreet env" and c: "closable X k ts s"
  shows "sure (\<lambda>_. offline X k ts) (connection_close env b delay s)"
proof -
  have r: "maintains (offline X k ts)
      (andthen (modify (\<lambda>s. s\<lparr>output_buffer := clear (output_buffer s)\<rparr>))
       (andthen clear_send_buffer
       (andthen (modify (\<lambda>s. s\<lparr>uncorked_size := 0, detected := 0\<rparr>))
       (andthen (\<lambda>s. on_receive (resize (last_head s)) s) g))) t)"
    if "offline X k ts t" "\<And>u. offline X k ts u \<Longrightarrow> maintains (offline X k ts) (g u)" for t and g :: "('a connection, unit) op"
    using that by (auto intro!: session_steps)
  have cs: "maintains (offline X k ts) (andthen close_sock g t)"
    if "closing X k ts t" "\<And>u. offline X k ts u \<Longrightarrow> maintains (offline X k ts) (g u)" for t and g :: "('a connection, unit) op"
    using that by (auto simp: close_sock_def andthen_def seq_def log_event_apply modify_def stage_defs logged_def)
  have w: "maintains (offline X k ts) (andthen (watch_socket env W_none) g t)"
    if "closing X k ts t" "\<And>u. closing X k ts u \<Longrightarrow> maintains (offline X k ts) (g u)" for t and g :: "('a connection, unit) op"
    unfolding outcome_andthen
    by (rule outcome_conseq [OF sure_watch [OF d of_session_intros(6)]]) (use that in \<open>auto simp: closing_def closable_def coherent_def\<close>)
  show ?thesis
    unfolding connection_close_def Let_def
    by (rule sure_noexcept) (auto intro!: w cs r session_catching [OF d] closing_reset [OF c])
qed

lemma coherent_give_up [session_steps]:
  assumes "discreet env" and "coherent X k ts s" and "Disconnected \<in> X"
  shows "maintains (coherent X k ts) (connection_close env b delay s)"
  by (rule outcome_conseq [OF coherent_close [OF assms(1) closable_from(1) [OF assms(2,3)]]]) (simp_all add: offline_def)

lemma coherent_send_loop [session_steps]:
  assumes "discreet env" and "Disconnected \<in> X"
  shows "coherent X k ts s \<Longrightarrow> maintains (coherent X k ts) (send_loop env fuel n s)"
proof (induction fuel arbitrary: n s)
  case (Suc fuel)
  with assms show ?case by (auto simp: Let_def intro!: session_steps)
qed simp

lemma coherent_write:
  assumes "discreet env" and "coherent X k ts s" and "Disconnected \<in> X"
  shows "sure (\<lambda>_. coherent X k ts) (connection_write env s)"
proof -
  have c: "coherent X k ts (t\<lparr>sys := (sys t)\<lparr>errno := e\<rparr>\<rparr>) = coherent X k ts t" for t :: "'a connection" and e
    by (simp add: coherent_def)
  show ?thesis
    using assms unfolding connection_write_def Let_def
    by (auto intro!: sure_noexcept session_steps simp: c split: option.split simp del: send_loop.simps)
qed

lemmas [session_steps] = coherent_write [THEN sure_maintains]

lemma coherent_flush:
  "discreet env \<Longrightarrow> coherent X k ts s \<Longrightarrow> Disconnected \<in> X \<Longrightarrow> sure (\<lambda>_. coherent X k ts) (flush env s)"
  unfolding flush_def by (auto intro!: sure_noexcept session_steps)

lemmas [session_steps] = coherent_flush [THEN sure_maintains]

section \<open>Receiving\<close>

lemma coherent_detect [session_steps]:
  assumes "discreet env"
  shows "coherent X k ts s \<Longrightarrow> maintains (coherent X k ts) (detect_loop env fuel s)"
proof (induction fuel arbitrary: s)
  case (Suc fuel)
  have "maintains (coherent X k ts) (detect_size env n u)" if "coherent X k ts u" for n u
    using assms that unfolding detect_size_def by (auto intro!: session_steps split: sum.split)
  with Suc show ?case by (auto simp: detect_loop.simps Let_def intro!: session_steps)
qed (simp add: detect_loop.simps)

lemma coherent_pass [session_steps]:
  assumes "discreet env"
  shows "coherent X k ts s \<Longrightarrow> maintains (coherent X k ts) (pass_response_to_caller deep env s)"
proof (induction deep arbitrary: s)
  case (Suc deep)
  with assms show ?case
    by (auto simp: pass_response_to_caller.simps intro!: session_steps maintains_catching)
qed (simp add: pass_response_to_caller.simps)

text \<open>The stages of the login have a socket: they follow each other while it lasts.\<close>

lemma online_stage: "coherent X k ts s \<Longrightarrow> on_line (st s) \<Longrightarrow> online X k ts s"
  by (simp add: online_def coherent_def)

lemma online_coherent: "online X k ts s \<Longrightarrow> coherent X k ts s"
  by (simp add: online_def)

lemma online_set [simp]: "on_line x \<Longrightarrow> x \<in> X \<Longrightarrow> online X k ts s \<Longrightarrow> online X k ts (s\<lparr>st := x\<rparr>)"
  by (auto simp: online_def coherent_def)

lemma online_then:
  assumes "maintains (online X k ts) (f s)" and "\<And>t. online X k ts t \<Longrightarrow> maintains (coherent X k ts) (g t)"
  shows "maintains (coherent X k ts) (andthen f g s)"
  unfolding outcome_andthen by (rule outcome_conseq [OF assms(1)]) (auto intro: assms(2) online_coherent)

lemma online_seq:
  assumes "maintains (online X k ts) (f s)" and "\<And>x t. online X k ts t \<Longrightarrow> maintains (coherent X k ts) (g x t)"
  shows "maintains (coherent X k ts) (seq f g s)"
  unfolding outcome_seq by (rule outcome_conseq [OF assms(1)]) (auto intro: assms(2) online_coherent)

lemma coherent_set_connected:
  assumes "discreet env" and "online X k ts s" and "Connected \<in> X"
  shows "maintains (online X k ts) (set_connected env s)"
  using assms unfolding set_connected_def by (auto intro!: session_steps)

lemma coherent_write_then:
  "discreet env \<Longrightarrow> online X k ts s \<Longrightarrow> Disconnected \<in> X \<Longrightarrow>
     maintains (coherent X k ts) (andthen (connection_write env) (ret x) s)"
  by (auto intro!: session_steps online_coherent)

text \<open>A request for authentication is composed only when a user is known; else nothing happens.\<close>

lemma coherent_auth_request:
  assumes "discreet env" and "online X k ts s" and X: "Disconnected \<in> X" "Authentication \<in> X"
  shows "outcome (\<lambda>b t. coherent X k ts t \<and> (\<not> b \<longrightarrow> online X k ts t)) (\<lambda>e t. \<not> fatal e \<longrightarrow> coherent X k ts t)
    (send_auth_request env s)"
proof (cases "user (parts s) = [] \<or> user (parts s) = ''guest''")
  case True
  with assms(2) show ?thesis by (simp add: send_auth_request_def online_coherent)
next
  case False
  have w: "outcome (\<lambda>b t. coherent X k ts t \<and> (\<not> b \<longrightarrow> online X k ts t)) (\<lambda>e t. \<not> fatal e \<longrightarrow> coherent X k ts t)
      (andthen (connection_write env) (ret True) t)" if "online X k ts t" for t
    unfolding outcome_andthen
    by (rule outcome_conseq [OF coherent_write [OF assms(1) online_coherent [OF that] X(1)]]) simp_all
  have c: "outcome (\<lambda>b t. coherent X k ts t \<and> (\<not> b \<longrightarrow> online X k ts t)) (\<lambda>e t. \<not> fatal e \<longrightarrow> coherent X k ts t)
      (andthen (\<lambda>s. compose_to_send (f s) s) (andthen (connection_write env) (ret True)) t)" if "online X k ts t" for t f
    unfolding outcome_andthen [of _ _ "\<lambda>s. compose_to_send (f s) s"]
    by (rule outcome_conseq [OF session_buffers(5) [OF of_session_intros(5) that]]) (auto intro: w online_coherent)
  show ?thesis
    using False assms(2) X(2)
    unfolding send_auth_request_def clear_receive_buffer_def clear_send_buffer_def
    by (simp add: andthen_modify c)
qed

text \<open>Authentication is skipped or asked for.\<close>

lemma coherent_login_step:
  assumes d: "discreet env" and o: "online X k ts s" and X: "Disconnected \<in> X" "Authentication \<in> X" "Connected \<in> X"
  shows "maintains (coherent X k ts)
    (seq (send_auth_request env) (\<lambda>sent. if sent then ret True else andthen (set_connected env) (ret True)) s)"
  unfolding outcome_seq
proof (rule outcome_conseq [OF coherent_auth_request [OF d o X(1,2)]])
  fix b t
  assume "coherent X k ts t \<and> (\<not> b \<longrightarrow> online X k ts t)"
  then show "maintains (coherent X k ts) ((if b then ret True else andthen (set_connected env) (ret True)) t)"
    by (cases b) (auto intro!: online_then coherent_set_connected [OF d _ X(3)] online_coherent)
qed

lemma coherent_response_code:
  assumes d: "discreet env" and o: "online X k ts s"
    and X: "Disconnected \<in> X" "Connected \<in> X" "st s = FeaturesRequest \<Longrightarrow> Authentication \<in> X"
  shows "maintains (coherent X k ts) (on_response_code env code r s)"
proof -
  have "maintains (online X k ts) ((if st s = FeaturesRequest then read_server_proto mp uq r else ret ()) s)" for mp uq
    using o by (auto intro!: session_steps)
  moreover have "maintains (coherent X k ts) (andthen (set_connected env) (ret True) t)" if "online X k ts t" for t
    using that by (auto intro!: online_then coherent_set_connected [OF d _ X(2)] online_coherent)
  ultimately have "maintains (coherent X k ts)
     (andthen (if st s = FeaturesRequest then read_server_proto (lib env) (unquote_uuid env) r else ret ())
          (\<lambda>s1. if st s = FeaturesRequest
            then seq (send_auth_request env)
                   (\<lambda>sent. if sent then ret True else andthen (set_connected env) (ret True)) s1
            else andthen (set_connected env) (ret True) s1) s)"
    by (auto intro!: online_then coherent_login_step [OF d _ X(1,3,2)] coherent_set_connected [OF d _ X(2)] online_coherent)
  with d o coherent_login_step [OF d o X(1,3,2)] show ?thesis
    unfolding on_response_code_def Let_def
    by (auto intro!: session_steps online_coherent split: prod.split sum.split)
qed

lemma coherent_login:
  "discreet env \<Longrightarrow> online X k ts s \<Longrightarrow> Disconnected \<in> X \<Longrightarrow> Connected \<in> X \<Longrightarrow>
     (st s = FeaturesRequest \<Longrightarrow> Authentication \<in> X) \<Longrightarrow> maintains (coherent X k ts) (process_login env s)"
  by (auto simp: process_login_def intro!: coherent_response_code online_coherent split: prod.split sum.split)

definition logins :: "conn_state set \<Rightarrow> bool" where
  "logins X \<longleftrightarrow> (FeaturesRequest \<in> X \<longrightarrow> Authentication \<in> X) \<and> (Authentication \<in> X \<longrightarrow> Connected \<in> X)"

lemma coherent_process:
  assumes d: "discreet env" and c: "coherent X k ts s" and X: "Disconnected \<in> X" "logins X"
  shows "maintains (coherent X k ts) (process_receive_buffer env s)"
proof -
  have l: "maintains (coherent X k ts) (process_login env t)"
    if "coherent X k ts t" "st t = FeaturesRequest \<or> st t = Authentication" for t
  proof -
    have "st t \<in> X" using that(1) by (simp add: coherent_def)
    with that X show ?thesis by (intro coherent_login [OF d] online_stage) (auto simp: logins_def)
  qed
  show ?thesis
    using d c X(1) unfolding process_receive_buffer_def
    by (auto intro!: session_steps l maintains_catching)
qed

lemma coherent_recv [session_steps]:
  assumes "discreet env" and "Disconnected \<in> X"
  shows "coherent X k ts s \<Longrightarrow> maintains (coherent X k ts) (recv_loop env fuel s)"
proof (induction fuel arbitrary: s)
  case (Suc fuel)
  with assms show ?case by (auto simp: recv_loop.simps Let_def intro!: session_steps)
qed (simp add: recv_loop.simps)

text \<open>Reading, when the greeting is awaited and later.\<close>

lemma coherent_wider: "coherent X k ts s \<Longrightarrow> X \<subseteq> Y \<Longrightarrow> coherent Y k ts s"
  by (auto simp: coherent_def)

lemma coherent_within: "coherent Y k ts s \<Longrightarrow> st s \<in> X \<Longrightarrow> coherent X k ts s"
  by (simp add: coherent_def)

lemma coherent_read:
  assumes d: "discreet env" and c: "coherent X k ts s"
    and X: "Disconnected \<in> X" "st s \<noteq> Connecting \<Longrightarrow> Connecting \<notin> X \<and> logins X" "st s = Connecting \<Longrightarrow> FeaturesRequest \<in> X"
  shows "maintains (coherent X k ts) (connection_read env s)"
proof (cases "st s = Connecting")
  case True
  let ?Y = "{Connecting, Disconnected}" and ?s = "s\<lparr>idle_ticks := 0\<rparr>"
  have Y: "?Y \<subseteq> X" using c True X(1) by (auto simp: coherent_def)
  have w: "maintains (coherent X k ts) (andthen clear_send_buffer
       (andthen (\<lambda>s. compose_to_send (f s) s) (connection_write env)) t)" if "coherent X k ts t" for t f
    using d X(1) that by (auto intro!: session_steps)
  have g: "maintains (coherent X k ts) (andthen (modify (\<lambda>s. s\<lparr>greeting := content (receive_buffer s)\<rparr>))
            (andthen clear_receive_buffer
            (andthen (modify (\<lambda>s. s\<lparr>st := FeaturesRequest\<rparr>))
            (andthen clear_send_buffer
            (andthen (\<lambda>s. compose_to_send (f s) s) (connection_write env))))) t)"
    if "coherent ?Y k ts t" "st t = Connecting" for t f
  proof -
    have "coherent X k ts (t\<lparr>greeting := a, receive_buffer := b, last_head := 0, detected := 0, st := FeaturesRequest\<rparr>)" for a b
      using online_stage [OF coherent_wider [OF that(1) Y]] that(2) X(3) True
      by (intro online_coherent online_set) simp_all
    then show ?thesis by (simp add: clear_receive_buffer_def andthen_modify w)
  qed
  have p: "maintains (coherent X k ts) (process_receive_buffer env t)" if "coherent ?Y k ts t" for t
    by (rule maintains_then [OF coherent_process [OF d that]]) (auto simp: logins_def intro: coherent_wider [OF _ Y])
  have "maintains (coherent ?Y k ts) (recv_loop env fuel ?s)" for fuel
    using d c True by (auto intro!: coherent_recv coherent_within [OF c])
  then have "maintains (coherent X k ts) (seq (recv_loop env fuel) (\<lambda>go_on s1.
        if \<not> go_on then (Inr (), s1)
        else if st s1 = Connecting
        then
          if endp (receive_buffer s1) < GREETING_SIZE then (Inr (), s1)
          else
            andthen (modify (\<lambda>s. s\<lparr>greeting := content (receive_buffer s)\<rparr>))
            (andthen clear_receive_buffer
            (andthen (modify (\<lambda>s. s\<lparr>st := FeaturesRequest\<rparr>))
            (andthen clear_send_buffer
            (andthen (\<lambda>s. compose_to_send (encode_id_request (lib env) next_request_id (required_proto s)) s)
              (connection_write env))))) s1
        else process_receive_buffer env s1) ?s)" for fuel
    unfolding outcome_seq
    by (rule outcome_conseq) (auto intro: coherent_wider [OF _ Y] g p)
  with c show ?thesis by (simp add: connection_read_def)
next
  case False
  have "maintains (coherent X k ts) (recv_loop env fuel (s\<lparr>idle_ticks := 0\<rparr>))" for fuel
    using d c X(1) by (auto intro!: session_steps)
  moreover have "st t \<noteq> Connecting" if "coherent X k ts t" for t
    using that X(2) [OF False] by (auto simp: coherent_def)
  ultimately show ?thesis
    using d c X False unfolding connection_read_def
    by (auto intro!: maintains_seq [where P = "coherent X k ts"] coherent_process)
qed

section \<open>Opening\<close>

lemma sure_sys_connect:
  assumes "vacant k ts s"
  shows "sure (\<lambda>r t. vacant k ts t \<and> (\<forall>f e. r = Some (f, e) \<longrightarrow> 0 \<le> f)) (sys_connect s)"
proof -
  have u: "usable (connect_script (sys s))" using assms by (simp add: vacant_def)
  show ?thesis
    using assms u
    by (auto simp: sys_connect_def vacant_def usable_def split: list.split connect_result.split option.split)
qed

lemma sure_try_connect:
  assumes d: "discreet env" and v: "vacant k ts s" and f: "0 \<le> f" and X: "Disconnected \<in> X" "Connecting \<in> X"
  shows "sure (\<lambda>failed t. coherent X k ts t \<and> (failed \<longrightarrow> offline X k ts t)) (try_connect env p f err s)"
proof -
  have t: "sure Q (andthen (take_sock f) g t)"
    if "vacant k ts t" "st t = Connecting" "\<And>u. coherent X k ts u \<Longrightarrow> sure Q (g u)" for t Q and g :: "('a connection, bool) op"
    using that f X(2) by (auto simp: take_sock_def close_sock_def andthen_def seq_def modify_def stage_defs)
  have w: "sure (\<lambda>_. coherent X k ts) (watch_socket env m t)" if "coherent X k ts t" for m t
    using that by (intro sure_watch [OF d]) simp_all
  have v': "vacant k ts (s\<lparr>st := Connecting\<rparr>)" using v by (simp add: vacant_def)
  have x: "sure (\<lambda>failed t. coherent X k ts t \<and> (failed \<longrightarrow> offline X k ts t))
      (andthen (handle_error env [] E_system 0)
                   (andthen (connection_close env False 0)
                     (andthen (log_event (SysClosed f)) (ret True))) (s\<lparr>st := Connecting\<rparr>))"
  proof (rule sure_andthen [where P = "vacant k ts"])
    show "sure (\<lambda>_. vacant k ts) (handle_error env [] E_system 0 (s\<lparr>st := Connecting\<rparr>))"
      using v' by (intro sure_error [OF d]) simp_all
  next
    fix t
    assume "vacant k ts t"
    then have "sure (\<lambda>_. offline X k ts) (connection_close env False 0 t)"
      by (intro coherent_close [OF d] closable_from(2) X(1))
    then show "sure (\<lambda>failed t. coherent X k ts t \<and> (failed \<longrightarrow> offline X k ts t))
        (andthen (connection_close env False 0) (andthen (log_event (SysClosed f)) (ret True)) t)"
      by (rule sure_andthen) (auto simp: outcome_simps logged_def stage_defs)
  qed
  show ?thesis
    using v' x by (auto simp: try_connect_def andthen_modify intro!: t sure_andthen [OF w] split: option.split)
qed

lemma sure_try_addresses:
  assumes d: "discreet env" and X: "Disconnected \<in> X" "Connecting \<in> X"
  shows "vacant k ts s \<Longrightarrow> sure (\<lambda>_. coherent X k ts) (try_addresses env addrs s)"
proof (induction addrs arbitrary: s)
  case Nil
  then show ?case using X(1) by (auto simp: outcome_simps stage_defs)
next
  case (Cons a addrs)
  have n: "sure (\<lambda>_. coherent X k ts) (andthen (handle_error env [] E_system 0) (try_addresses env addrs) t)"
    if "vacant k ts t" for t
    by (rule sure_andthen [where P = "vacant k ts"]) (use that in \<open>auto intro: sure_error [OF d] Cons.IH\<close>)
  have y: "sure (\<lambda>_. coherent X k ts) (seq (try_connect env EINPROGRESS f err)
        (\<lambda>failed. if failed then modify (\<lambda>s. s\<lparr>st := Disconnected, reconnect_ticks := 0\<rparr>) else ret ()) t)"
    if "vacant k ts t" "0 \<le> f" for t f err
    by (rule sure_seq, rule sure_try_connect [OF d that X]) (use X in \<open>auto simp: outcome_simps stage_defs\<close>)
  show ?case
    unfolding try_addresses.simps
    by (rule sure_seq, rule sure_sys_connect [OF Cons.prems]) (auto intro!: n y split: option.split)
qed

lemma vacant_from: "coherent X k ts s \<Longrightarrow> st s = Disconnected \<Longrightarrow> \<not> resolver_joinable s \<Longrightarrow> vacant k ts s"
  by (auto simp: stage_defs)

lemma coherent_open [session_steps]:
  assumes d: "discreet env" and c: "coherent X k ts s"
    and X: "st s = Disconnected \<Longrightarrow> AddressResolving \<in> X \<and> Connecting \<in> X"
  shows "maintains (coherent X k ts) (connection_open env delay s)"
proof -
  have u: "maintains (coherent X k ts) (open_unix env t)"
    if v: "vacant k ts t" and c: "coherent X k ts t" and X: "Disconnected \<in> X" "Connecting \<in> X" for t
  proof -
    have e: "coherent X k ts (snd (sys_connect t))" using c
      by (auto simp: sys_connect_def stage_defs usable_def split: list.split connect_result.split option.split)
    have "maintains (coherent X k ts) (seq (try_connect env EAGAIN f err) (\<lambda>failed.
             if failed then modify (\<lambda>s. s\<lparr>reconnect_ticks := 0\<rparr>) else ret ()) u)" if "vacant k ts u" "0 \<le> f" for f err u
      by (rule sure_maintains, rule sure_seq, rule sure_try_connect [OF d that X]) (simp add: outcome_simps)
    moreover have "maintains (coherent X k ts) (handle_error env [] E_system 0 u)" if "coherent X k ts u" for u
      using d that by (auto intro!: session_steps)
    ultimately show ?thesis
      using e sure_sys_connect [OF v] unfolding open_unix_def
      by (cases "sys_connect t") (auto simp: seq_def outcome_def [of _ _ "(_, _)"] split: sum.splits option.splits)
  qed
  have n: "coherent X k ts (t\<lparr>st := AddressResolving, resolver_joinable := True\<rparr>)"
    if "vacant k ts t" "AddressResolving \<in> X" for t
    using that by (simp add: stage_defs)
  have "st s \<in> X" using c by (simp add: coherent_def)
  then show ?thesis
    using d c vacant_from [OF c] X
    by (auto simp: connection_open_def Let_def intro!: session_steps n u split: option.split)
qed

section \<open>Notifications\<close>

text \<open>Handlers that return. One that throws would leave the queue in the middle.\<close>

definition handlers_return :: "'h env \<Rightarrow> bool" where
  "handlers_return env \<longleftrightarrow> (\<forall>h s. ok (invoke env h NoArg s))"

lemma run_note_coherent:
  assumes d: "discreet env" and h: "handlers_return env"
    and c: "coherent X ((if of_resolver n then 1 else 0) + k) ts s"
    and X: "of_resolver n \<Longrightarrow> Disconnected \<in> X" "of_resolver n \<Longrightarrow> AddressResolving \<in> X \<longrightarrow> Connecting \<in> X"
  shows "sure (\<lambda>_. coherent X k ts) (run_note env n s)"
proof (cases n)
  case (UserNote x)
  then have "maintains (coherent X k ts) (call_back env x NoArg s)"
    using c by (intro keeps_maintains tame_call_back [OF discreet_tame [OF d]]) simp_all
  moreover have "ok (call_back env x NoArg s)"
    using h by (simp add: call_back_def andthen_def seq_def log_event_apply handlers_return_def)
  ultimately show ?thesis
    using UserNote by (auto simp: outcome_def ok_def split: prod.splits sum.splits)
next
  case (Resolved ai)
  have ar: "st s = AddressResolving \<Longrightarrow> AddressResolving \<in> X" using c by (simp add: coherent_def)
  from Resolved have "coherent X k ts (s\<lparr>resolver_joinable := False\<rparr>)" if "st s \<noteq> AddressResolving"
    using c that by (auto simp: stage_defs split: split_of_bool_asm)
  moreover have "vacant k ts (s\<lparr>resolver_joinable := False\<rparr>)"
    using c Resolved by (auto simp: stage_defs split: split_of_bool_asm)
  ultimately show ?thesis
    using Resolved sure_try_addresses [OF d X(1)] X(2) ar by (simp add: andthen_modify address_resolved_def)
next
  case (ResolveFailed m)
  then have "coherent X k ts (s\<lparr>resolver_joinable := False, st := Disconnected\<rparr>)"
    using c X(1) by (auto simp: stage_defs split: split_of_bool_asm)
  with ResolveFailed d show ?thesis
    by (auto simp: andthen_modify outcome_simps intro!: sure_andthen [where P = "coherent X k ts"] sure_error)
qed

lemma run_notes_coherent:
  assumes "discreet env" and "handlers_return env"
    and X: "Disconnected \<in> X \<and> (AddressResolving \<in> X \<longrightarrow> Connecting \<in> X) \<or> resolver_notes ns = 0"
  shows "coherent X (resolver_notes ns + k) ts s \<Longrightarrow> sure (\<lambda>_. coherent X k ts) (for_each (run_note env) ns s)"
  using X
proof (induction ns arbitrary: s)
  case (Cons n ns)
  have "sure (\<lambda>_. coherent X (resolver_notes ns + k) ts) (run_note env n s)"
    by (rule run_note_coherent [OF assms(1,2)]) (use Cons.prems in \<open>auto simp: add.assoc split: if_splits\<close>)
  moreover from Cons.prems(2) have "Disconnected \<in> X \<and> (AddressResolving \<in> X \<longrightarrow> Connecting \<in> X) \<or> resolver_notes ns = 0"
    by (auto split: if_splits)
  ultimately show ?case using Cons.IH by (auto intro!: sure_andthen)
qed simp

lemma coherent_acquire [session_steps]:
  assumes "discreet env" and "handlers_return env" and c: "coherent X 0 [] s"
    and X: "Disconnected \<in> X \<and> (AddressResolving \<in> X \<longrightarrow> Connecting \<in> X) \<or> resolver_notes (notifications s) = 0"
  shows "maintains (coherent X 0 []) (acquire_notifications env s)"
proof -
  have "coherent X (resolver_notes (notifications s) + 0) (notifications s)
      (s\<lparr>notifications := tmp_notifications s, tmp_notifications := notifications s\<rparr>)"
    using c by (auto simp: coherent_def)
  from run_notes_coherent [OF assms(1,2) X this]
  have "sure (\<lambda>_. coherent X 0 []) (andthen (for_each (run_note env) (notifications s))
      (modify (\<lambda>s. s\<lparr>tmp_notifications := []\<rparr>))
      (s\<lparr>notifications := tmp_notifications s, tmp_notifications := notifications s\<rparr>))"
    by (rule sure_andthen) (auto simp: outcome_simps coherent_def)
  then show ?thesis
    by (auto simp: acquire_notifications_def andthen_modify intro: sure_maintains)
qed

lemma coherent_push [session_steps]:
  assumes "discreet env" and c: "coherent X k ts s"
  shows "maintains (coherent X k ts) (push_handler env h s)"
proof -
  have "coherent X k ts (s\<lparr>notifications := notifications s @ [UserNote h]\<rparr>)"
    using c by (simp add: coherent_def)
  with assms(1) show ?thesis unfolding push_handler_def andthen_modify by (auto intro!: session_steps)
qed

text \<open>The resolver's thread answers once.\<close>

lemma coherent_resolver_done [session_steps]:
  assumes "discreet env" and c: "coherent X 0 ts s" and "resolver_joinable s" and "resolver_notes (notifications s) = 0"
  shows "maintains (coherent X 0 ts) (resolver_done env res ai err s)"
proof -
  have "coherent X 0 ts (s\<lparr>notifications := notifications s @ [resolver_note env res ai err]\<rparr>)"
    using c assms(3,4) by (simp add: coherent_def resolver_note_def)
  with assms(1) show ?thesis unfolding resolver_done_def andthen_modify by (auto intro!: session_steps)
qed

section \<open>Timeouts and construction\<close>

lemma coherent_tick [session_steps]:
  "discreet env \<Longrightarrow> coherent X k ts s \<Longrightarrow> Disconnected \<in> X \<Longrightarrow>
     (st s = Disconnected \<Longrightarrow> AddressResolving \<in> X \<and> Connecting \<in> X) \<Longrightarrow>
     maintains (coherent X k ts) (tick_1sec env s)"
  unfolding tick_1sec_def unstick_def Let_def by (auto intro!: session_steps)

lemma coherent_input_processed [session_steps]:
  "discreet env \<Longrightarrow> coherent X k ts s \<Longrightarrow> maintains (coherent X k ts) (input_processed env s)"
  by (simp add: input_processed_def coherent_pass)

lemma coherent_new:
  assumes "discreet env" and "usable (connect_script w)" and "Disconnected \<in> X"
  shows "maintains (coherent X 0 []) (new_connection env cs a b w)"
  unfolding new_connection_def
  by (rule session_call [OF assms(1)]) (use assms(2,3) in \<open>simp_all add: coherent_def\<close>)

end
