(* ===== verification/Connection_Runs.thy ===== *)
theory Connection_Runs
  imports Connection_Session
begin

text \<open>
  A connection over its life: the public operations, the answers of the resolver's thread and the
  changes of the world outside are the steps of a transition system, and what every operation
  maintains holds in all the states it reaches.
\<close>

section \<open>Steps\<close>

text \<open>
  \<open>A_compose\<close> and \<open>A_take_input\<close> are what the owner does to the buffers it was given references to:
  requests are appended to the output, responses are taken off the input. \<open>A_world\<close> is a change of
  what the system calls will answer.
\<close>

datatype 'h action =
    A_open int | A_close bool int | A_read | A_write | A_flush | A_cork | A_uncork | A_tick
  | A_push 'h | A_acquire | A_input_processed
  | A_set_connection_string string | A_set_required_proto proto_id
  | A_on_opened "'h option" | A_on_closed "'h option" | A_on_idle int "'h option" | A_on_error "'h option"
  | A_on_watcher "'h option" | A_on_response "'h option" | A_on_notify "'h option" | A_on_destruct "'h option"
  | A_resolver int "addrinfo list" int
  | A_compose wtf_buffer | A_take_input wtf_buffer | A_world "'h sys"

fun perform :: "'h env \<Rightarrow> 'h action \<Rightarrow> ('h connection, unit) op" where
  "perform env (A_open delay) = connection_open env delay"
| "perform env (A_close b delay) = connection_close env b delay"
| "perform env A_read = connection_read env"
| "perform env A_write = connection_write env"
| "perform env A_flush = seq (flush env) (\<lambda>_. ret ())"
| "perform env A_cork = cork"
| "perform env A_uncork = uncork env"
| "perform env A_tick = tick_1sec env"
| "perform env (A_push h) = push_handler env h"
| "perform env A_acquire = acquire_notifications env"
| "perform env A_input_processed = input_processed env"
| "perform env (A_set_connection_string cs) = set_connection_string cs"
| "perform env (A_set_required_proto p) = set_required_proto p"
| "perform env (A_on_opened h) = on_opened h"
| "perform env (A_on_closed h) = on_closed h"
| "perform env (A_on_idle t h) = on_idle t h"
| "perform env (A_on_error h) = on_error h"
| "perform env (A_on_watcher h) = on_socket_watcher_request h"
| "perform env (A_on_response h) = on_response h"
| "perform env (A_on_notify h) = on_notify_request h"
| "perform env (A_on_destruct h) = on_destruct h"
| "perform env (A_resolver res ai err) = resolver_done env res ai err"
| "perform env (A_compose b) = modify (\<lambda>s. s\<lparr>output_buffer := b\<rparr>)"
| "perform env (A_take_input b) = modify (\<lambda>s. s\<lparr>input_buffer := b\<rparr>)"
| "perform env (A_world w) = modify (\<lambda>s. s\<lparr>sys := w\<rparr>)"

text \<open>
  The resolver's thread answers while it runs and has not answered yet; the owner of the output
  only appends; \<^verbatim>\<open>socket\<close> returns descriptors that are not negative.
\<close>

fun enabled :: "'h connection \<Rightarrow> 'h action \<Rightarrow> bool" where
  "enabled s (A_resolver res ai err) \<longleftrightarrow> resolver_joinable s \<and> resolver_notes (notifications s) = 0"
| "enabled s (A_compose b) \<longleftrightarrow> wf_buf b \<and> growable b \<and> endp (output_buffer s) \<le> endp b"
| "enabled s (A_take_input b) \<longleftrightarrow> wf_buf b \<and> growable b"
| "enabled s (A_world w) \<longleftrightarrow> usable (connect_script w)"
| "enabled s _ \<longleftrightarrow> True"

text \<open>The program goes on after a normal return, and after an exception its caller may have caught.\<close>

definition survives :: "'a result \<Rightarrow> bool" where
  "survives r \<longleftrightarrow> (case r of Inl e \<Rightarrow> \<not> fatal e | Inr _ \<Rightarrow> True)"

inductive conn_step :: "'h env \<Rightarrow> 'h connection \<Rightarrow> 'h action \<Rightarrow> 'h connection \<Rightarrow> bool" for env where
  conn_step: "enabled s a \<Longrightarrow> perform env a s = (r, t) \<Longrightarrow> survives r \<Longrightarrow> conn_step env s a t"

inductive_cases conn_stepE: "conn_step env s a t"

inductive reached :: "'h env \<Rightarrow> 'h connection \<Rightarrow> bool" for env where
  born: "usable (connect_script w) \<Longrightarrow> new_connection env cs on_construct on_destroy w = (r, s) \<Longrightarrow> survives r
           \<Longrightarrow> reached env s"
| goes_on: "reached env s \<Longrightarrow> conn_step env s a t \<Longrightarrow> reached env t"

lemma maintains_survives: "maintains P (r, t) \<Longrightarrow> survives r \<Longrightarrow> P t"
  by (auto simp: outcome_def survives_def split: sum.splits)

text \<open>What holds at the beginning and is maintained by every step that is enabled holds throughout.\<close>

lemma reached_invariant:
  assumes "reached env s"
    and "\<And>cs a b w. usable (connect_script w) \<Longrightarrow> maintains P (new_connection env cs a b w)"
    and "\<And>s a. P s \<Longrightarrow> enabled s a \<Longrightarrow> maintains P (perform env a s)"
  shows "P s"
  using assms(1)
proof induction
  case (born w cs a b r s)
  then show ?case using assms(2) [of w cs a b] by (auto intro: maintains_survives)
next
  case (goes_on s a t)
  from goes_on(2) show ?case
  proof (rule conn_stepE)
    fix r
    assume "enabled s a" "perform env a s = (r, t)" "survives r"
    then show "P t" using assms(3) [OF goes_on(3)] maintains_survives by metis
  qed
qed

lemmas setting_defs = cork_def set_connection_string_def set_required_proto_def on_opened_def on_closed_def on_idle_def
  on_error_def on_socket_watcher_request_def on_response_def on_notify_request_def on_destruct_def outcome_simps

section \<open>Buffers\<close>

lemma sound_perform:
  assumes p: "polite env" and s: "sound s" and e: "enabled s a"
  shows "maintains sound (perform env a s)"
proof -
  note t = politeD [OF p]
  have "maintains sound (seq (flush env) (\<lambda>_. ret ()) s)" using t s by (auto intro!: steps)
  moreover have "sound (s\<lparr>output_buffer := b\<rparr>)" if "a = A_compose b" for b
    using s e that by (auto simp: sound_def)
  moreover have "sound (s\<lparr>input_buffer := b\<rparr>)" if "a = A_take_input b" for b
    using s e that by (auto simp: sound_def)
  ultimately show ?thesis
    using p t s by (cases a) (auto intro: steps simp: setting_defs)
qed


section \<open>The session\<close>

text \<open>
  The automaton of the session: what an operation may make of a stage. There is no way to
  \<open>Connected\<close> but through the greeting and the login that follows it.
\<close>

fun next_stages :: "'h action \<Rightarrow> conn_state \<Rightarrow> conn_state set" where
  "next_stages (A_open delay) x = (if x = Disconnected then {Disconnected, AddressResolving, Connecting} else {x})"
| "next_stages (A_close b delay) x = {Disconnected}"
| "next_stages A_read x =
     (case x of
        Disconnected \<Rightarrow> {Disconnected}
      | AddressResolving \<Rightarrow> {AddressResolving}
      | Connecting \<Rightarrow> {Connecting, FeaturesRequest, Disconnected}
      | FeaturesRequest \<Rightarrow> {FeaturesRequest, Authentication, Connected, Disconnected}
      | Authentication \<Rightarrow> {Authentication, Connected, Disconnected}
      | Connected \<Rightarrow> {Connected, Disconnected})"
| "next_stages A_write x = {x, Disconnected}"
| "next_stages A_flush x = {x, Disconnected}"
| "next_stages A_uncork x = {x, Disconnected}"
| "next_stages A_tick x =
     (if x = Disconnected then {Disconnected, AddressResolving, Connecting} else {x, Disconnected})"
| "next_stages A_acquire x =
     (if x = AddressResolving then {AddressResolving, Connecting, Disconnected} else {x})"
| "next_stages _ x = {x}"

lemma read_without_socket: "sock s < 0 \<Longrightarrow> connection_read env s = (Inr (), s)"
  by (simp add: connection_read_def)

lemma coherent_perform:
  assumes d: "discreet env" and h: "handlers_return env" and c: "coherent UNIV 0 [] s" and e: "enabled s a"
  shows "maintains (coherent (next_stages a (st s)) 0 []) (perform env a s)"
proof -
  let ?X = "next_stages a (st s)"
  have in_X: "coherent X 0 [] s" if "st s \<in> X" for X using c that by (rule coherent_within)
  have none: "resolver_notes (notifications s) = 0" if "\<not> resolver_joinable s" using c that by (simp add: coherent_def)
  show ?thesis
  proof (cases a)
    case (A_close b delay)
    have "closable {Disconnected} 0 [] s" using c by (auto simp: closable_def coherent_def)
    with A_close show ?thesis
      by (auto intro!: outcome_conseq [OF coherent_close [OF d]] simp: offline_def)
  next
    case A_read
    show ?thesis
    proof (cases "on_line (st s)")
      case True
      then show ?thesis
        using A_read by (cases "st s") (auto intro!: coherent_read [OF d in_X] simp: logins_def)
    next
      case False
      then have "sock s < 0" using c by (auto simp: coherent_def)
      then show ?thesis
        using A_read False by (cases "st s") (auto simp: read_without_socket intro!: in_X)
    qed
  next
    case A_acquire
    have "resolver_joinable s \<longrightarrow> st s = AddressResolving \<or> st s = Disconnected"
      using c by (cases "st s") (auto simp: coherent_def)
    then have "Disconnected \<in> ?X \<and> (AddressResolving \<in> ?X \<longrightarrow> Connecting \<in> ?X) \<or> resolver_notes (notifications s) = 0"
      using none A_acquire by auto
    with A_acquire show ?thesis by (auto intro!: coherent_acquire [OF d h in_X])
  next
    case (A_world w)
    with c e show ?thesis by (auto simp: outcome_simps coherent_def)
  next
    case A_uncork
    with d show ?thesis by (auto simp: uncork_def intro!: session_steps in_X)
  next
    case (A_resolver res ai err)
    with d e show ?thesis by (auto intro!: coherent_resolver_done in_X)
  next
    case (A_open delay)
    with d show ?thesis by (auto intro!: coherent_open in_X)
  next
    case A_tick
    with d show ?thesis by (auto intro!: coherent_tick in_X)
  next
    case A_write
    with d show ?thesis by (auto intro!: session_steps in_X)
  next
    case A_flush
    with d show ?thesis by (auto intro!: session_steps in_X)
  next
    case (A_push x)
    with d show ?thesis by (auto intro!: coherent_push in_X)
  next
    case A_input_processed
    with d show ?thesis by (auto intro!: coherent_input_processed in_X)
  qed (use in_X in \<open>auto simp: setting_defs\<close>)
qed

lemma reached_coherent:
  assumes "discreet env" and "handlers_return env" and "reached env s"
  shows "coherent UNIV 0 [] s"
  using assms(3)
  by (rule reached_invariant)
    (use assms(1,2) in \<open>auto intro: maintains_then [OF coherent_perform] coherent_wider coherent_new\<close>)



section \<open>A concrete life\<close>

text \<open>
  An environment with callbacks of several kinds: 1 throws, 2 forgets the input, 3 corks the
  connection, all others do nothing. The connection is told to open, and its resolver answers.
\<close>

definition busy_env :: "nat env" where
  "busy_env = silent_env\<lparr>invoke := (\<lambda>h a.
     if h = 1 \<and> a = InputArg then throw (RuntimeError ''no'')
     else if h = 2 then modify (\<lambda>s. s\<lparr>input_buffer := clear (input_buffer s)\<rparr>)
     else if h = 3 then modify (\<lambda>s. s\<lparr>is_corked := True\<rparr>)
     else ret ())\<rparr>"

lemma busy_invoke: "invoke busy_env h a = (if h = 1 \<and> a = InputArg then throw (RuntimeError ''no'')
     else if h = 2 then modify (\<lambda>s. s\<lparr>input_buffer := clear (input_buffer s)\<rparr>)
     else if h = 3 then modify (\<lambda>s. s\<lparr>is_corked := True\<rparr>)
     else ret ())"
  by (simp add: busy_env_def)

lemma busy_polite: "polite busy_env"
  by (auto simp: polite_def tame_def indifferent_def busy_invoke outcome_simps logged_def) (auto simp: sound_def)

lemma busy_discreet: "discreet busy_env" "handlers_return busy_env"
  by (auto simp: discreet_def tame_def indifferent_def busy_invoke outcome_simps handlers_return_def modify_def)

definition life :: "nat connection" where
  "life = snd (andthen (perform busy_env (A_open 0))
     (andthen (perform busy_env (A_resolver (- 2) [] 0)) (perform busy_env (A_push 3)))
     (snd (new_connection busy_env ''3301'' None None still_world)))"

lemma life_runs:
  "reached busy_env life \<and> resolver_joinable life \<and> st life = AddressResolving \<and> error_cb life = None
     \<and> notifications life = [ResolveFailed ''no address'', UserNote 3]"
proof -
  let ?p = "\<lparr>unix_socket_path = [], user = ''guest'', password = [], host = ''localhost'', port = ''3301''\<rparr>"
  let ?s = "snd (new_connection busy_env ''3301'' None None still_world)"
  let ?t = "?s\<lparr>reconnect_timeout := GENERAL_TIMEOUT, reconnect_ticks := - 1, parts := ?p,
      st := AddressResolving, resolver_joinable := True\<rparr>"
  let ?u = "?t\<lparr>notifications := notifications ?t @ [resolver_note busy_env (- 2) [] 0]\<rparr>"
  let ?v = "?u\<lparr>notifications := notifications ?u @ [UserNote 3]\<rparr>"
  have s: "new_connection busy_env ''3301'' None None still_world = (Inr (), ?s)" "reached busy_env ?s"
  proof -
    show e: "new_connection busy_env ''3301'' None None still_world = (Inr (), ?s)"
      by (simp add: new_connection_def call_opt_def)
    show "reached busy_env ?s" by (rule born [OF _ e]) (simp_all add: usable_def still_world_def survives_def)
  qed
  have f: "st ?s = Disconnected" "\<not> resolver_joinable ?s" "current_cs ?s = ''3301''" "notifications ?s = []"
    "notify_cb ?s = None" "error_cb ?s = None"
    by (simp_all add: new_connection_def call_opt_def)
  have 1: "perform busy_env (A_open 0) ?s = (Inr (), ?t)"
    using f by (simp add: connection_open_def Let_def demo_port)
  have 2: "perform busy_env (A_resolver (- 2) [] 0) ?t = (Inr (), ?u)"
    using f by (simp add: resolver_done_def andthen_modify call_opt_def)
  have 3: "perform busy_env (A_push 3) ?u = (Inr (), ?v)"
    using f by (simp add: push_handler_def andthen_modify call_opt_def)
  have "reached busy_env ?t"
    by (rule goes_on [OF s(2) conn_step [OF _ 1]]) (simp_all add: survives_def)
  then have "reached busy_env ?u"
    by (rule goes_on [OF _ conn_step [OF _ 2]]) (use f in \<open>simp_all add: survives_def\<close>)
  then have "reached busy_env ?v"
    by (rule goes_on [OF _ conn_step [OF _ 3]]) (simp_all add: survives_def)
  moreover have l: "life = ?v"
    unfolding life_def using 1 2 3 by (simp only: andthen_Inr snd_conv)
  moreover have "resolver_note busy_env (- 2) [] 0 = ResolveFailed ''no address''"
    by (simp add: resolver_note_def EAI_SYSTEM_def busy_env_def silent_env_def)
  ultimately show ?thesis unfolding l using f by simp
qed

lemmas life_reached = life_runs [THEN conjunct1]

lemma life_fields: "resolver_joinable life" "st life = AddressResolving" "error_cb life = None"
  "notifications life = [ResolveFailed ''no address'', UserNote 3]"
  using life_runs by simp_all




end
