(* ===== verification/Connection_Handshake.thy ===== *)
theory Connection_Handshake
  imports Connection_Login
begin

text \<open>
  The answer to the request for features: what the server announces becomes \<^verbatim>\<open>_server_proto\<close>, and the
  connection asks for authentication or opens the session as it is.
\<close>

section \<open>What the server announces\<close>

text \<open>
  A pair of the body's map that the connector can read: a numeric key, and behind the keys it knows
  a value of the expected type.
\<close>

fun announcing :: "mpv \<times> mpv \<Rightarrow> bool" where
  "announcing (MUint k, v) \<longleftrightarrow> k < 2 ^ 32
     \<and> (int k = uint (body_key B_VERSION) \<longrightarrow> (\<exists>n. v = MUint n \<and> n < 2 ^ 64))
     \<and> (int k = uint (body_key B_AUTH_TYPE) \<longrightarrow> (\<exists>a. v = MStr a))
     \<and> (int k = uint (body_key B_FEATURES) \<longrightarrow> (\<exists>fs. v = MArray (map MUint fs) \<and> (\<forall>f \<in> set fs. f < 256)))"
| "announcing _ \<longleftrightarrow> False"

fun number_of :: "mpv \<Rightarrow> nat" where
  "number_of (MUint n) = n"
| "number_of _ = 0"

fun announce :: "mpv \<times> mpv \<Rightarrow> proto_id \<Rightarrow> proto_id" where
  "announce (k, v) p =
     (if int (number_of k) = uint (body_key B_VERSION)
      then (case v of MUint n \<Rightarrow> p\<lparr>version := of_nat n\<rparr> | _ \<Rightarrow> p)
      else if int (number_of k) = uint (body_key B_AUTH_TYPE)
      then (case v of MStr a \<Rightarrow> p\<lparr>auth := a\<rparr> | _ \<Rightarrow> p)
      else if int (number_of k) = uint (body_key B_FEATURES)
      then (case v of MArray vs \<Rightarrow> p\<lparr>features := add_features (map number_of vs) (features p)\<rparr> | _ \<Rightarrow> p)
      else p)"

definition announced :: "mpv list \<Rightarrow> proto_id \<Rightarrow> proto_id" where
  "announced bdy p = fold announce (pair_up bdy) p"

lemma reads_length: "reads r us \<Longrightarrow> length us \<le> length (vmem (view r))"
  by (auto simp: reads_def dest: wires_length)

lemma features_read:
  assumes lib: "msgpuck_lib mp"
  shows "reads ff (map MUint fs) \<Longrightarrow> (\<forall>f \<in> set fs. f < 256) \<Longrightarrow> length fs < fuel \<Longrightarrow>
     \<exists>ff'. read_features mp fuel (ff, w) = (Inr (), (ff', add_features fs w))"
proof (induction fs arbitrary: ff w fuel)
  case Nil
  then show ?case by (cases fuel) (auto simp: reads_has_next [of ff "[]" False])
next
  case (Cons f fs)
  then obtain k where k: "fuel = Suc k" by (cases fuel) auto
  have "delivers (read_int mp False 8) (MUint f) (int f)"
    using Cons.prems(2) by (intro msgpuck_lib.delivers_uint [OF lib]) (simp add: int_max_def)
  then obtain ff' where r: "read_int mp False 8 ff = (Inr (int f), ff')" "reads ff' (map MUint fs)"
    using deliversE [of "read_int mp False 8" "MUint f" "int f" ff "map MUint fs"] Cons.prems(1) by auto
  from Cons.IH [OF r(2), of k "if f < 32 then set_feature f w else w"] Cons.prems k
  show ?case using r(1) reads_has_next [OF Cons.prems(1), of False] by (cases "f < 32") simp_all
qed

lemma field_read:
  assumes lib: "msgpuck_lib mp" and r: "reads b (v # vs)" and a: "announcing (MUint k, v)"
  shows "\<exists>b'. read_proto_field mp uq (int k) (b, p) = (Inr (), (b', announce (MUint k, v) p)) \<and> reads b' vs"
proof -
  consider "int k = uint (body_key B_VERSION)" | "int k = uint (body_key B_AUTH_TYPE)" | "int k = uint (body_key B_FEATURES)"
    | "int k \<noteq> uint (body_key B_VERSION)" "int k \<noteq> uint (body_key B_AUTH_TYPE)" "int k \<noteq> uint (body_key B_FEATURES)"
    by blast
  then show ?thesis
  proof cases
    case 1
    with a obtain n where v: "v = MUint n" "n < 2 ^ 64" by auto
    have "delivers (read_int mp False 64) (MUint n) (int n)"
      using v(2) by (intro msgpuck_lib.delivers_uint [OF lib]) (simp add: int_max_def)
    then obtain b' where "read_int mp False 64 b = (Inr (int n), b')" "reads b' vs"
      using r [unfolded v(1)] by (rule deliversE)
    with 1 v(1) show ?thesis by (simp add: read_proto_field_def)
  next
    case 2
    with a obtain t where v: "v = MStr t" by auto
    obtain b' where "read_string mp uq (length (auth p)) b = (Inr t, b')" "reads b' vs"
      using msgpuck_lib.delivers_string [OF lib] r [unfolded v] by (rule deliversE)
    with 2 v show ?thesis by (simp add: read_proto_field_def)
  next
    case 3
    with a obtain fs where v: "v = MArray (map MUint fs)" "\<forall>f \<in> set fs. f < 256" by auto
    obtain e rest b' where i: "item_at mp b (MArray (map MUint fs)) vs e rest b'"
      using msgpuck_lib.reads_item [OF lib r [unfolded v(1)]] by blast
    then obtain ff where ff: "read_array mp b = (Inr ff, b')" "reads ff (map MUint fs)"
      by (rule msgpuck_lib.array_item [OF lib])
    have "length fs < length (vmem (view ff)) + 1" using reads_length [OF ff(2)] by simp
    with features_read [OF lib ff(2) v(2)] obtain ff' where
      "read_features mp (length (vmem (view ff)) + 1) (ff, features p) = (Inr (), (ff', add_features fs (features p)))" by blast
    moreover have "reads b' vs" using i by (simp add: item_at_def)
    moreover have "map (number_of \<circ> MUint) fs = fs" by (simp add: comp_def)
    ultimately show ?thesis using 3 v(1) ff(1) by (simp add: read_proto_field_def)
  next
    case 4
    obtain e rest b' where "item_at mp b v vs e rest b'" using msgpuck_lib.reads_item [OF lib r] by blast
    then have "skip mp b = (Inr (), b')" "reads b' vs" by (simp_all add: item_at_def)
    with 4 show ?thesis by (simp add: read_proto_field_def)
  qed
qed

lemma proto_read:
  assumes lib: "msgpuck_lib mp"
  shows "reads b us \<Longrightarrow> even (length us) \<Longrightarrow> (\<forall>kv \<in> set (pair_up us). announcing kv) \<Longrightarrow> length us < fuel \<Longrightarrow>
     \<exists>b'. read_proto mp uq fuel (b, p) = (Inr (), (b', announced us p))"
proof (induction us arbitrary: b p fuel rule: pair_up.induct)
  case (1 k v us)
  obtain n where k: "k = MUint n" "n < 2 ^ 32" using "1.prems"(3) by (cases k) auto
  obtain f where f: "fuel = Suc f" using "1.prems"(4) by (cases fuel) auto
  have "delivers (read_int mp False 32) (MUint n) (int n)"
    using k(2) by (intro msgpuck_lib.delivers_uint [OF lib]) (simp add: int_max_def)
  then obtain c where c: "read_int mp False 32 b = (Inr (int n), c)" "reads c (v # us)"
    using deliversE [of "read_int mp False 32" "MUint n" "int n" b "v # us"] "1.prems"(1) k(1) by auto
  obtain d where d: "read_proto_field mp uq (int n) (c, p) = (Inr (), (d, announce (MUint n, v) p))" "reads d us"
    using field_read [OF lib c(2), of n uq p] "1.prems"(3) k(1) by auto
  obtain b' where "read_proto mp uq f (d, announce (MUint n, v) p) = (Inr (), (b', announced us (announce (MUint n, v) p)))"
    using "1.IH" [OF d(2), of f "announce (MUint n, v) p"] "1.prems" f by auto
  with c(1) d(1) f k(1) show ?case
    using reads_has_next [OF "1.prems"(1), of False]
    by (simp add: andthen_Inr announced_def del: announce.simps)
qed (auto simp: announced_def gr0_conv_Suc reads_has_next [of _ "[]" False])

lemma server_proto_read:
  assumes lib: "msgpuck_lib mp" and r: "reads response [MMap bdy]" and n: "length bdy < 2 ^ 32"
    and a: "\<forall>kv \<in> set (pair_up bdy). announcing kv"
  shows "read_server_proto mp uq response s = (Inr (), s\<lparr>server_proto := announced bdy (server_proto s)\<rparr>)"
proof -
  obtain e rest r' where i: "item_at mp response (MMap bdy) [] e rest r'"
    using msgpuck_lib.reads_item [OF lib r] by blast
  then obtain m where m: "read_map mp response = (Inr m, r')" "reads m bdy" "2 * card_of m = length bdy"
    by (rule msgpuck_lib.map_item [OF lib _ n])
  have "even (length bdy)" using m(3) by (metis dvd_triv_left)
  moreover have "length bdy < length (vmem (view m)) + 1" using reads_length [OF m(2)] by simp
  ultimately obtain b' where "read_proto mp uq (length (vmem (view m)) + 1) (m, server_proto s)
      = (Inr (), (b', announced bdy (server_proto s)))"
    using proto_read [OF lib m(2) _ a] by blast
  with m(1) show ?thesis by (simp add: read_server_proto_def)
qed

section \<open>Asking for authentication\<close>

definition guest :: "'h connection \<Rightarrow> bool" where
  "guest s \<longleftrightarrow> user (parts s) = [] \<or> user (parts s) = ''guest''"

definition auth_request :: "'h env \<Rightarrow> 'h connection \<Rightarrow> bytes \<Rightarrow> bytes" where
  "auth_request env s salt =
     request_header_bytes (lib env) R_AUTH (request_id s)
     @ auth_body (lib env) (bytes_of (user (parts s))) (auth (server_proto s))
         (scramble_prepare salt (bytes_of (password (parts s))))"

text \<open>The greeting has a salt, the request fits, and no requests are composed yet.\<close>

definition can_authenticate :: "'h env \<Rightarrow> 'h connection \<Rightarrow> bytes \<Rightarrow> bool" where
  "can_authenticate env s salt \<longleftrightarrow> VERSION_SIZE + SALT_SIZE \<le> length (greeting s)
     \<and> (\<exists>k. base64_decode (take SALT_SIZE (drop VERSION_SIZE (greeting s))) (salt_area env) = Inr (k, salt))
     \<and> accepts (mp_writer (clear (send_buffer s))) (length (auth_request env s salt)) 0
     \<and> wf_buf (output_buffer s) \<and> growable (output_buffer s) \<and> none_behind s \<and> 1024 \<le> capacity (send_buffer s)"

text \<open>How asking ends: the request is sent or on its way, or sending failed.\<close>

definition auth_asked :: "'h env \<Rightarrow> 'h connection \<Rightarrow> bytes \<Rightarrow> 'h connection \<Rightarrow> bool" where
  "auth_asked env s salt t \<longleftrightarrow>
     (st t = Authentication \<and> sock t = sock s \<and> request_id t = request_id s + 1
        \<and> parts t = parts s \<and> server_proto t = server_proto s \<and> expectant t
        \<and> sent_bytes t @ pending t = sent_bytes s @ frame (auth_request env s salt) \<and> sent_on s t
        \<and> (obliging s \<longrightarrow> obliging t))
     \<or> (\<not> obliging s \<and> st t = Disconnected \<and> sock t = - 1 \<and> reconnect_ticks t = 0 \<and> pending t = []
        \<and> (\<exists>rest. sent_bytes t @ rest = sent_bytes s @ frame (auth_request env s salt)))"

lemma auth_composed:
  assumes lib: "msgpuck_lib (lib env)" and c: "can_authenticate env s salt" and i: "in_ok (s\<lparr>last_head := 0\<rparr>)" "calm s" and f: "0 \<le> sock s"
    and g: "\<not> guest s"
  obtains u where "send_auth_request env s = andthen (connection_write env) (ret True) u"
    and "obliging u = obliging s" "expectant u" "st u = Authentication" "request_id u = request_id s + 1" "parts u = parts s" "server_proto u = server_proto s"
      "sent_bytes u = sent_bytes s" "pending u = frame (auth_request env s salt)" "sock u = sock s"
proof -
  let ?t = "s\<lparr>receive_buffer := clear (receive_buffer s), last_head := 0, detected := 0\<rparr>
      \<lparr>st := Authentication\<rparr>\<lparr>send_buffer := clear (send_buffer s), next_to_send := 0\<rparr>"
  let ?f = "\<lambda>s. encode_auth_request (lib env) next_request_id (salt_area env) (greeting s)
      (bytes_of (user (parts s))) (bytes_of (password (parts s))) (auth (server_proto s))"
  obtain k where k: "base64_decode (take SALT_SIZE (drop VERSION_SIZE (greeting s))) (salt_area env) = Inr (k, salt)"
    using c by (auto simp: can_authenticate_def)
  have "sends (?f ?t) \<lparr>mpw = mp_writer (send_buffer ?t), ids = request_id ?t\<rparr> (auth_request env s salt) (request_id s + 1)"
  proof -
    have w: "\<lparr>mpw = mp_writer (send_buffer ?t), ids = request_id ?t\<rparr>
      = \<lparr>mpw = mp_writer (clear (send_buffer s)), ids = request_id s\<rparr>" "?f ?t = ?f s" by simp_all
    show ?thesis
      unfolding w auth_request_def
      by (rule auth_sends [OF lib _ _ k]) (use c in \<open>simp_all add: next_request_id_def can_authenticate_def auth_request_def\<close>)
  qed
  then obtain b where b: "compose_to_send (?f ?t) ?t = (Inr (), ?t\<lparr>send_buffer := b, request_id := request_id s + 1\<rparr>)"
      "wf_buf b" "growable b" "content b = content (send_buffer ?t) @ frame (auth_request env s salt)"
    by (rule compose_sends) (use c in \<open>simp add: can_authenticate_def room_def mp_writer_def\<close>)
  let ?u = "?t\<lparr>send_buffer := b, request_id := request_id s + 1\<rparr>"
  have e: "endp b = length (auth_request env s salt) + 5" "content b = frame (auth_request env s salt)"
    using buf_size_content [OF b(2)] b(4) by simp_all
  have s: "wf_buf (output_buffer u) \<and> growable (output_buffer u) \<and> endp (output_buffer u) = 0 \<and> uncorked_size u = 0
      \<and> length (auth_request env s salt) < 2 ^ 32 \<and> trace (sys u) = trace (sys s)" if "u = ?u" for u
    using c that by (simp add: can_authenticate_def accepts_def none_behind_def)
  show thesis
  proof (rule that [of ?u])
    show "send_auth_request env s = andthen (connection_write env) (ret True) ?u"
      using g b(1)
      by (simp add: send_auth_request_def guest_def clear_receive_buffer_def clear_send_buffer_def andthen_modify)
         (simp add: andthen_def seq_def)
    have "out_ok ?u" using s [OF refl] b(2,3) e by (simp add: out_ok_def out_wf_def)
    moreover have "in_ok ?u" "calm ?u" using i by (simp_all add: in_ok_def calm_def incoming_def)
    ultimately show "expectant ?u" using s [OF refl] by (simp add: expectant_def none_behind_def)
    show "pending ?u = frame (auth_request env s salt)"
      using s [OF refl] e(2) by (simp add: pending_def content_def)
    show "sent_bytes ?u = sent_bytes s" using s [OF refl] by (simp add: sent_bytes_def)
    show "obliging ?u = obliging s" by (simp add: obliging_def)
  qed simp_all
qed

lemma auth_ok:
  assumes lib: "msgpuck_lib (lib env)" and q: "quiet env" and c: "can_authenticate env s salt" and i: "in_ok (s\<lparr>last_head := 0\<rparr>)" "calm s"
    and f: "0 \<le> sock s" and g: "\<not> guest s"
  shows "outcome (\<lambda>b t. b \<and> auth_asked env s salt t) (\<lambda>_ _. False) (send_auth_request env s)"
proof -
  obtain u where e: "send_auth_request env s = andthen (connection_write env) (ret True) u"
    and ob: "obliging u = obliging s" and u: "expectant u" "st u = Authentication" "request_id u = request_id s + 1" "parts u = parts s" "server_proto u = server_proto s"
      "sent_bytes u = sent_bytes s" "pending u = frame (auth_request env s salt)" "sock u = sock s"
    using auth_composed [OF lib c i f g] by blast
  have "firm (\<lambda>t. kept_in_order u t \<or> dropped_after_error u t) (connection_write env u)"
    by (rule write_kept [OF q]) (use u(1,2,8) f in \<open>simp_all add: expectant_def\<close>)
  then show ?thesis
    unfolding e outcome_andthen
    by (rule firm_then) (use ob u expectant_kept [OF _ u(1)] in \<open>auto simp: auth_asked_def sent_on_def kept_in_order_def dropped_after_error_def\<close>)
qed

section \<open>The answer to the request for features\<close>

text \<open>A server that knows the request announces itself; an older one does not know it (code 0x30).\<close>

definition acquainted :: "mpv list \<Rightarrow> u32 \<Rightarrow> 'h connection \<Rightarrow> 'h connection" where
  "acquainted bdy c s = (if c = 0 then s\<lparr>server_proto := announced bdy (server_proto s)\<rparr> else s)"

lemma set_connected_session:
  "quiet env \<Longrightarrow> firm (\<lambda>t. session_opened s t \<and> server_proto t = server_proto s) (set_connected env s)"
proof -
  assume q: "quiet env"
  let ?s = "s\<lparr>receive_buffer := clear (receive_buffer s), last_head := 0, detected := 0\<rparr>
      \<lparr>st := Connected, reconnect_ticks := - 1\<rparr>"
  have "firm (\<lambda>t. core t = core ?s)
      (catching (call_opt env connected_cb NoArg) (\<lambda>e. handle_error env (what e) E_external 0) ?s)"
    by (rule quiet_catching [OF q])
  then have "firm (\<lambda>t. server_proto t = server_proto s) (set_connected env s)"
    unfolding set_connected_def clear_receive_buffer_def andthen_modify
    by (rule firm_then) (drule core_fields(18), simp)
  from outcome_conj [OF set_connected_ok [OF q] this] show ?thesis
    by (rule outcome_conseq) auto
qed

lemma login_step_ok:
  assumes lib: "msgpuck_lib (lib env)" and q: "quiet env" and i: "in_ok (s\<lparr>last_head := 0\<rparr>)" "calm s" and f: "0 \<le> sock s"
    and c: "\<not> guest s \<Longrightarrow> can_authenticate env s salt"
  shows "outcome (\<lambda>b t. b \<and> (if guest s then session_opened s t \<and> server_proto t = server_proto s else auth_asked env s salt t))
    (\<lambda>_ _. False)
    (seq (send_auth_request env) (\<lambda>sent. if sent then ret True else andthen (set_connected env) (ret True)) s)"
proof (cases "guest s")
  case True
  then have "send_auth_request env s = (Inr False, s)" by (simp add: send_auth_request_def guest_def)
  with True set_connected_session [OF q, of s] show ?thesis
    by (simp add: outcome_seq outcome_andthen)
next
  case False
  with auth_ok [OF lib q c i f] show ?thesis
    unfolding outcome_seq by (auto elim!: outcome_conseq)
qed

lemma features_answer:
  assumes lib: "msgpuck_lib (lib env)" and q: "quiet env" and a: "answer s hdr bdy c" and st: "st s = FeaturesRequest"
    and n: "c = 0 \<Longrightarrow> \<forall>kv \<in> set (pair_up bdy). announcing kv"
    and auth: "\<not> guest s \<Longrightarrow> can_authenticate env (acquainted bdy c s) salt"
  shows "firm (\<lambda>t. if c \<noteq> 0 \<and> c AND 0x7fff \<noteq> 0x30 then session_refused s t
             else if guest s then session_opened s t \<and> server_proto t = server_proto (acquainted bdy c s)
             else auth_asked env (acquainted bdy c s) salt t)
           (process_receive_buffer env s)"
proof -
  obtain k where d: "detect_loop env (Suc (endp (receive_buffer s))) s = (Inr (), s\<lparr>last_head := k, detected := 0\<rparr>)"
    and k: "0 < k" using answer_detected [OF lib a] by blast
  obtain response where l: "\<And>t. receive_buffer t = receive_buffer s \<Longrightarrow>
      process_login env t = on_response_code env c response t" and r: "reads response [MMap bdy]"
    using answer_code [OF lib a] by blast
  let ?t = "s\<lparr>last_head := k, detected := 0\<rparr>"
  let ?u = "acquainted bdy c ?t"
  let ?Q = "\<lambda>t. if c \<noteq> 0 \<and> c AND 0x7fff \<noteq> 0x30 then session_refused s t
             else if guest s then session_opened s t \<and> server_proto t = server_proto (acquainted bdy c s)
             else auth_asked env (acquainted bdy c s) salt t"
  have b: "in_ok s" "0 \<le> sock s" "length bdy < 2 ^ 32" "calm s" using a by (simp_all add: answer_def)
  have e: "process_receive_buffer env s
      = seq (catching (process_login env)
                    (\<lambda>e. andthen (handle_error env (what e)
                                   (if is_reader_error e then E_unexpected_data else E_system) 0)
                           (ret False)))
                (\<lambda>returned. if returned then ret () else give_up env) ?t"
    unfolding give_up_def
    using d k st by (simp add: process_receive_buffer_def andthen_def [of "detect_loop _ _"] seq_def [of "detect_loop _ _"])
  have t: "process_login env ?t = on_response_code env c response ?t" by (rule l) simp
  have refused: ?thesis if c: "c \<noteq> 0" "c AND 0x7fff \<noteq> 0x30"
  proof -
    have "outcome (\<lambda>x u. \<not> x \<and> core u = core ?t) (\<lambda>e u. \<not> fatal e \<and> u = ?t) (on_response_code env c response ?t)"
      using c by (intro refusal [OF lib q r b(3)]) simp_all
    then have "outcome (\<lambda>x u. \<not> x \<and> core u = core ?t) (\<lambda>_ _. False)
        (catching (process_login env)
                    (\<lambda>e. andthen (handle_error env (what e)
                                   (if is_reader_error e then E_unexpected_data else E_system) 0)
                           (ret False)) ?t)"
      unfolding outcome_catching t
      by (rule outcome_conseq) (auto simp: outcome_andthen intro!: firm_then [OF quiet_handle_error [OF q]])
    moreover have "firm (session_refused s) (give_up env u)" if "core u = core ?t" for u
      by (rule give_up_ok [OF q b(1,2) that])
    ultimately show ?thesis
      using c unfolding e outcome_seq by (auto elim!: outcome_conseq)
  qed
  have same: "guest ?u = guest s" "in_ok (?u\<lparr>last_head := 0\<rparr>)" "sock ?u = sock s" "auth_asked env ?u salt = auth_asked env (acquainted bdy c s) salt"
    "can_authenticate env ?u salt = can_authenticate env (acquainted bdy c s) salt"
    "server_proto ?u = server_proto (acquainted bdy c s)" "session_opened ?u = session_opened s" "calm ?u"
    using b(1,4)
    by (auto simp: acquainted_def guest_def in_ok_def auth_asked_def sent_on_def obliging_def auth_request_def can_authenticate_def
        session_opened_def sent_bytes_def io_trace_def pending_def calm_def incoming_def none_behind_def fun_eq_iff)
  have accepted: ?thesis if c: "\<not> (c \<noteq> 0 \<and> c AND 0x7fff \<noteq> 0x30)"
  proof -
    have "on_response_code env c response ?t
        = seq (send_auth_request env) (\<lambda>sent. if sent then ret True else andthen (set_connected env) (ret True)) ?u"
      using c st n server_proto_read [OF lib r b(3), of "unquote_uuid env" ?t]
      by (auto simp: on_response_code_def Let_def acquainted_def andthen_Inr)
    moreover have "outcome (\<lambda>b t. b \<and> ?Q t) (\<lambda>_ _. False)
        (seq (send_auth_request env) (\<lambda>sent. if sent then ret True else andthen (set_connected env) (ret True)) ?u)"
      unfolding if_not_P [OF c]
      by (rule outcome_conseq [OF login_step_ok [OF lib q same(2,8), of salt]]) (use c same b(2) auth in \<open>simp_all split: if_splits\<close>)
    ultimately have o: "outcome (\<lambda>b t. b \<and> ?Q t) (\<lambda>_ _. False) (on_response_code env c response ?t)" by simp
    show ?thesis
      unfolding e outcome_seq outcome_catching t by (rule outcome_conseq [OF o]) auto
  qed
  from refused accepted show ?thesis by blast
qed

lemma features_apart:
  assumes "apart t = apart s"
  shows "guest t = guest s" "can_authenticate env (acquainted bdy c t) = can_authenticate env (acquainted bdy c s)"
    "server_proto (acquainted bdy c t) = server_proto (acquainted bdy c s)"
    "auth_asked env (acquainted bdy c t) = auth_asked env (acquainted bdy c s)"
  using apart_fields [OF assms]
  by (simp_all add: guest_def acquainted_def can_authenticate_def auth_asked_def sent_on_def obliging_def auth_request_def sent_bytes_def none_behind_def fun_eq_iff)

text \<open>
  C9: The answer to the request for features, however it is cut up on its way: its beginning is kept
  until the rest comes. Then a refusal ends the attempt. Otherwise what the server announces is noted,
  and for a named user exactly one request for authentication is sent or ready to be sent: with the next
  request number, the announced method (an empty name when none was) and the scramble of the password
  with the salt of the greeting. A guest's session is open at once.
\<close>
theorem features_settled:
  assumes lib: "msgpuck_lib (lib env)" and q: "quiet env" and a: "answering s hdr bdy c m" and st: "st s = FeaturesRequest"
    and n: "c = 0 \<Longrightarrow> \<forall>kv \<in> set (pair_up bdy). announcing kv"
    and auth: "\<not> guest s \<Longrightarrow> can_authenticate env (acquainted bdy c s) salt"
  shows "firm (\<lambda>t. if length (arrived s) < length (frame m) then collected m s t
             else if c \<noteq> 0 \<and> c AND 0x7fff \<noteq> 0x30 then session_refused s t
             else if guest s then session_opened s t \<and> server_proto t = server_proto (acquainted bdy c s)
             else auth_asked env (acquainted bdy c s) salt t)
           (connection_read env s)"
proof (rule answering_read [OF lib a], goal_cases)
  case (2 t)
  have "st t = FeaturesRequest" using apart_fields [OF 2(1)] st by simp
  note same = session_apart [OF 2(1)] features_apart [OF 2(1)]
  have "\<not> guest t \<Longrightarrow> can_authenticate env (acquainted bdy c t) salt" using auth same by simp
  from features_answer [OF lib q 2(2) \<open>st t = FeaturesRequest\<close> n this] show ?case
    unfolding same .
qed (simp add: st)

section \<open>A concrete answer\<close>

text \<open>
  A server that announces its version and two features, of which the connector has room for one;
  the user has a name and the greeting a salt. The answer comes in pieces.
\<close>

definition demo_features :: "nat connection" where
  "demo_features = demo_conn\<lparr>sock := 3, st := FeaturesRequest,
     parts := no_parts\<lparr>user := ''u'', password := ''p''\<rparr>,
     greeting := replicate 64 0x20 @ replicate 43 0x41 @ [0x3d] @ replicate 20 0x20,
     send_buffer := buf_of_size 1024,
     receive_buffer := append_bytes [0xce, 0, 0, 0, 10, 0x81, 0, 0, 0x82] (buf_of_size 32),
     sys := still_world\<lparr>recv_script := [Data [0x54, 6], RecvErr EINTR, Data [0x55, 0x92, 2, 40]]\<rparr>\<rparr>"

lemma demo_features_answer:
  "answering demo_features [MUint 0, MUint 0] [MUint 0x54, MUint 6, MUint 0x55, MArray [MUint 2, MUint 40]] 0
     [0x81, 0, 0, 0x82, 0x54, 6, 0x55, 0x92, 2, 40]"
proof -
  have "wires [MMap [MUint 0, MUint 0], MMap [MUint 0x54, MUint 6, MUint 0x55, MArray [MUint 2, MUint 40]]]
      (([0x81] @ [0] @ [0] @ []) @ ([0x82] @ [0x54] @ [6] @ [0x55] @ ([0x92] @ [2] @ [40] @ []) @ []) @ [])"
    by (intro wires_cons wires_nil wire_map [where n = 1] wire_map [where n = 2] wire_uint wire_array)
      (simp_all add: hdr_map_def hdr_uint_def hdr_array_def)
  moreover have "arrived demo_features = frame [0x81, 0, 0, 0x82, 0x54, 6, 0x55, 0x92, 2, 40]"
    by (simp add: arrived_def incoming_def demo_features_def frame_def to_be_numeral)
  ultimately show ?thesis
    by (simp add: answering_def)
      (simp add: demo_features_def in_ok_def calm_def may_pause_def incoming_def still_world_def EAGAIN_def EINTR_def)
qed

lemma demo_salt: "base64_decode (replicate 43 0x41 @ [0x3d]) (replicate 64 0) = Inr (32, replicate 64 0)"
  by code_simp

lemma scramble_size: "length (scramble_prepare salt pw) \<le> 20"
proof -
  have "length (SHA1Final x) = 20" for x
    by (simp add: SHA1Final_def Let_def digest_of_def split: prod.split)
  then show ?thesis by (simp add: scramble_prepare_def Let_def)
qed

lemma demo_can_authenticate:
  "can_authenticate silent_env (acquainted [MUint 0x54, MUint 6, MUint 0x55, MArray [MUint 2, MUint 40]] 0 demo_features)
     (replicate 64 0)"
proof -
  let ?s = "acquainted [MUint 0x54, MUint 6, MUint 0x55, MArray [MUint 2, MUint 40]] 0 demo_features"
  have g: "greeting ?s = replicate 64 0x20 @ (replicate 43 0x41 @ [0x3d]) @ replicate 20 0x20"
    "send_buffer ?s = buf_of_size 1024" "output_buffer ?s = buf_of_size 8" "uncorked_size ?s = 0"
    "parts ?s = no_parts\<lparr>user := ''u'', password := ''p''\<rparr>" "request_id ?s = 0" "auth (server_proto ?s) = []"
    by (simp_all add: acquainted_def demo_features_def announced_def)
      (simp_all add: demo_conn_def new_connection_def call_opt_def no_proto_def)
  have "length (auth_request silent_env ?s (replicate 64 0)) < 100"
    using scramble_size [of "replicate 64 0" "bytes_of ''p''"]
    by (simp add: auth_request_def g request_header_bytes_def auth_body_def bytes_of_def silent_env_def ref_bytes)
  moreover have "idle (mp_writer (clear (buf_of_size 1024)))" "stk_free (opened (mp_writer (clear (buf_of_size 1024)))) = 16"
    by (simp_all add: idle_def wf_writer_def open_containers_def mp_writer_def)
  ultimately have "accepts (mp_writer (clear (send_buffer ?s))) (length (auth_request silent_env ?s (replicate 64 0))) 0"
    by (simp add: accepts_def g)
  moreover have "take SALT_SIZE (drop VERSION_SIZE (greeting ?s)) = replicate 43 0x41 @ [0x3d]"
    by (simp add: g SALT_SIZE_def VERSION_SIZE_def)
  ultimately show ?thesis
    using demo_salt by (simp add: can_authenticate_def none_behind_def g) (simp add: silent_env_def VERSION_SIZE_def SALT_SIZE_def)
qed

theorem features_settled_witness:
  "firm (\<lambda>t. if length (arrived demo_features) < length (frame [0x81, 0, 0, 0x82, 0x54, 6, 0x55, 0x92, 2, 40])
       then collected [0x81, 0, 0, 0x82, 0x54, 6, 0x55, 0x92, 2, 40] demo_features t
       else auth_asked silent_env
         (acquainted [MUint 0x54, MUint 6, MUint 0x55, MArray [MUint 2, MUint 40]] 0 demo_features) (replicate 64 0) t)
     (connection_read silent_env demo_features)"
proof -
  have "\<not> guest demo_features" by (simp add: guest_def demo_features_def)
  moreover have "\<forall>kv \<in> set (pair_up [MUint 0x54, MUint 6, MUint 0x55, MArray [MUint 2, MUint 40]]). announcing kv"
    by (auto intro!: exI [of _ "[2, 40]"])
  moreover have "msgpuck_lib (lib silent_env)" by (simp add: silent_env_def ref.msgpuck_lib_axioms)
  moreover have "st demo_features = FeaturesRequest" by (simp add: demo_features_def)
  ultimately show ?thesis
    using features_settled [OF _ quiet_silent demo_features_answer _ _ demo_can_authenticate]
    by (simp cong: if_cong split del: if_split)
qed

end
