(* ===== verification/Connection_Opening.thy ===== *)
theory Connection_Opening
  imports Connection_Handshake
begin

text \<open>
  The way from the greeting to the open session: the answers of the server arrive in pieces, each of
  which the event loop reports to \<^verbatim>\<open>read\<close>, and the steps of the exchange follow one another.
\<close>

section \<open>Answers in pieces\<close>

text \<open>One piece after the other becomes available to \<^verbatim>\<open>recv\<close>, and readiness is reported.\<close>

fun served :: "'h env \<Rightarrow> recv_result list list \<Rightarrow> ('h connection, unit) op" where
  "served env [] = ret ()"
| "served env (r # rs) = andthen (modify (\<lambda>s. s\<lparr>sys := (sys s)\<lparr>recv_script := r\<rparr>\<rparr>))
     (andthen (connection_read env) (served env rs))"

text \<open>Every piece has some bytes, between which the calls may be interrupted; together they are the message.\<close>

definition brought :: "recv_result list \<Rightarrow> bytes" where
  "brought r = concat (map (\<lambda>x. case x of Data bs \<Rightarrow> bs | RecvErr _ \<Rightarrow> []) r)"

definition steady :: "recv_result list \<Rightarrow> bool" where
  "steady r \<longleftrightarrow> brought r \<noteq> [] \<and> (\<forall>x \<in> set r. case x of Data bs \<Rightarrow> bs \<noteq> [] | RecvErr e \<Rightarrow> e = EINTR)"

definition in_pieces :: "recv_result list list \<Rightarrow> bytes \<Rightarrow> bool" where
  "in_pieces rs bs \<longleftrightarrow> (\<forall>r \<in> set rs. steady r) \<and> concat (map brought rs) = bs"

text \<open>A message of the server with its header and body.\<close>

definition says :: "mpv list \<Rightarrow> mpv list \<Rightarrow> u32 \<Rightarrow> bytes \<Rightarrow> bool" where
  "says hdr bdy c m \<longleftrightarrow> wires [MMap hdr, MMap bdy] m \<and> length m < 2 ^ 32 \<and> length hdr < 2 ^ 32 \<and> length bdy < 2 ^ 32
     \<and> (\<exists>k. find (\<lambda>(k, _). key_is (uint (header_key H_CODE)) k) (pair_up hdr) = Some (k, MUint (unat c)))"

lemma apart_script: "apart (s\<lparr>sys := (sys s)\<lparr>recv_script := r\<rparr>\<rparr>) = apart s"
  by (simp add: apart_def beside_def)

text \<open>The beginning of a message has been collected.\<close>

definition partway :: "'h connection \<Rightarrow> bytes \<Rightarrow> 'h connection \<Rightarrow> bool" where
  "partway s m t \<longleftrightarrow> in_ok t \<and> calm t \<and> apart t = apart s
     \<and> (detected t = 0 \<or> detected t = part_size (content (receive_buffer t)) m)"

lemma part_size_cases: "part_size p m = (if length p < 5 then 0 else length (frame m))"
  by (simp add: part_size_def)

lemma served_answer:
  assumes lib: "msgpuck_lib (lib env)" and m: "says hdr bdy c m"
    and s: "st s = FeaturesRequest \<or> st s = Authentication" "0 \<le> sock s" "last_head s = 0"
    and whole: "\<And>t. apart t = apart s \<Longrightarrow> answer t hdr bdy c \<Longrightarrow> firm Q (process_receive_buffer env t)"
  shows "partway s m t \<Longrightarrow> in_pieces rs bs \<Longrightarrow> content (receive_buffer t) @ bs = frame m \<Longrightarrow> rs \<noteq> []
    \<Longrightarrow> firm Q (served env rs t)"
proof (induction rs arbitrary: t bs)
  case (Cons r rs)
  let ?t = "t\<lparr>sys := (sys t)\<lparr>recv_script := r\<rparr>\<rparr>"
  obtain cs where bs: "bs = brought r @ cs" "in_pieces rs cs" "steady r"
    using Cons.prems(2) by (auto simp: in_pieces_def)
  have arr: "arrived ?t = content (receive_buffer t) @ brought r"
    by (simp add: arrived_def incoming_def brought_def)
  have all: "arrived ?t @ cs = frame m" using Cons.prems(3) bs(1) arr by simp
  have f: "sock t = sock s" "st t = st s" "last_head t = last_head s"
    using Cons.prems(1) apart_fields [of t s] by (simp_all add: partway_def)
  have "answering ?t hdr bdy c m"
  proof -
    have w: "wf_buf (receive_buffer t)" using Cons.prems(1) by (simp add: partway_def in_ok_def)
    have "length (arrived ?t) \<le> length (frame m)" using arg_cong [OF all, of length] by simp
    then have "endp (receive_buffer t) + length (brought r) < 2 ^ 62"
      using buf_size_content [OF w] arr m by (simp add: says_def)
    then have "calm ?t"
      using bs(3) Cons.prems(1)
      by (auto simp: calm_def partway_def steady_def incoming_def brought_def split: recv_result.splits)
    moreover have "\<not> may_pause ?t"
      using bs(3) by (auto simp: may_pause_def steady_def EAGAIN_def EINTR_def)
    moreover have "detected t = 0 \<or> detected t = part_size (arrived ?t) m"
      using Cons.prems(1) arr by (auto simp: partway_def part_size_cases split: if_splits)
    ultimately show ?thesis
      using Cons.prems(1) m s f all by (auto simp: answering_def says_def partway_def in_ok_def)
  qed
  then have read: "firm (\<lambda>u. if length (arrived ?t) < length (frame m) then collected m ?t u else Q u) (connection_read env ?t)"
  proof (rule answering_read [OF lib], goal_cases)
    case (2 u)
    have "apart u = apart s"
      using 2(1) Cons.prems(1) by (simp add: partway_def apart_script)
    then show ?case using 2(2) by (rule whole)
  qed (use s f in simp)
  show ?case
  proof (cases rs)
    case Nil
    then have "cs = []" using bs(2) by (simp add: in_pieces_def)
    with read all Nil show ?thesis by (auto simp: outcome_simps elim!: outcome_conseq)
  next
    case (Cons r' rs')
    then have "cs \<noteq> []" using bs(2) by (auto simp: in_pieces_def steady_def)
    then have short: "length (arrived ?t) < length (frame m)" using arg_cong [OF all, of length] by (cases cs) simp_all
    have "firm Q (served env rs u)" if "collected m ?t u" for u
    proof (rule Cons.IH [OF _ bs(2)])
      have "apart u = apart s"
        using apart_step [where t = u and s = ?t] that Cons.prems(1) by (simp add: partway_def collected_def apart_script)
      then show "partway s m u"
        using that beside_fields(5) by (fastforce simp: partway_def collected_def)
    qed (use that all Cons in \<open>simp_all add: collected_def\<close>)
    with read short show ?thesis
      by (simp add: outcome_simps) (erule firm_then)
  qed
qed simp

lemma expectant_partway:
  "expectant t \<Longrightarrow> partway t m t \<and> content (receive_buffer t) = []"
  by (simp add: expectant_def partway_def)

section \<open>The exchange as a whole\<close>

text \<open>What the server says in the course of a successful login, and how it comes.\<close>

record login_course =
  features_header :: "mpv list"
  features_body :: "mpv list"
  features_message :: bytes
  features_pieces :: "recv_result list list"
  login_header :: "mpv list"
  login_body :: "mpv list"
  login_message :: bytes
  login_pieces :: "recv_result list list"

definition welcoming :: "login_course \<Rightarrow> bool" where
  "welcoming l \<longleftrightarrow> says (features_header l) (features_body l) 0 (features_message l)
     \<and> (\<forall>kv \<in> set (pair_up (features_body l)). announcing kv)
     \<and> in_pieces (features_pieces l) (frame (features_message l))
     \<and> says (login_header l) (login_body l) 0 (login_message l)
     \<and> in_pieces (login_pieces l) (frame (login_message l))"

lemma pieces_some: "in_pieces rs (frame m) \<Longrightarrow> rs \<noteq> []"
  by (auto simp: in_pieces_def frame_def)

text \<open>The state of the session in which the request for authentication is composed.\<close>

definition introduced :: "login_course \<Rightarrow> 'h connection \<Rightarrow> 'h connection" where
  "introduced l s = s\<lparr>request_id := request_id s + 1, server_proto := announced (features_body l) (server_proto s)\<rparr>"

lemma can_authenticate_asked:
  assumes a: "st t = FeaturesRequest" "greeting t = g" "request_id t = request_id s + 1" "parts t = parts s"
      "server_proto t = server_proto s" "expectant t"
      "capacity (send_buffer t) < 2 ^ 63" "1024 \<le> capacity (send_buffer t)"
    and g: "GREETING_SIZE \<le> length g" "base64_decode (take SALT_SIZE (drop VERSION_SIZE g)) (salt_area env) = Inr (k, salt)"
    and n: "length (auth_request env (introduced l s) salt) \<le> 1019"
  shows "can_authenticate env (acquainted (features_body l) 0 t) salt"
    and "auth_request env (acquainted (features_body l) 0 t) salt = auth_request env (introduced l s) salt"
proof -
  show e: "auth_request env (acquainted (features_body l) 0 t) salt = auth_request env (introduced l s) salt"
    using a by (simp add: auth_request_def introduced_def acquainted_def)
  have b: "wf_buf (send_buffer t)" "growable (send_buffer t)" "wf_buf (output_buffer t)" "growable (output_buffer t)"
    "none_behind t"
    using a(6) by (auto simp: expectant_def out_ok_def out_wf_def)
  with a(7) have "idle (mp_writer (clear (send_buffer t)))" "0 < stk_free (opened (mp_writer (clear (send_buffer t))))"
    by (simp_all add: idle_def wf_writer_def open_containers_def mp_writer_def)
  then have "accepts (mp_writer (clear (send_buffer t))) (length (auth_request env (acquainted (features_body l) 0 t) salt)) 0"
    using n unfolding e by (simp add: accepts_def)
  then show "can_authenticate env (acquainted (features_body l) 0 t) salt"
    using a g b by (auto simp: can_authenticate_def acquainted_def none_behind_def GREETING_SIZE_def VERSION_SIZE_def SALT_SIZE_def)
qed

lemma features_served:
  assumes lib: "msgpuck_lib (lib env)" and q: "quiet env" and w: "welcoming l"
    and t: "st t = FeaturesRequest" "0 \<le> sock t" "expectant t" "\<not> guest t"
    and c: "can_authenticate env (acquainted (features_body l) 0 t) salt"
  shows "firm (auth_asked env (acquainted (features_body l) 0 t) salt) (served env (features_pieces l) t)"
proof (rule served_answer [OF lib])
  show "says (features_header l) (features_body l) 0 (features_message l)"
    "in_pieces (features_pieces l) (frame (features_message l))"
    using w by (simp_all add: welcoming_def)
  then show "features_pieces l \<noteq> []" using pieces_some by blast
  show "partway t (features_message l) t" "last_head t = 0"
    "content (receive_buffer t) @ frame (features_message l) = frame (features_message l)"
    using expectant_partway [OF t(3)] t(3) by (simp_all add: expectant_def)
  fix u
  assume u: "apart u = apart t" "answer u (features_header l) (features_body l) 0"
  have s: "st u = FeaturesRequest" using apart_fields [OF u(1)] t(1) by simp
  have g: "\<not> guest u" using features_apart [OF u(1)] t(4) by simp
  have "can_authenticate env (acquainted (features_body l) 0 u) salt" using features_apart [OF u(1)] c by simp
  moreover have "\<forall>kv \<in> set (pair_up (features_body l)). announcing kv" using w by (simp add: welcoming_def)
  ultimately have "firm (auth_asked env (acquainted (features_body l) 0 u) salt) (process_receive_buffer env u)"
    using features_answer [OF lib q u(2) s, of salt] g by (simp cong: if_cong split del: if_split)
  then show "firm (auth_asked env (acquainted (features_body l) 0 t) salt) (process_receive_buffer env u)"
    by (simp only: features_apart [OF u(1)])
qed (use t in simp_all)

lemma login_served:
  assumes lib: "msgpuck_lib (lib env)" and q: "quiet env" and w: "welcoming l"
    and t: "st t = Authentication" "0 \<le> sock t" "expectant t"
  shows "firm (session_opened t) (served env (login_pieces l) t)"
proof (rule served_answer [OF lib])
  show "says (login_header l) (login_body l) 0 (login_message l)"
    "in_pieces (login_pieces l) (frame (login_message l))"
    using w by (simp_all add: welcoming_def)
  then show "login_pieces l \<noteq> []" using pieces_some by blast
  show "partway t (login_message l) t" "last_head t = 0"
    "content (receive_buffer t) @ frame (login_message l) = frame (login_message l)"
    using expectant_partway [OF t(3)] t(3) by (simp_all add: expectant_def)
  fix u
  assume u: "apart u = apart t" "answer u (login_header l) (login_body l) 0"
  have "st u = Authentication" using apart_fields [OF u(1)] t(1) by simp
  from login_answer [OF lib q u(2) this] show "firm (session_opened t) (process_receive_buffer env u)"
    by (simp add: session_apart [OF u(1)])
qed (use t in simp_all)

definition established :: "'h env \<Rightarrow> login_course \<Rightarrow> bytes \<Rightarrow> 'h connection \<Rightarrow> 'h connection \<Rightarrow> bool" where
  "established env l salt s t \<longleftrightarrow>
     st t = Connected \<and> sock t = sock s \<and> reconnect_ticks t = - 1 \<and> content (receive_buffer t) = []
     \<and> (\<exists>taken left. taken @ left = frame (features_request env s)
          \<and> sent_bytes t @ pending t = sent_bytes s @ taken @ frame (auth_request env (introduced l s) salt))"

text \<open>
  C3: The way to an open session as a whole. The server greets, answers the request for the features and
  accepts the login, each answer in pieces as they may come; the system takes what is sent, or asks to try
  again. Then the session is open on the same socket, and what was sent or is ready to be sent is the
  request for the features, followed by the one for authentication, which carries the next number, the
  announced method and the scramble of the password with the salt of the greeting. (The request for
  authentication takes the place of what the system has not yet taken of the first one.)
\<close>
theorem session_established:
  assumes lib: "msgpuck_lib (lib env)" and q: "quiet env" and g: "greeted env s" and named: "\<not> guest s"
    and full: "GREETING_SIZE \<le> length (arrived s)"
    and salt: "base64_decode (take SALT_SIZE (drop VERSION_SIZE (arrived s))) (salt_area env) = Inr (k, salt)"
    and w: "welcoming l" and n: "length (auth_request env (introduced l s) salt) \<le> 1019"
    and o: "obliging s"
  shows "firm (established env l salt s)
     (andthen (connection_read env) (andthen (served env (features_pieces l)) (served env (login_pieces l))) s)"
proof (rule firm_andthen [of "features_asked env s (arrived s)"])
  show "firm (features_asked env s (arrived s)) (connection_read env s)"
    using greeting_read [OF lib q g] full by (simp add: arrived_def)
  fix t
  assume "features_asked env s (arrived s) t"
  then have t: "st t = FeaturesRequest" "sock t = sock s" "greeting t = arrived s" "request_id t = request_id s + 1"
      "parts t = parts s" "server_proto t = server_proto s" "expectant t" "capacity (send_buffer t) < 2 ^ 63"
      "sent_bytes t @ pending t = sent_bytes s @ frame (features_request env s)" "sent_on s t" "obliging t"
      "1024 \<le> capacity (send_buffer t)"
    using o g by (auto simp: features_asked_def greeted_def accepts_def idle_def mp_writer_def)
  let ?u = "acquainted (features_body l) 0 t"
  note auth = can_authenticate_asked [OF t(1,3-8,12) full salt n]
  have "0 \<le> sock s" using g by (simp add: greeted_def)
  have same: "sock ?u = sock t" "sent_bytes ?u = sent_bytes t" "obliging ?u = obliging t"
    by (simp_all add: acquainted_def sent_bytes_def obliging_def)
  show "firm (established env l salt s)
     (andthen (served env (features_pieces l)) (served env (login_pieces l)) t)"
  proof (rule firm_andthen [of "auth_asked env ?u salt"])
    have "\<not> guest t" using named t(5) by (simp add: guest_def)
    with t(1,2,7) \<open>0 \<le> sock s\<close> auth(1) show "firm (auth_asked env ?u salt) (served env (features_pieces l) t)"
      by (intro features_served [OF lib q w]) simp_all
    fix v
    assume "auth_asked env ?u salt v"
    then have v: "st v = Authentication" "sock v = sock s" "expectant v"
      "sent_bytes v @ pending v = sent_bytes t @ frame (auth_request env (introduced l s) salt)"
      using t(2,11) by (auto simp: auth_asked_def same auth(2))
    obtain taken where sent: "sent_bytes t = sent_bytes s @ taken" using t(10) by (auto simp: sent_on_def)
    have opens: "firm (session_opened v) (served env (login_pieces l) v)"
      by (rule login_served [OF lib q w v(1) _ v(3)]) (use v(2) \<open>0 \<le> sock s\<close> in simp)
    have "taken @ pending t = frame (features_request env s)" using t(9) sent by simp
    with opens v sent show "firm (established env l salt s)
        (served env (login_pieces l) v)"
      by (auto simp: session_opened_def sent_bytes_io established_def elim!: outcome_conseq)
  qed
qed

section \<open>A concrete session\<close>

text \<open>The greeting comes in two parts, the features in three, the login at once; the system takes little at a time.\<close>

definition demo_course :: login_course where
  "demo_course = \<lparr>features_header = [MUint 0, MUint 0],
     features_body = [MUint 0x54, MUint 6, MUint 0x55, MArray [MUint 2, MUint 40]],
     features_message = [0x81, 0, 0, 0x82, 0x54, 6, 0x55, 0x92, 2, 40],
     features_pieces = [[Data [0xce, 0]], [RecvErr EINTR, Data [0, 0, 10, 0x81, 0]], [Data [0, 0x82, 0x54, 6], Data [0x55, 0x92, 2, 40]]],
     login_header = [MUint 0, MUint 0], login_body = [], login_message = [0x81, 0, 0, 0x80],
     login_pieces = [[Data [0xce, 0, 0, 0, 4, 0x81, 0, 0, 0x80]]]\<rparr>"

definition demo_named :: "nat connection" where
  "demo_named = demo_greeted\<lparr>parts := no_parts\<lparr>user := ''u'', password := ''p''\<rparr>,
     sys := still_world\<lparr>recv_script := [Data (replicate 64 0x20), RecvErr EINTR, Data (replicate 43 0x41 @ [0x3d] @ replicate 20 0x20)],
       send_script := [Accept 7, SendErr EINTR, Accept 3]\<rparr>\<rparr>"

lemma demo_welcoming: "welcoming demo_course"
proof -
  have f: "wires [MMap [MUint 0, MUint 0], MMap [MUint 0x54, MUint 6, MUint 0x55, MArray [MUint 2, MUint 40]]]
      [0x81, 0, 0, 0x82, 0x54, 6, 0x55, 0x92, 2, 40]"
    using demo_features_answer by (simp add: answering_def)
  have "wires [MMap [MUint 0, MUint 0], MMap []] (([0x81] @ [0] @ [0] @ []) @ ([0x80] @ []) @ [])"
    by (intro wires_cons wires_nil wire_map [where n = 1] wire_map [where n = 0] wire_uint)
      (simp_all add: hdr_map_def hdr_uint_def)
  with f show ?thesis
    by (simp add: welcoming_def says_def in_pieces_def steady_def brought_def demo_course_def frame_def to_be_numeral)
      (auto intro!: exI [of _ "[2, 40]"])
qed

lemma demo_named_ok:
  "greeted silent_env demo_named" "\<not> guest demo_named" "obliging demo_named"
  "arrived demo_named = replicate 64 0x20 @ (replicate 43 0x41 @ [0x3d]) @ replicate 20 0x20"
proof -
  have "features_request silent_env demo_named = features_request silent_env demo_greeted"
    by (simp add: features_request_def demo_named_def)
  then show "greeted silent_env demo_named"
    using demo_greeted_ok
    by (simp add: greeted_def demo_named_def)
      (simp add: in_ok_def calm_def may_pause_def incoming_def none_behind_def still_world_def demo_greeted_def EAGAIN_def EINTR_def)
  show "\<not> guest demo_named" by (simp add: guest_def demo_named_def)
  show "obliging demo_named" by (simp add: obliging_def demo_named_def)
  show "arrived demo_named = replicate 64 0x20 @ (replicate 43 0x41 @ [0x3d]) @ replicate 20 0x20"
    by (simp add: arrived_def incoming_def demo_named_def) (simp add: demo_greeted_def)
qed

lemma demo_auth_size: "length (auth_request silent_env (introduced demo_course demo_named) (replicate 64 0)) \<le> 1019"
proof -
  have "auth (server_proto demo_named) = []" "request_id demo_named = 0"
    by (simp_all add: demo_named_def demo_greeted_def)
      (simp_all add: demo_conn_def new_connection_def call_opt_def no_proto_def)
  then show ?thesis
    using scramble_size [of "replicate 64 0" "bytes_of ''p''"]
    by (simp add: auth_request_def introduced_def announced_def demo_course_def request_header_bytes_def auth_body_def
        bytes_of_def silent_env_def ref_bytes) (simp add: demo_named_def)
qed

theorem session_established_witness:
  "firm (established silent_env demo_course (replicate 64 0) demo_named)
     (andthen (connection_read silent_env)
       (andthen (served silent_env (features_pieces demo_course)) (served silent_env (login_pieces demo_course))) demo_named)"
proof (rule session_established [where k = 32])
  have "take SALT_SIZE (drop VERSION_SIZE (arrived demo_named)) = replicate 43 0x41 @ [0x3d]"
    by (simp add: demo_named_ok SALT_SIZE_def VERSION_SIZE_def)
  then show "base64_decode (take SALT_SIZE (drop VERSION_SIZE (arrived demo_named))) (salt_area silent_env) = Inr (32, replicate 64 0)"
    using demo_salt by (simp add: silent_env_def)
  show "GREETING_SIZE \<le> length (arrived demo_named)" by (simp add: demo_named_ok GREETING_SIZE_def)
  show "msgpuck_lib (lib silent_env)" by (simp add: silent_env_def ref.msgpuck_lib_axioms)
qed (simp_all only: quiet_silent demo_named_ok demo_welcoming demo_auth_size simp_thms)

end
