(* ===== verification/Ev_Adapter.thy ===== *)
theory Ev_Adapter
  imports Connection_Receive Connection_Control
begin

text \<open>
  \<^verbatim>\<open>ev4cpp2tnt.h\<close> and \<^verbatim>\<open>ev4cpp2tnt.cpp\<close>: the adapter between connections and a libev loop. libev
  itself is a parameter. Connections and pairs of watchers are known by their addresses; a pair
  is memory of the adapter's, which it gives back when a connection is unregistered.
\<close>

section \<open>The library\<close>

text \<open>
  A loop \<open>'l\<close> and the watchers in it: what the adapter calls, and what the watchers' public fields say.
  \<open>refs\<close> is the number of watchers that keep the loop running.
\<close>

record 'l libev =
  ev_read :: u32
  ev_write :: u32
  io_init :: "nat \<Rightarrow> 'l \<Rightarrow> 'l"
  io_set :: "nat \<Rightarrow> int \<Rightarrow> u32 \<Rightarrow> 'l \<Rightarrow> 'l"
  io_start :: "nat \<Rightarrow> 'l \<Rightarrow> 'l"
  io_stop :: "nat \<Rightarrow> 'l \<Rightarrow> 'l"
  io_active :: "'l \<Rightarrow> nat \<Rightarrow> bool"
  io_fd :: "'l \<Rightarrow> nat \<Rightarrow> int"
  io_events :: "'l \<Rightarrow> nat \<Rightarrow> u32"
  async_init :: "nat \<Rightarrow> 'l \<Rightarrow> 'l"
  async_start :: "nat \<Rightarrow> 'l \<Rightarrow> 'l"
  async_stop :: "nat \<Rightarrow> 'l \<Rightarrow> 'l"
  async_send :: "nat \<Rightarrow> 'l \<Rightarrow> 'l"
  async_active :: "'l \<Rightarrow> nat \<Rightarrow> bool"
  timer_start :: "'l \<Rightarrow> 'l"
  timer_stop :: "'l \<Rightarrow> 'l"
  timer_active :: "'l \<Rightarrow> bool"
  unref :: "'l \<Rightarrow> 'l"
  refs :: "'l \<Rightarrow> int"

text \<open>The events of a mode a connection asks for.\<close>

definition wanted :: "'l libev \<Rightarrow> socket_state \<Rightarrow> u32" where
  "wanted ev m =
     (if m = W_read \<or> m = W_read_write then ev_read ev else 0)
     OR (if m = W_write \<or> m = W_read_write then ev_write ev else 0)"

section \<open>The adapter\<close>

text \<open>
  What a connection has been told: the watchers its callbacks are bound to, whether its
  destructor unregisters it, and its socket.
\<close>

record hooks =
  on_watch :: "nat option"
  on_notify :: "nat option"
  on_destroy :: bool
  socket_fd :: int

record 'l adapter =
  ev_loop :: 'l
  watchers :: "(nat \<times> nat) list"
  pair_data :: "nat \<Rightarrow> nat option"
  fresh :: nat
  hooks_of :: "nat \<Rightarrow> hooks"

text \<open>
  The process: the data of the adapter, as long as there are any, and the callbacks that are
  static members of the class of connections.
\<close>

record 'l process =
  ev_data :: "'l adapter option"
  construct_global :: bool
  destruct_global :: bool

definition set_hooks :: "nat \<Rightarrow> (hooks \<Rightarrow> hooks) \<Rightarrow> 'l adapter \<Rightarrow> 'l adapter" where
  "set_hooks cn f a = a\<lparr>hooks_of := (hooks_of a)(cn := f (hooks_of a cn))\<rparr>"

definition on_loop :: "('l \<Rightarrow> 'l) \<Rightarrow> 'l adapter \<Rightarrow> 'l adapter" where
  "on_loop f a = a\<lparr>ev_loop := f (ev_loop a)\<rparr>"

text \<open>
  The callback of \<^verbatim>\<open>on_socket_watcher_request\<close>, bound to the pair \<open>b\<close>: a pair given back is memory it
  must not read.
\<close>

definition socket_watcher_request :: "'l libev \<Rightarrow> nat \<Rightarrow> socket_state \<Rightarrow> ('l adapter, unit) op" where
  "socket_watcher_request ev b m a =
     (case pair_data a b of
        None \<Rightarrow> (Inl Overrun, a)
      | Some cn \<Rightarrow>
          let events = wanted ev m; was_active = io_active ev (ev_loop a) b in
          if \<not> was_active \<or> (io_events ev (ev_loop a) b AND (ev_read ev OR ev_write ev)) \<noteq> events
          then
            let l1 = (if was_active then io_stop ev b (ev_loop a) else ev_loop a);
                l2 = io_set ev b (socket_fd (hooks_of a cn)) events l1;
                l3 = (if events \<noteq> 0 then io_start ev b l2 else l2) in
            (Inr (), a\<lparr>ev_loop := l3\<rparr>)
          else (Inr (), a))"

text \<open>The callback of \<^verbatim>\<open>on_notify_request\<close>: \<^verbatim>\<open>ev_async_send\<close> on the watcher it is bound to.\<close>

definition notify_request :: "'l libev \<Rightarrow> nat \<Rightarrow> ('l adapter, unit) op" where
  "notify_request ev b a =
     (case pair_data a b of
        None \<Rightarrow> (Inl Overrun, a)
      | Some cn \<Rightarrow> (Inr (), on_loop (async_send ev b) a))"

definition register_connection :: "'l libev \<Rightarrow> nat \<Rightarrow> 'l adapter \<Rightarrow> 'l adapter" where
  "register_connection ev cn a =
     (if map_of (watchers a) cn \<noteq> None then a
      else
        let b = fresh a in
        set_hooks cn (\<lambda>h. h\<lparr>on_notify := Some b, on_watch := Some b\<rparr>)
          (on_loop (io_init ev b)
            (on_loop (async_start ev b)
              (on_loop (async_init ev b)
                (a\<lparr>watchers := (cn, b) # watchers a, pair_data := (pair_data a)(b := Some cn), fresh := b + 1\<rparr>)))))"

definition unregister_connection :: "'l libev \<Rightarrow> nat \<Rightarrow> 'l adapter \<Rightarrow> 'l adapter" where
  "unregister_connection ev cn a =
     (case map_of (watchers a) cn of
        None \<Rightarrow> a
      | Some b \<Rightarrow>
          let a1 = set_hooks cn (\<lambda>h. h\<lparr>on_watch := None\<rparr>)
                     (a\<lparr>watchers := filter (\<lambda>(c, _). c \<noteq> cn) (watchers a)\<rparr>);
              a2 = (if async_active ev (ev_loop a1) b then on_loop (async_stop ev b) a1 else a1);
              a3 = (if io_active ev (ev_loop a2) b then on_loop (io_stop ev b) a2 else a2) in
          a3\<lparr>pair_data := (pair_data a3)(b := None)\<rparr>)"

text \<open>
  The constructor for a loop; without one there is no data, and the calls below are calls through
  a null pointer, like calls through a callback that outlives the adapter.
\<close>

definition ev4cpp2tnt :: "'l libev \<Rightarrow> 'l option \<Rightarrow> (nat \<Rightarrow> hooks) \<Rightarrow> 'l adapter option" where
  "ev4cpp2tnt ev l hs =
     map_option (\<lambda>l. \<lparr>ev_loop = unref ev (timer_start ev l), watchers = [], pair_data = Map.empty, fresh = 0,
       hooks_of = hs\<rparr>) l"

definition with_data :: "('l adapter \<Rightarrow> 'l adapter) \<Rightarrow> ('l process, unit) op" where
  "with_data f p =
     (case ev_data p of None \<Rightarrow> (Inl Overrun, p) | Some a \<Rightarrow> (Inr (), p\<lparr>ev_data := Some (f a)\<rparr>))"

definition take_care :: "'l libev \<Rightarrow> nat \<Rightarrow> ('l process, unit) op" where
  "take_care ev cn =
     with_data (\<lambda>a. set_hooks cn (\<lambda>h. h\<lparr>on_destroy := True\<rparr>) (register_connection ev cn a))"

definition enable_globally :: "('l process, unit) op" where
  "enable_globally p = (Inr (), p\<lparr>construct_global := True, destruct_global := True\<rparr>)"

definition disable_globally :: "('l process, unit) op" where
  "disable_globally p = (Inr (), p\<lparr>construct_global := False, destruct_global := False\<rparr>)"

text \<open>What the constructor and the destructor of a connection call.\<close>

definition conn_constructed :: "'l libev \<Rightarrow> nat \<Rightarrow> ('l process, unit) op" where
  "conn_constructed ev cn p = (if construct_global p then with_data (register_connection ev cn) p else (Inr (), p))"

definition conn_destructed :: "'l libev \<Rightarrow> nat \<Rightarrow> bool \<Rightarrow> ('l process, unit) op" where
  "conn_destructed ev cn bound p =
     (if bound \<or> destruct_global p then with_data (unregister_connection ev cn) p else (Inr (), p))"

text \<open>The loop of the destructor, with the number of pairs for fuel.\<close>

fun unregister_all :: "'l libev \<Rightarrow> nat \<Rightarrow> 'l adapter \<Rightarrow> 'l adapter" where
  "unregister_all ev 0 a = a"
| "unregister_all ev (Suc k) a =
     (case watchers a of
        [] \<Rightarrow> a
      | (cn, b) # ws \<Rightarrow>
          unregister_all ev k (unregister_connection ev cn (set_hooks cn (\<lambda>h. h\<lparr>on_destroy := False\<rparr>) a)))"

definition destroy_adapter :: "'l libev \<Rightarrow> 'l adapter option \<Rightarrow> 'l adapter option" where
  "destroy_adapter ev d =
     map_option (\<lambda>a. on_loop (timer_stop ev) (unregister_all ev (length (watchers a)) a)) d"

section \<open>Events\<close>

text \<open>What the loop calls: \<open>timer_cb\<close> runs over the connections it finds in the table.\<close>

definition timer_cb :: "'h env \<Rightarrow> (nat \<times> nat) list \<Rightarrow> (nat \<Rightarrow> 'h connection, unit) op" where
  "timer_cb env = for_each (\<lambda>(cn, _) s. case tick_1sec env (s cn) of (r, t) \<Rightarrow> (r, s(cn := t)))"

definition socket_event_cb :: "'l libev \<Rightarrow> 'h env \<Rightarrow> u32 \<Rightarrow> ('h connection, unit) op" where
  "socket_event_cb ev env revents =
     andthen (if revents AND ev_write ev \<noteq> 0 then connection_write env else ret ())
       (if revents AND ev_read ev \<noteq> 0 then connection_read env else ret ())"

definition connection_notifier_cb :: "'h env \<Rightarrow> ('h connection, unit) op" where
  "connection_notifier_cb env = acquire_notifications env"

end
