(* ===== verification/Ev_Laws.thy ===== *)
theory Ev_Laws
  imports Ev_Adapter
begin

text \<open>
  What the adapter relies on of libev, a loop that behaves so, and the adapter's invariant: it owns
  a pair of watchers for every registered connection and no other, and a watcher that is active
  watches the connection's present socket.
\<close>

section \<open>The library's documented behaviour\<close>

text \<open>
  \<^verbatim>\<open>ev_io_set\<close> is for inactive watchers only. Watchers that are active keep the loop running, unless
  it was told otherwise with \<^verbatim>\<open>ev_unref\<close>; starting or stopping twice does nothing.
\<close>

locale libev_lib =
  fixes ev :: "'l libev"
  assumes masks: "ev_read ev \<noteq> 0" "ev_write ev \<noteq> 0" "ev_read ev AND ev_write ev = 0"
    and io_init: "\<not> io_active ev (io_init ev b l) b" "c \<noteq> b \<Longrightarrow> io_active ev (io_init ev b l) c = io_active ev l c"
      "c \<noteq> b \<Longrightarrow> io_fd ev (io_init ev b l) c = io_fd ev l c"
      "c \<noteq> b \<Longrightarrow> io_events ev (io_init ev b l) c = io_events ev l c"
      "async_active ev (io_init ev b l) = async_active ev l"
    and io_set: "\<not> io_active ev l b \<Longrightarrow> io_active ev (io_set ev b f e l) = io_active ev l"
      "\<not> io_active ev l b \<Longrightarrow> io_fd ev (io_set ev b f e l) = (io_fd ev l)(b := f)"
      "\<not> io_active ev l b \<Longrightarrow> io_events ev (io_set ev b f e l) b AND (ev_read ev OR ev_write ev) = e AND (ev_read ev OR ev_write ev)"
      "c \<noteq> b \<Longrightarrow> io_events ev (io_set ev b f e l) c = io_events ev l c"
      "async_active ev (io_set ev b f e l) = async_active ev l"
    and io_start: "io_active ev (io_start ev b l) = (io_active ev l)(b := True)"
      "io_fd ev (io_start ev b l) = io_fd ev l"
      "io_events ev (io_start ev b l) c AND (ev_read ev OR ev_write ev) = io_events ev l c AND (ev_read ev OR ev_write ev)"
      "async_active ev (io_start ev b l) = async_active ev l"
    and io_stop: "io_active ev (io_stop ev b l) = (io_active ev l)(b := False)"
      "io_fd ev (io_stop ev b l) = io_fd ev l" "io_events ev (io_stop ev b l) = io_events ev l"
      "async_active ev (io_stop ev b l) = async_active ev l"
    and async: "io_active ev (async_init ev b l) = io_active ev l" "io_fd ev (async_init ev b l) = io_fd ev l"
      "io_events ev (async_init ev b l) = io_events ev l"
      "async_active ev (async_init ev b l) = (async_active ev l)(b := False)"
      "io_active ev (async_start ev b l) = io_active ev l" "io_fd ev (async_start ev b l) = io_fd ev l"
      "io_events ev (async_start ev b l) = io_events ev l"
      "async_active ev (async_start ev b l) = (async_active ev l)(b := True)"
      "io_active ev (async_stop ev b l) = io_active ev l" "io_fd ev (async_stop ev b l) = io_fd ev l"
      "io_events ev (async_stop ev b l) = io_events ev l"
      "async_active ev (async_stop ev b l) = (async_active ev l)(b := False)"
      "io_active ev (async_send ev b l) = io_active ev l" "io_fd ev (async_send ev b l) = io_fd ev l"
      "io_events ev (async_send ev b l) = io_events ev l" "async_active ev (async_send ev b l) = async_active ev l"
    and timer: "io_active ev (timer_start ev l) = io_active ev l" "io_active ev (timer_stop ev l) = io_active ev l"
      "async_active ev (timer_start ev l) = async_active ev l" "async_active ev (timer_stop ev l) = async_active ev l"
      "timer_active ev (timer_start ev l)" "\<not> timer_active ev (timer_stop ev l)"
      "io_active ev (unref ev l) = io_active ev l" "async_active ev (unref ev l) = async_active ev l"
      "timer_active ev (unref ev l) = timer_active ev l"
    and refs: "\<not> timer_active ev l \<Longrightarrow> refs ev (timer_start ev l) = refs ev l + 1"
      "timer_active ev l \<Longrightarrow> refs ev (timer_stop ev l) = refs ev l - 1" "refs ev (unref ev l) = refs ev l - 1"
begin

lemma wanted_none: "wanted ev m = 0 \<longleftrightarrow> m = W_none"
  using masks by (cases m) (simp_all add: wanted_def or_eq_0_iff)

lemma wanted_masked: "wanted ev m AND (ev_read ev OR ev_write ev) = wanted ev m"
  by (cases m) (simp_all add: wanted_def bit.conj_disj_distrib)

end

section \<open>The invariant\<close>

text \<open>
  The table, the memory and the callbacks agree; the notifying watcher of every pair is active; an
  active socket watcher belongs to a registered connection and watches its socket for something.
\<close>

definition ev_ok :: "'l libev \<Rightarrow> 'l adapter \<Rightarrow> bool" where
  "ev_ok ev a \<longleftrightarrow>
     (\<forall>cn b. pair_data a b = Some cn \<longleftrightarrow> (cn, b) \<in> set (watchers a))
     \<and> (\<forall>cn b. on_watch (hooks_of a cn) = Some b \<longleftrightarrow> (cn, b) \<in> set (watchers a))
     \<and> (\<forall>b. async_active ev (ev_loop a) b \<longleftrightarrow> b \<in> snd ` set (watchers a))
     \<and> (\<forall>b. io_active ev (ev_loop a) b \<longrightarrow>
          (\<exists>cn. (cn, b) \<in> set (watchers a) \<and> io_fd ev (ev_loop a) b = socket_fd (hooks_of a cn)))
     \<and> (\<forall>b. io_active ev (ev_loop a) b \<longrightarrow> io_events ev (ev_loop a) b AND (ev_read ev OR ev_write ev) \<noteq> 0)
     \<and> (\<forall>cn b. (cn, b) \<in> set (watchers a) \<longrightarrow> b < fresh a)"

lemma map_of_pairs:
  "ev_ok ev a \<Longrightarrow> map_of (watchers a) cn = Some b \<longleftrightarrow> (cn, b) \<in> set (watchers a)"
proof
  assume ok: "ev_ok ev a" and "(cn, b) \<in> set (watchers a)"
  moreover from this(2) obtain c where "map_of (watchers a) cn = Some c"
    by (cases "map_of (watchers a) cn") (force simp: map_of_eq_None_iff)+
  moreover from this have "(cn, c) \<in> set (watchers a)" by (rule map_of_SomeD)
  ultimately show "map_of (watchers a) cn = Some b"
    unfolding ev_ok_def by (metis option.inject)
qed (rule map_of_SomeD)

lemma in_snd: "b \<in> snd ` X \<longleftrightarrow> (\<exists>c. (c, b) \<in> X)"
  by force

lemma unregistered: "map_of ws cn = None \<Longrightarrow> (cn, b) \<notin> set ws"
  by (force simp: map_of_eq_None_iff)

context libev_lib
begin

lemma register_ok:
  assumes ok: "ev_ok ev a"
  shows "ev_ok ev (register_connection ev cn a)"
proof (cases "map_of (watchers a) cn")
  case (Some b)
  with ok show ?thesis by (simp add: register_connection_def)
next
  case None
  let ?b = "fresh a" and ?r = "register_connection ev cn a"
  have new: "(c, ?b) \<notin> set (watchers a)" for c
    using ok by (auto simp: ev_ok_def)
  have no: "(cn, b) \<notin> set (watchers a)" for b by (rule unregistered [OF None])
  have f: "watchers ?r = (cn, ?b) # watchers a" "fresh ?r = Suc ?b" "pair_data ?r = (pair_data a)(?b := Some cn)"
    "hooks_of ?r = (hooks_of a)(cn := (hooks_of a cn)\<lparr>on_notify := Some ?b, on_watch := Some ?b\<rparr>)"
    using None by (simp_all add: register_connection_def set_hooks_def on_loop_def Let_def)
  have loop: "ev_loop ?r = io_init ev ?b (async_start ev ?b (async_init ev ?b (ev_loop a)))"
    using None by (simp add: register_connection_def set_hooks_def on_loop_def Let_def)
  have act: "io_active ev (ev_loop ?r) c \<longleftrightarrow> c \<noteq> ?b \<and> io_active ev (ev_loop a) c" for c
    unfolding loop using io_init(1,2) async by (cases "c = ?b") simp_all
  have fd: "c \<noteq> ?b \<Longrightarrow> io_fd ev (ev_loop ?r) c = io_fd ev (ev_loop a) c" for c
    unfolding loop by (simp add: io_init async)
  have evs: "c \<noteq> ?b \<Longrightarrow> io_events ev (ev_loop ?r) c = io_events ev (ev_loop a) c" for c
    unfolding loop by (simp add: io_init async)
  have asy: "async_active ev (ev_loop ?r) = (async_active ev (ev_loop a))(?b := True)"
    unfolding loop by (simp add: io_init async)
  show ?thesis
    unfolding ev_ok_def
  proof (intro conjI allI)
    fix c b
    show "(pair_data ?r b = Some c) = ((c, b) \<in> set (watchers ?r))"
      using ok new by (auto simp: f ev_ok_def)
    show "(on_watch (hooks_of ?r c) = Some b) = ((c, b) \<in> set (watchers ?r))"
      using ok no by (auto simp: f ev_ok_def)
    show "(c, b) \<in> set (watchers ?r) \<longrightarrow> b < fresh ?r"
      using ok by (auto simp: f ev_ok_def intro: less_SucI)
  next
    fix b
    show "io_active ev (ev_loop ?r) b \<longrightarrow> io_events ev (ev_loop ?r) b AND (ev_read ev OR ev_write ev) \<noteq> 0"
      using ok evs [of b] by (simp add: act ev_ok_def)
    show "async_active ev (ev_loop ?r) b = (b \<in> snd ` set (watchers ?r))"
      using ok by (auto simp: f asy ev_ok_def)
    show "io_active ev (ev_loop ?r) b \<longrightarrow>
        (\<exists>c. (c, b) \<in> set (watchers ?r) \<and> io_fd ev (ev_loop ?r) b = socket_fd (hooks_of ?r c))"
    proof
      assume "io_active ev (ev_loop ?r) b"
      then have b: "b \<noteq> ?b" "io_active ev (ev_loop a) b" by (simp_all add: act)
      then obtain c where "(c, b) \<in> set (watchers a)" "io_fd ev (ev_loop a) b = socket_fd (hooks_of a c)"
        using ok by (auto simp: ev_ok_def)
      then show "\<exists>c. (c, b) \<in> set (watchers ?r) \<and> io_fd ev (ev_loop ?r) b = socket_fd (hooks_of ?r c)"
        using fd [OF b(1)] by (intro exI [of _ c]) (simp add: f)
    qed
  qed
qed

lemma unregister_ok:
  assumes ok: "ev_ok ev a"
  shows "ev_ok ev (unregister_connection ev cn a)"
proof (cases "map_of (watchers a) cn")
  case None
  with ok show ?thesis by (simp add: unregister_connection_def)
next
  case (Some b)
  then have in_: "(cn, b) \<in> set (watchers a)" by (rule map_of_SomeD)
  have only: "c = cn \<longleftrightarrow> d = b" if "(c, d) \<in> set (watchers a)" for c d
    using ok in_ that unfolding ev_ok_def by (metis option.inject)
  let ?u = "unregister_connection ev cn a"
  have f: "watchers ?u = filter (\<lambda>(c, _). c \<noteq> cn) (watchers a)"
    "hooks_of ?u = (hooks_of a)(cn := (hooks_of a cn)\<lparr>on_watch := None\<rparr>)"
    "pair_data ?u = (pair_data a)(b := None)" "fresh ?u = fresh a"
    using Some by (auto simp: unregister_connection_def set_hooks_def on_loop_def Let_def)
  have left: "(c, d) \<in> set (watchers ?u) \<longleftrightarrow> (c, d) \<in> set (watchers a) \<and> d \<noteq> b" for c d
    using only [of c d] by (auto simp: f(1))
  have l: "io_active ev (ev_loop ?u) = (io_active ev (ev_loop a))(b := False)"
    "async_active ev (ev_loop ?u) = (async_active ev (ev_loop a))(b := False)"
    "io_fd ev (ev_loop ?u) = io_fd ev (ev_loop a)" "io_events ev (ev_loop ?u) = io_events ev (ev_loop a)"
    using Some by (auto simp: unregister_connection_def set_hooks_def on_loop_def Let_def io_stop async fun_eq_iff)
  show ?thesis
    unfolding ev_ok_def
  proof (intro conjI allI)
    fix c d
    show "(pair_data ?u d = Some c) = ((c, d) \<in> set (watchers ?u))"
      using ok only by (auto simp: f ev_ok_def)
    show "(on_watch (hooks_of ?u c) = Some d) = ((c, d) \<in> set (watchers ?u))"
      using ok by (auto simp: f ev_ok_def)
    show "(c, d) \<in> set (watchers ?u) \<longrightarrow> d < fresh ?u"
      using ok by (auto simp: f ev_ok_def)
  next
    fix d
    show "io_active ev (ev_loop ?u) d \<longrightarrow> io_events ev (ev_loop ?u) d AND (ev_read ev OR ev_write ev) \<noteq> 0"
      using ok by (simp add: l ev_ok_def)
    have "async_active ev (ev_loop a) d \<longleftrightarrow> (\<exists>c. (c, d) \<in> set (watchers a))"
      using ok by (simp add: ev_ok_def in_snd)
    then show "async_active ev (ev_loop ?u) d = (d \<in> snd ` set (watchers ?u))"
      by (simp add: l in_snd left)
    show "io_active ev (ev_loop ?u) d \<longrightarrow>
        (\<exists>c. (c, d) \<in> set (watchers ?u) \<and> io_fd ev (ev_loop ?u) d = socket_fd (hooks_of ?u c))"
    proof
      assume "io_active ev (ev_loop ?u) d"
      then have d: "d \<noteq> b" "io_active ev (ev_loop a) d" by (auto simp: l split: if_splits)
      then obtain c where "(c, d) \<in> set (watchers a)" "io_fd ev (ev_loop a) d = socket_fd (hooks_of a c)"
        using ok by (auto simp: ev_ok_def)
      with d(1) show "\<exists>c. (c, d) \<in> set (watchers ?u) \<and> io_fd ev (ev_loop ?u) d = socket_fd (hooks_of ?u c)"
        by (intro exI [of _ c]) (simp add: left l f(2))
    qed
  qed
qed

lemma request_ok:
  assumes ok: "ev_ok ev a" and w: "on_watch (hooks_of a cn) = Some b"
  obtains a' where "socket_watcher_request ev b m a = (Inr (), a')" and "ev_ok ev a'"
    and "hooks_of a' = hooks_of a"
    and "io_active ev (ev_loop a') b \<longleftrightarrow> m \<noteq> W_none"
    and "m \<noteq> W_none \<longrightarrow> io_fd ev (ev_loop a') b = socket_fd (hooks_of a cn)
           \<and> io_events ev (ev_loop a') b AND (ev_read ev OR ev_write ev) = wanted ev m"
proof -
  let ?l = "ev_loop a" and ?mask = "ev_read ev OR ev_write ev"
  have in_: "(cn, b) \<in> set (watchers a)" and d: "pair_data a b = Some cn"
    using ok w by (simp_all add: ev_ok_def)
  have only: "c = cn" if "(c, b) \<in> set (watchers a)" for c
    using ok in_ that unfolding ev_ok_def by (metis option.inject)
  show thesis
  proof (cases "io_active ev ?l b \<and> io_events ev ?l b AND ?mask = wanted ev m")
    case True
    then have "wanted ev m \<noteq> 0" using ok by (auto simp: ev_ok_def)
    then have "m \<noteq> W_none" by (simp add: wanted_none)
    moreover have "io_fd ev ?l b = socket_fd (hooks_of a cn)"
      using True ok only by (auto simp: ev_ok_def)
    ultimately show thesis
      using True d ok by (intro that [of a]) (simp_all add: socket_watcher_request_def Let_def)
  next
    case False
    let ?l1 = "if io_active ev ?l b then io_stop ev b ?l else ?l"
    let ?l2 = "io_set ev b (socket_fd (hooks_of a cn)) (wanted ev m) ?l1"
    obtain l3 where l3: "l3 = (if wanted ev m \<noteq> 0 then io_start ev b ?l2 else ?l2)" by simp
    have 1: "\<not> io_active ev ?l1 b" "async_active ev ?l1 = async_active ev ?l"
      "c \<noteq> b \<Longrightarrow> io_active ev ?l1 c = io_active ev ?l c" "io_fd ev ?l1 = io_fd ev ?l" "io_events ev ?l1 = io_events ev ?l" for c
      by (simp_all add: io_stop)
    have 3: "io_active ev l3 b \<longleftrightarrow> m \<noteq> W_none" "io_fd ev l3 b = socket_fd (hooks_of a cn)"
      "io_events ev l3 b AND ?mask = wanted ev m" "async_active ev l3 = async_active ev ?l"
      using 1(1,2) by (simp_all add: l3 io_start io_set wanted_none wanted_masked)
    have other: "io_active ev l3 c = io_active ev ?l c" "io_fd ev l3 c = io_fd ev ?l c"
      "io_events ev l3 c AND ?mask = io_events ev ?l c AND ?mask" if "c \<noteq> b" for c
      using 1 that by (simp_all add: l3 io_start io_set)
    have "ev_ok ev (a\<lparr>ev_loop := l3\<rparr>)"
      unfolding ev_ok_def
    proof (intro conjI allI)
      fix c
      show "io_active ev (ev_loop (a\<lparr>ev_loop := l3\<rparr>)) c \<longrightarrow>
          (\<exists>cn. (cn, c) \<in> set (watchers (a\<lparr>ev_loop := l3\<rparr>))
            \<and> io_fd ev (ev_loop (a\<lparr>ev_loop := l3\<rparr>)) c = socket_fd (hooks_of (a\<lparr>ev_loop := l3\<rparr>) cn))"
        using ok in_ 3(2) other [of c] by (cases "c = b") (auto simp: ev_ok_def)
      show "io_active ev (ev_loop (a\<lparr>ev_loop := l3\<rparr>)) c \<longrightarrow>
          io_events ev (ev_loop (a\<lparr>ev_loop := l3\<rparr>)) c AND ?mask \<noteq> 0"
        using ok 3(1,3) other [of c] wanted_none [of m] by (cases "c = b") (simp_all add: ev_ok_def)
    qed (use ok 3(4) in \<open>simp_all add: ev_ok_def\<close>)
    moreover have "socket_watcher_request ev b m a = (Inr (), a\<lparr>ev_loop := l3\<rparr>)"
      using False d by (simp add: socket_watcher_request_def Let_def l3)
    ultimately show thesis using 3 by (intro that [of "a\<lparr>ev_loop := l3\<rparr>"]) simp_all
  qed
qed

lemma notify_same:
  assumes "notify_request ev b a = (Inr (), a')" and ok: "ev_ok ev a"
  shows "ev_ok ev a'"
proof -
  have "ev_ok ev (on_loop (async_send ev b) a)"
    using ok by (simp add: on_loop_def ev_ok_def async)
  with assms(1) show ?thesis by (simp add: notify_request_def split: option.splits)
qed

text \<open>Changing what connections are told, but not what they are bound to or what is watched.\<close>

lemma hooks_ok:
  assumes ok: "ev_ok ev a" and w: "\<And>c. on_watch (h c) = on_watch (hooks_of a c)"
    and i: "\<And>c b. io_active ev (ev_loop a) b \<Longrightarrow> (c, b) \<in> set (watchers a) \<Longrightarrow> socket_fd (h c) = socket_fd (hooks_of a c)"
  shows "ev_ok ev (a\<lparr>hooks_of := h\<rparr>)"
  unfolding ev_ok_def
proof (intro conjI allI impI)
  fix b
  assume "io_active ev (ev_loop (a\<lparr>hooks_of := h\<rparr>)) b"
  then have b: "io_active ev (ev_loop a) b" by simp
  then obtain c where "(c, b) \<in> set (watchers a)" "io_fd ev (ev_loop a) b = socket_fd (hooks_of a c)"
    using ok by (auto simp: ev_ok_def)
  with i [OF b] show "\<exists>cn. (cn, b) \<in> set (watchers (a\<lparr>hooks_of := h\<rparr>))
      \<and> io_fd ev (ev_loop (a\<lparr>hooks_of := h\<rparr>)) b = socket_fd (hooks_of (a\<lparr>hooks_of := h\<rparr>) cn)"
    by (intro exI [of _ c]) simp
qed (use ok w in \<open>simp_all add: ev_ok_def\<close>)

end

section \<open>Runs\<close>

text \<open>
  What may happen to an adapter: connections are registered and unregistered, their destructors
  are bound and unbound, they ask for readiness and notify. A connection changes its socket only
  while it is not watched: \<open>connection_close\<close> asks for \<open>W_none\<close> before it closes the socket.
\<close>

inductive adapter_run :: "'l libev \<Rightarrow> 'l \<Rightarrow> (nat \<Rightarrow> hooks) \<Rightarrow> 'l adapter \<Rightarrow> bool" for ev l hs where
  created: "ev4cpp2tnt ev (Some l) hs = Some a \<Longrightarrow> adapter_run ev l hs a"
| registers: "adapter_run ev l hs a \<Longrightarrow> adapter_run ev l hs (register_connection ev cn a)"
| unregisters: "adapter_run ev l hs a \<Longrightarrow> adapter_run ev l hs (unregister_connection ev cn a)"
| binds: "adapter_run ev l hs a \<Longrightarrow> adapter_run ev l hs (set_hooks cn (\<lambda>h. h\<lparr>on_destroy := d\<rparr>) a)"
| requests: "adapter_run ev l hs a \<Longrightarrow> on_watch (hooks_of a cn) = Some b \<Longrightarrow>
    socket_watcher_request ev b m a = (Inr (), a') \<Longrightarrow> adapter_run ev l hs a'"
| notifies: "adapter_run ev l hs a \<Longrightarrow> notify_request ev b a = (Inr (), a') \<Longrightarrow> adapter_run ev l hs a'"
| moves: "adapter_run ev l hs a \<Longrightarrow>
    \<forall>b. on_watch (hooks_of a cn) = Some b \<longrightarrow> \<not> io_active ev (ev_loop a) b \<Longrightarrow>
    adapter_run ev l hs (set_hooks cn (\<lambda>h. h\<lparr>socket_fd := f\<rparr>) a)"

text \<open>A loop without watchers at addresses that are not handed out yet, and connections not bound yet.\<close>

definition unused :: "'l libev \<Rightarrow> 'l \<Rightarrow> (nat \<Rightarrow> hooks) \<Rightarrow> bool" where
  "unused ev l hs \<longleftrightarrow> (\<forall>b. \<not> io_active ev l b \<and> \<not> async_active ev l b) \<and> (\<forall>cn. on_watch (hs cn) = None)"

context libev_lib
begin

lemma binds_ok: "ev_ok ev a \<Longrightarrow> ev_ok ev (set_hooks cn (\<lambda>h. h\<lparr>on_destroy := d\<rparr>) a)"
  unfolding set_hooks_def by (erule hooks_ok) simp_all

lemma moves_ok:
  assumes ok: "ev_ok ev a" and i: "\<forall>b. on_watch (hooks_of a cn) = Some b \<longrightarrow> \<not> io_active ev (ev_loop a) b"
  shows "ev_ok ev (set_hooks cn (\<lambda>h. h\<lparr>socket_fd := f\<rparr>) a)"
  unfolding set_hooks_def
proof (rule hooks_ok [OF ok])
  fix c b
  assume "io_active ev (ev_loop a) b" "(c, b) \<in> set (watchers a)"
  with ok i have "c \<noteq> cn" by (auto simp: ev_ok_def)
  then show "socket_fd (((hooks_of a)(cn := hooks_of a cn\<lparr>socket_fd := f\<rparr>)) c) = socket_fd (hooks_of a c)" by simp
qed simp

lemma run_ok:
  assumes "unused ev l hs" and "adapter_run ev l hs a"
  shows "ev_ok ev a"
  using assms(2)
proof induction
  case (created a)
  with assms(1) show ?case by (auto simp: ev4cpp2tnt_def ev_ok_def unused_def timer)
next
  case (requests a cn b m a')
  then show ?case using request_ok [of a cn b m] by (metis prod.inject)
qed (simp_all add: register_ok unregister_ok notify_same moves_ok binds_ok)

lemma unregister_all_ok:
  "ev_ok ev a \<Longrightarrow> length (watchers a) \<le> k \<Longrightarrow> ev_ok ev (unregister_all ev k a) \<and> watchers (unregister_all ev k a) = []
     \<and> (\<forall>cn. on_notify (hooks_of (unregister_all ev k a) cn) = on_notify (hooks_of a cn))"
proof (induction k arbitrary: a)
  case 0
  then show ?case by simp
next
  case (Suc k)
  show ?case
  proof (cases "watchers a")
    case Nil
    with Suc.prems show ?thesis by simp
  next
    case (Cons x ws)
    obtain cn b where x: "x = (cn, b)" by force
    let ?a = "set_hooks cn (\<lambda>h. h\<lparr>on_destroy := False\<rparr>) a"
    have ok: "ev_ok ev ?a" by (rule binds_ok [OF Suc.prems(1)])
    have w: "watchers (unregister_connection ev cn ?a) = filter (\<lambda>(c, _). c \<noteq> cn) ws"
      using Cons x by (simp add: unregister_connection_def set_hooks_def on_loop_def Let_def)
    have n: "on_notify (hooks_of (unregister_connection ev cn ?a) c) = on_notify (hooks_of a c)" for c
      by (simp add: unregister_connection_def set_hooks_def on_loop_def Let_def split: option.split)
    have "length (filter (\<lambda>(c, _). c \<noteq> cn) ws) \<le> k"
      by (rule order_trans [OF length_filter_le]) (use Suc.prems(2) Cons in simp)
    then show ?thesis
      using Suc.IH [OF unregister_ok [OF ok, of cn]] w n Cons x by simp
  qed
qed

end

text \<open>
  C21: Whatever has happened before, a connection's request for readiness is followed: the callback
  does not fail, and the watcher is active just when something was asked for, on the present socket
  of the connection and for just those events.
\<close>
theorem watch_request_followed:
  assumes lib: "libev_lib ev" and "unused ev l hs" and "adapter_run ev l hs a" and "on_watch (hooks_of a cn) = Some b"
  shows "\<exists>a'. socket_watcher_request ev b m a = (Inr (), a')
     \<and> io_active ev (ev_loop a') b = (m \<noteq> W_none)
     \<and> (if m = W_none then True else io_fd ev (ev_loop a') b = socket_fd (hooks_of a' cn)
          \<and> io_events ev (ev_loop a') b AND (ev_read ev OR ev_write ev) = wanted ev m)"
proof -
  have "ev_ok ev a" by (rule libev_lib.run_ok [OF assms(1-3)])
  from libev_lib.request_ok [OF lib this assms(4), of m] show ?thesis by fastforce
qed

text \<open>
  C22: An adapter that goes away leaves nothing behind in the loop: every watcher is stopped, its
  memory given back, and no connection is bound to a socket watcher any more.
\<close>
theorem adapter_released:
  assumes lib: "libev_lib ev" and "unused ev l hs" and "adapter_run ev l hs a"
  shows "\<exists>a'. destroy_adapter ev (Some a) = Some a' \<and> \<not> timer_active ev (ev_loop a')
     \<and> (\<forall>b. \<not> io_active ev (ev_loop a') b \<and> \<not> async_active ev (ev_loop a') b \<and> pair_data a' b = None)
     \<and> (\<forall>cn. on_watch (hooks_of a' cn) = None)"
proof -
  let ?u = "unregister_all ev (length (watchers a)) a"
  have "ev_ok ev a" by (rule libev_lib.run_ok [OF assms])
  then have u: "ev_ok ev ?u" "watchers ?u = []" using libev_lib.unregister_all_ok [OF lib] by blast+
  have "pair_data ?u b = None" "on_watch (hooks_of ?u cn) = None"
    "\<not> io_active ev (ev_loop ?u) b" "\<not> async_active ev (ev_loop ?u) b" for b cn
    using u by (cases "pair_data ?u b"; cases "on_watch (hooks_of ?u cn)"; simp add: ev_ok_def; fail)+
  then show ?thesis
    using libev_lib.timer [OF lib] by (simp add: destroy_adapter_def on_loop_def)
qed

text \<open>
  C37: The adapter unbinds the callback for the socket watcher, but not the one that notifies: a
  connection that outlives the adapter sends to a watcher whose memory was given back.
\<close>
theorem notifier_outlives_adapter:
  assumes lib: "libev_lib ev" and "unused ev l hs" and "adapter_run ev l hs a" and "on_notify (hooks_of a cn) = Some b"
  shows "\<exists>a'. destroy_adapter ev (Some a) = Some a' \<and> on_notify (hooks_of a' cn) = Some b
     \<and> fst (notify_request ev b a') = Inl Overrun"
proof -
  let ?u = "unregister_all ev (length (watchers a)) a"
  have "ev_ok ev a" by (rule libev_lib.run_ok [OF assms(1-3)])
  then have u: "ev_ok ev ?u" "watchers ?u = []" "on_notify (hooks_of ?u cn) = Some b"
    using libev_lib.unregister_all_ok [OF lib, of a "length (watchers a)"] assms(4) by auto
  then have "pair_data ?u b = None" by (cases "pair_data ?u b") (simp_all add: ev_ok_def)
  with u(3) show ?thesis by (simp add: destroy_adapter_def on_loop_def notify_request_def)
qed

section \<open>A loop that behaves so\<close>

record ref_loop =
  r_io :: "nat \<Rightarrow> bool"
  r_fd :: "nat \<Rightarrow> int"
  r_events :: "nat \<Rightarrow> u32"
  r_async :: "nat \<Rightarrow> bool"
  r_timer :: bool
  r_refs :: int

definition recount :: "bool \<Rightarrow> bool \<Rightarrow> int \<Rightarrow> int" where
  "recount before after n = n + (if after then 1 else 0) - (if before then 1 else 0)"

definition ref_io :: "nat \<Rightarrow> bool \<Rightarrow> ref_loop \<Rightarrow> ref_loop" where
  "ref_io b x l = l\<lparr>r_io := (r_io l)(b := x), r_refs := recount (r_io l b) x (r_refs l)\<rparr>"

definition ref_async :: "nat \<Rightarrow> bool \<Rightarrow> ref_loop \<Rightarrow> ref_loop" where
  "ref_async b x l = l\<lparr>r_async := (r_async l)(b := x), r_refs := recount (r_async l b) x (r_refs l)\<rparr>"

definition ref_timer :: "bool \<Rightarrow> ref_loop \<Rightarrow> ref_loop" where
  "ref_timer x l = l\<lparr>r_timer := x, r_refs := recount (r_timer l) x (r_refs l)\<rparr>"

definition ref_ev :: "ref_loop libev" where
  "ref_ev = \<lparr>ev_read = 1, ev_write = 2,
     io_init = (\<lambda>b. ref_io b False),
     io_set = (\<lambda>b f e l. l\<lparr>r_fd := (r_fd l)(b := f), r_events := (r_events l)(b := e)\<rparr>),
     io_start = (\<lambda>b. ref_io b True), io_stop = (\<lambda>b. ref_io b False),
     io_active = r_io, io_fd = r_fd, io_events = r_events,
     async_init = (\<lambda>b. ref_async b False), async_start = (\<lambda>b. ref_async b True), async_stop = (\<lambda>b. ref_async b False),
     async_send = (\<lambda>b l. l), async_active = r_async,
     timer_start = ref_timer True, timer_stop = ref_timer False, timer_active = r_timer,
     unref = (\<lambda>l. l\<lparr>r_refs := r_refs l - 1\<rparr>), refs = r_refs\<rparr>"

interpretation ref_loop: libev_lib ref_ev
  by unfold_locales (simp_all add: ref_ev_def ref_io_def ref_async_def ref_timer_def recount_def)

definition demo_loop :: ref_loop where
  "demo_loop = \<lparr>r_io = (\<lambda>_. False), r_fd = (\<lambda>_. 0), r_events = (\<lambda>_. 0), r_async = (\<lambda>_. False), r_timer = False, r_refs = 0\<rparr>"

definition demo_hooks :: "nat \<Rightarrow> hooks" where
  "demo_hooks = (\<lambda>_. \<lparr>on_watch = None, on_notify = None, on_destroy = False, socket_fd = 3\<rparr>)"

definition demo_adapter :: "ref_loop adapter" where
  "demo_adapter = register_connection ref_ev 5 (the (ev4cpp2tnt ref_ev (Some demo_loop) demo_hooks))"

lemma demo_unused: "unused ref_ev demo_loop demo_hooks"
  by (simp add: unused_def ref_ev_def demo_loop_def demo_hooks_def)

lemma demo_run: "adapter_run ref_ev demo_loop demo_hooks demo_adapter"
  unfolding demo_adapter_def by (intro registers created) (simp add: ev4cpp2tnt_def)

lemma demo_bound: "on_watch (hooks_of demo_adapter 5) = Some 0" "on_notify (hooks_of demo_adapter 5) = Some 0"
  by (simp_all add: demo_adapter_def ev4cpp2tnt_def register_connection_def set_hooks_def on_loop_def Let_def)

theorem watch_request_followed_witness:
  "\<exists>a'. socket_watcher_request ref_ev 0 W_write demo_adapter = (Inr (), a')
     \<and> io_active ref_ev (ev_loop a') 0 = (W_write \<noteq> W_none)
     \<and> (if W_write = W_none then True else io_fd ref_ev (ev_loop a') 0 = socket_fd (hooks_of a' 5)
          \<and> io_events ref_ev (ev_loop a') 0 AND (ev_read ref_ev OR ev_write ref_ev) = wanted ref_ev W_write)"
  by (rule watch_request_followed [OF ref_loop.libev_lib_axioms demo_unused demo_run demo_bound(1)])

theorem adapter_released_witness:
  "\<exists>a'. destroy_adapter ref_ev (Some demo_adapter) = Some a' \<and> \<not> timer_active ref_ev (ev_loop a')
     \<and> (\<forall>b. \<not> io_active ref_ev (ev_loop a') b \<and> \<not> async_active ref_ev (ev_loop a') b \<and> pair_data a' b = None)
     \<and> (\<forall>cn. on_watch (hooks_of a' cn) = None)"
  by (rule adapter_released [OF ref_loop.libev_lib_axioms demo_unused demo_run])

theorem notifier_outlives_adapter_witness:
  "\<exists>a'. destroy_adapter ref_ev (Some demo_adapter) = Some a' \<and> on_notify (hooks_of a' 5) = Some 0
     \<and> fst (notify_request ref_ev 0 a') = Inl Overrun"
  by (rule notifier_outlives_adapter [OF ref_loop.libev_lib_axioms demo_unused demo_run demo_bound(2)])

text \<open>
  The constructor takes the timer out of the loop's count, the destructor does not put it back
  before it stops the timer: the count is one too low afterwards.
\<close>

lemma adapter_loses_reference:
  assumes "libev_lib ev" and "\<not> timer_active ev l" and "destroy_adapter ev (ev4cpp2tnt ev (Some l) hs) = Some a"
  shows "refs ev (ev_loop a) = refs ev l - 1"
  using assms(2,3) libev_lib.refs [OF assms(1)] libev_lib.timer [OF assms(1)]
  by (auto simp: destroy_adapter_def ev4cpp2tnt_def on_loop_def)

end
