(* ===== verification/Sha1_Laws.thy ===== *)
theory Sha1_Laws
  imports Sha1
begin

text \<open>
  The hash standard (FIPS 180-4, SHA-1) as a reference, and the proof that the code computes it:
  the schedule in a circular buffer, the choice and majority functions in the shape the code has
  them, the padding by single zero bytes, and the streaming over blocks.
\<close>

unbundle bit_operations_syntax

section \<open>The standard\<close>

definition fips_f :: "nat \<Rightarrow> u32 \<Rightarrow> u32 \<Rightarrow> u32 \<Rightarrow> u32" where
  "fips_f t x y z =
     (if t < 20 then (x AND y) XOR (NOT x AND z)
      else if 40 \<le> t \<and> t < 60 then (x AND y) XOR (x AND z) XOR (y AND z)
      else x XOR y XOR z)"

text \<open>A word of four bytes, the first of them the most significant.\<close>

definition be32 :: "bytes \<Rightarrow> u32" where
  "be32 bs = foldl (\<lambda>a b. push_bit 8 a OR ucast b) 0 bs"

fun schedule :: "bytes \<Rightarrow> nat \<Rightarrow> u32" where
  "schedule blck t =
     (if t < 16 then be32 (take 4 (drop (4 * t) blck))
      else word_rotl 1 (schedule blck (t - 3) XOR schedule blck (t - 8) XOR schedule blck (t - 14) XOR schedule blck (t - 16)))"

declare schedule.simps [simp del]

definition fips_round :: "bytes \<Rightarrow> nat \<Rightarrow> regs \<Rightarrow> regs" where
  "fips_round blck t = (\<lambda>(a, b, c, d, e).
     (word_rotl 5 a + fips_f t b c d + e + round_const t + schedule blck t, a, word_rotl 30 b, c, d))"

definition compress :: "regs \<Rightarrow> bytes \<Rightarrow> regs" where
  "compress h blck =
     (case (h, fold (fips_round blck) [0 ..< 80] h) of
        ((h0, h1, h2, h3, h4), (a, b, c, d, e)) \<Rightarrow> (a + h0, b + h1, c + h2, d + h3, e + h4))"

text \<open>The message with a one bit, as many zeros as needed, and its length in bits.\<close>

definition padding :: "nat \<Rightarrow> nat" where
  "padding n = (119 - n mod 64) mod 64"

definition pad :: "bytes \<Rightarrow> bytes" where
  "pad m = m @ 0x80 # replicate (padding (length m)) 0 @ to_be 8 (8 * length m)"

fun blocks :: "bytes \<Rightarrow> bytes list" where
  "blocks bs = (if bs = [] then [] else take 64 bs # blocks (drop 64 bs))"

declare blocks.simps [simp del]

definition initial_hash :: regs where
  "initial_hash = (0x67452301, 0xEFCDAB89, 0x98BADCFE, 0x10325476, 0xC3D2E1F0)"

definition fips_sha1 :: "bytes \<Rightarrow> bytes" where
  "fips_sha1 m =
     (case foldl compress initial_hash (blocks (pad m)) of
        (a, b, c, d, e) \<Rightarrow> concat (map (\<lambda>w. to_be 4 (unat w)) [a, b, c, d, e]))"

section \<open>One block\<close>

lemma rol_rotl:
  assumes "0 < n" and "n < 32"
  shows "rol v n = word_rotl n v"
proof (rule bit_word_eqI)
  fix k
  assume "k < LENGTH(32)"
  then have k: "k < 32" by simp
  show "bit (rol v n) k = bit (word_rotl n v) k"
  proof (cases "n \<le> k")
    case True
    then have "(k + (32 - n)) mod 32 = k - n" using assms k by (simp add: mod_if)
    moreover have "\<not> bit v (32 - n + k)" using True assms(2) bit_imp_le_length [of v "32 - n + k"] by auto
    ultimately show ?thesis using assms k True by (simp add: rol_def bit_simps bit_word_rotl_iff)
  next
    case False
    then have "(k + (32 - n)) mod 32 = 32 - n + k" using assms k by simp
    then show ?thesis using assms k False by (simp add: rol_def bit_simps bit_word_rotl_iff)
  qed
qed

lemma choice: "((x AND (y XOR z)) XOR z) = (x AND y) XOR (NOT x AND (z :: u32))"
  by (rule bit_word_eqI) (auto simp: bit_simps)

lemma majority: "((x OR y) AND z) OR (x AND y) = (x AND y) XOR (x AND z) XOR (y AND (z :: u32))"
  by (rule bit_word_eqI) (auto simp: bit_simps)

lemma round_fun_fips: "round_fun t x y z = fips_f t x y z"
  by (simp add: round_fun_def fips_f_def choice majority)

lemma masks32:
  "(0xFF00FF00 :: u32) = push_bit 8 (mask 8) OR push_bit 24 (mask 8)"
  "(0x00FF00FF :: u32) = mask 8 OR push_bit 16 (mask 8)"
  by (simp_all add: mask_eq_exp_minus_1 push_bit_eq_mult)

lemma swapped:
  "(rol (le32 [b0, b1, b2, b3]) 24 AND 0xFF00FF00) OR (rol (le32 [b0, b1, b2, b3]) 8 AND 0x00FF00FF) = be32 [b0, b1, b2, b3]"
proof (rule bit_word_eqI)
  fix k
  assume "k < LENGTH(32)"
  then have "k < 32" by simp
  then consider j where "k = j" "j < 8" | j where "k = j + 8" "j < 8" | j where "k = j + 16" "j < 8" | j where "k = j + 24" "j < 8"
    by atomize_elim presburger
  then show "bit ((rol (le32 [b0, b1, b2, b3]) 24 AND 0xFF00FF00) OR (rol (le32 [b0, b1, b2, b3]) 8 AND 0x00FF00FF)) k
      = bit (be32 [b0, b1, b2, b3]) k"
    unfolding masks32 rol_def le32_def be32_def
    by cases (simp_all add: bit_simps, auto simp: bit_simps dest: bit_imp_le_length)
qed

text \<open>
  The circular buffer before round \<open>t\<close>: the last sixteen words of the schedule, and the words of the
  block that have not been used yet.
\<close>

definition sched :: "bytes \<Rightarrow> nat \<Rightarrow> u32 list \<Rightarrow> bool" where
  "sched blck t l \<longleftrightarrow> length l = 16
     \<and> (\<forall>j. j < t \<and> t \<le> j + 16 \<longrightarrow> l ! (j mod 16) = schedule blck j)
     \<and> (\<forall>i. t \<le> i \<and> i < 16 \<longrightarrow> l ! i = load_block blck ! i)"

lemma other_slot:
  fixes j t :: nat
  assumes "j < t" and "t < j + 16"
  shows "t mod 16 \<noteq> j mod 16"
proof
  assume "t mod 16 = j mod 16"
  then have "16 dvd t - j" using assms(1) by (simp add: mod_eq_dvd_iff_nat)
  then have "16 \<le> t - j" using assms(1) by (intro dvd_imp_le) simp_all
  with assms show False by arith
qed

lemma slots:
  assumes "16 \<le> (t :: nat)"
  shows "(t + 13) mod 16 = (t - 3) mod 16" "(t + 8) mod 16 = (t - 8) mod 16"
    "(t + 2) mod 16 = (t - 14) mod 16" "t mod 16 = (t - 16) mod 16"
proof -
  have e: "t + 13 = (t - 3) + 16" "t + 8 = (t - 8) + 16" "t + 2 = (t - 14) + 16" using assms by simp_all
  show "(t + 13) mod 16 = (t - 3) mod 16" "(t + 8) mod 16 = (t - 8) mod 16" "(t + 2) mod 16 = (t - 14) mod 16"
    unfolding e by (rule mod_add_self2)+
  show "t mod 16 = (t - 16) mod 16" using assms by (rule le_mod_geq)
qed

lemma sched_update:
  assumes s: "sched blck t l"
  shows "sched blck (Suc t) (l[t mod 16 := schedule blck t])"
  unfolding sched_def
proof (intro conjI allI impI)
  fix j
  assume j: "j < Suc t \<and> Suc t \<le> j + 16"
  show "l[t mod 16 := schedule blck t] ! (j mod 16) = schedule blck j"
    using s j other_slot [of j t] by (cases "j = t") (auto simp: sched_def nth_list_update)
qed (use s in \<open>auto simp: sched_def nth_list_update\<close>)

lemma four_bytes: "length w = 4 \<Longrightarrow> \<exists>b0 b1 b2 b3. w = [b0, b1, b2, b3]"
  by (auto simp: length_Suc_conv numeral_eq_Suc)

lemma sched_word:
  assumes n: "length blck = 64" and s: "sched blck t l"
  shows "(if t < 16 then blk0 t l else blk t l) = (schedule blck t, l[t mod 16 := schedule blck t])"
proof (cases "t < 16")
  case True
  let ?w = "take 4 (drop (4 * t) blck)"
  have "length ?w = 4" using True n by simp
  then obtain b0 b1 b2 b3 where w: "?w = [b0, b1, b2, b3]"
    using four_bytes by blast
  have "l ! t = le32 ?w" using True s by (simp add: sched_def load_block_def)
  then show ?thesis
    using True swapped [of b0 b1 b2 b3] by (simp add: blk0_def Let_def schedule.simps w)
next
  case False
  then have "l ! ((t + 13) mod 16) = schedule blck (t - 3)" "l ! ((t + 8) mod 16) = schedule blck (t - 8)"
    "l ! ((t + 2) mod 16) = schedule blck (t - 14)" "l ! (t mod 16) = schedule blck (t - 16)"
    using s by (simp_all only: slots not_less sched_def) simp_all
  with False show ?thesis
    by (simp add: blk_def Let_def schedule.simps [of blck t] rol_rotl)
qed

lemma rounds_fips:
  assumes n: "length blck = 64"
  shows "sched blck t l \<Longrightarrow> \<exists>l'. rounds t k (r, l) = (fold (fips_round blck) [t ..< t + k] r, l')"
proof (induction k arbitrary: t r l)
  case 0
  then show ?case by simp
next
  case (Suc k)
  obtain a b c d e where r: "r = (a, b, c, d, e)" by (metis prod.exhaust)
  let ?l = "l[t mod 16 := schedule blck t]"
  have "sha_round t (r, l) = (fips_round blck t r, ?l)"
    using sched_word [OF n Suc.prems]
    by (simp add: sha_round_def r fips_round_def rol_rotl round_fun_fips algebra_simps)
  moreover obtain l' where "rounds (Suc t) k (fips_round blck t r, ?l)
      = (fold (fips_round blck) [Suc t ..< Suc t + k] (fips_round blck t r), l')"
    using Suc.IH [OF sched_update [OF Suc.prems]] by blast
  ultimately show ?case by (simp add: upt_conv_Cons del: upt_Suc)
qed

lemma transform_compress:
  assumes "length blck = 64"
  shows "SHA1Transform h blck = compress h blck"
proof -
  have "sched blck 0 (load_block blck)" by (simp add: sched_def load_block_def)
  from rounds_fips [OF assms this, of 80 h] obtain l' where
    "rounds 0 80 (h, load_block blck) = (fold (fips_round blck) [0 ..< 80] h, l')" by auto
  then show ?thesis
    by (cases h) (simp add: SHA1Transform_def compress_def Let_def algebra_simps del: upt_rec_numeral split: prod.split)
qed

section \<open>Streaming\<close>

text \<open>
  \<open>fed m c\<close>: the context \<open>c\<close> has been given \<open>m\<close>; the blocks of it are in the state, the rest in the
  buffer. The counter has its second word in use only from \<open>2 ^ 29\<close> bytes on.
\<close>

definition fed :: "bytes \<Rightarrow> sha1_ctx \<Rightarrow> bool" where
  "fed m c \<longleftrightarrow> length (buffer c) = 64 \<and> count0 c = of_nat (8 * length m) \<and> count1 c = 0
     \<and> transform_all initial_hash m = (state c, take (length m mod 64) (buffer c))"

lemma transform_all_step:
  "length b = 64 \<Longrightarrow> transform_all h (b @ d) = transform_all (SHA1Transform h b) d"
  by (subst transform_all.simps) simp

lemma transform_all_short: "length d < 64 \<Longrightarrow> transform_all h d = (h, d)"
  by (subst transform_all.simps) simp

lemma transform_all_append:
  "transform_all h (m @ d) = (case transform_all h m of (h', r) \<Rightarrow> transform_all h' (r @ d))"
proof (induction h m rule: transform_all.induct)
  case (1 h m)
  show ?case
  proof (cases "63 < length m")
    case True
    have "transform_all h (m @ d) = transform_all h (take 64 m @ (drop 64 m @ d))"
      by (simp add: append_assoc [symmetric] del: append_assoc)
    also have "\<dots> = transform_all (SHA1Transform h (take 64 m)) (drop 64 m @ d)"
      using True by (intro transform_all_step) simp
    finally show ?thesis using 1 True by (simp add: transform_all.simps [of h m])
  next
    case False
    then show ?thesis by (simp add: transform_all_short)
  qed
qed

lemma transform_all_rest: "length (snd (transform_all h m)) = length m mod 64"
proof (induction h m rule: transform_all.induct)
  case (1 h m)
  then show ?case
    by (cases "63 < length m") (auto simp: transform_all.simps [of h m] le_mod_geq)
qed

lemma unat_count: "k < 2 ^ 32 \<Longrightarrow> unat (of_nat k :: u32) = k"
  by (simp add: unat_of_nat take_bit_nat_eq_self)

lemma count_position:
  assumes "n < 2 ^ 29"
  shows "unat (drop_bit 3 (of_nat (8 * n) :: u32) AND 63) = n mod 64"
proof -
  have "(63 :: u32) = mask 6" by (simp add: mask_eq_exp_minus_1)
  then have "drop_bit 3 (of_nat (8 * n) :: u32) AND 63 = take_bit 6 (drop_bit 3 (of_nat (8 * n)))"
    by (simp only: take_bit_eq_mask)
  moreover have "unat (of_nat (8 * n) :: u32) = 8 * n"
    using assms by (intro unat_count) simp
  ultimately show ?thesis
    using assms by (simp only: unsigned_take_bit_eq unsigned_drop_bit_eq) (simp add: take_bit_eq_mod drop_bit_eq_div)
qed

lemma count_up:
  assumes "m + n < 2 ^ 29"
  shows "(of_nat (8 * m) :: u32) + push_bit 3 (of_nat n) = of_nat (8 * (m + n))"
    and "\<not> (of_nat (8 * (m + n)) :: u32) < of_nat (8 * m)" and "drop_bit 29 (of_nat n :: u32) = 0"
proof -
  show "(of_nat (8 * m) :: u32) + push_bit 3 (of_nat n) = of_nat (8 * (m + n))"
    by (simp add: push_bit_eq_mult algebra_simps)
  show "\<not> (of_nat (8 * (m + n)) :: u32) < of_nat (8 * m)"
    unfolding word_less_nat_alt using assms by (subst (1 2) unat_count) simp_all
  have "unat (drop_bit 29 (of_nat n :: u32)) = n div 2 ^ 29"
    using assms by (simp add: drop_bit_eq_div unat_div unat_count)
  then show "drop_bit 29 (of_nat n :: u32) = 0"
    using assms by (simp add: unat_eq_0 [symmetric])
qed

lemma update_fed:
  assumes f: "fed m c" and n: "length m + length d < 2 ^ 29"
  shows "fed (m @ d) (SHA1Update c d)"
proof -
  let ?j = "length m mod 64"
  have j: "unat (drop_bit 3 (count0 c) AND 63) = ?j"
    using f n count_position [of "length m"] by (simp add: fed_def)
  have z: "count1 c = 0" using f by (simp add: fed_def)
  have e: "count0 c = of_nat (8 * length m)" using f by (simp add: fed_def)
  have c: "count0 c + push_bit 3 (of_nat (length d)) = of_nat (8 * (length m + length d))"
    "\<not> count0 c + push_bit 3 (of_nat (length d)) < count0 c" "drop_bit 29 (of_nat (length d) :: u32) = 0"
    unfolding e count_up(1) [OF n] by (rule refl count_up(2,3) [OF n])+
  have all: "transform_all initial_hash (m @ d) = transform_all (state c) (take ?j (buffer c) @ d)"
    unfolding transform_all_append [of initial_hash m d] using f by (simp add: fed_def)
  have b: "length (buffer c) = 64" "?j < 64" using f by (simp_all add: fed_def)
  show ?thesis
  proof (cases "63 < ?j + length d")
    case True
    obtain full where full: "full = overwrite ?j (take (64 - ?j) d) (buffer c)" by simp
    have first: "full = take ?j (buffer c) @ take (64 - ?j) d" "length full = 64"
      using True b by (simp_all add: full overwrite_def)
    obtain h r where h: "transform_all (SHA1Transform (state c) full) (drop (64 - ?j) d) = (h, r)"
      by (rule that) (rule prod.collapse [symmetric])
    have "transform_all initial_hash (m @ d) = transform_all (state c) (full @ drop (64 - ?j) d)"
      unfolding all first(1) by simp
    then have t: "transform_all initial_hash (m @ d) = (h, r)"
      using transform_all_step [OF first(2)] h by simp
    have r: "length r = length (m @ d) mod 64" using transform_all_rest [of initial_hash "m @ d"] unfolding t by simp
    then have "length r < 64" by simp
    then have l: "length (overwrite 0 r full) = 64" and k: "take (length r) (overwrite 0 r full) = r"
      using first(2) by (simp_all add: overwrite_def)
    have u: "SHA1Update c d = \<lparr>state = h, count0 = of_nat (8 * (length m + length d)), count1 = 0,
        buffer = overwrite 0 r full\<rparr>"
      unfolding SHA1Update_def Let_def j c(1) if_P [OF True] full [symmetric] h prod.case
      using c(2) [unfolded c(1)] c(3) z by simp
    show ?thesis
      unfolding fed_def t u using l k [unfolded r]
      by (simp only: sha1_ctx.select_convs length_append simp_thms)
  next
    case False
    then have "transform_all initial_hash (m @ d) = (state c, take ?j (buffer c) @ d)"
      unfolding all using b by (intro transform_all_short) simp
    moreover have "take (length (m @ d) mod 64) (overwrite ?j d (buffer c)) = take ?j (buffer c) @ d"
    proof -
      have "length (m @ d) mod 64 = (?j + length d) mod 64" by (simp add: mod_add_left_eq)
      also have "\<dots> = ?j + length d" using False by (intro mod_less) simp
      finally show ?thesis using b False by (simp add: overwrite_def)
    qed
    moreover have "SHA1Update c d = c\<lparr>count0 := of_nat (8 * (length m + length d)), count1 := 0,
        buffer := overwrite ?j d (buffer c)\<rparr>"
      unfolding SHA1Update_def Let_def j c(1) if_not_P [OF False]
      using c(2) [unfolded c(1)] c(3) z by simp
    ultimately show ?thesis using False b by (simp add: fed_def)
  qed
qed

section \<open>Padding and digest\<close>

lemma byte_of_word: "(ucast (drop_bit k (w :: u32) AND 255) :: u8) = of_nat (unat w div 2 ^ k mod 256)"
proof -
  have w: "unat w < 4294967296" using unsigned_less [of w] by simp
  have "(255 :: u32) = mask 8" by (simp add: mask_eq_exp_minus_1)
  then have "drop_bit k w AND 255 = take_bit 8 (drop_bit k w)" by (simp only: take_bit_eq_mask)
  then have "unat (drop_bit k w AND 255) = unat w div 2 ^ k mod 256"
    using w by (simp only: unsigned_take_bit_eq unsigned_drop_bit_eq) (simp add: take_bit_eq_mod drop_bit_eq_div)
  then show ?thesis by (metis of_nat_unat)
qed

lemma to_be_4:
  "to_be 4 n = [of_nat (n div 2 ^ 24 mod 256), of_nat (n div 2 ^ 16 mod 256), of_nat (n div 2 ^ 8 mod 256), of_nat (n mod 256)]"
proof -
  have "to_be 4 n = to_be (Suc (Suc (Suc (Suc 0)))) n"
    by (rule arg_cong [of _ _ "\<lambda>k. to_be k n"]) simp
  then show ?thesis by (simp add: div_mult2_eq [symmetric])
qed

lemma to_be_zeros: "n < 256 ^ k \<Longrightarrow> to_be (j + k) n = replicate j 0 @ to_be k n"
proof (induction k arbitrary: n)
  case 0
  have "to_be j 0 = replicate j 0" by (induction j) (simp_all add: replicate_append_same)
  with 0 show ?case by simp
next
  case (Suc k)
  then have "n div 256 < 256 ^ k" by (simp add: less_mult_imp_div_less mult.commute)
  with Suc.IH show ?case by simp
qed

lemma to_be_8: "n < 2 ^ 32 \<Longrightarrow> to_be 8 n = [0, 0, 0, 0] @ to_be 4 n"
proof -
  assume "n < 2 ^ 32"
  then have "to_be (4 + 4) n = replicate 4 0 @ to_be 4 n" by (intro to_be_zeros) simp
  moreover have "replicate 4 (0 :: u8) = [0, 0, 0, 0]" by (simp add: numeral_eq_Suc)
  moreover have "(4 :: nat) + 4 = 8" by simp
  ultimately show ?thesis by (simp only:)
qed

lemma upt_8: "[0 ..< 8] = [0, 1, 2, 3, 4, 5, 6, 7 :: nat]"
  by (simp add: upt_rec)

lemma upt_20: "[0 ..< 20] = [0, 1, 2, 3, 4, 5, 6, 7, 8, 9, 10, 11, 12, 13, 14, 15, 16, 17, 18, 19 :: nat]"
  by (simp add: upt_rec)

lemma finalcount_fed:
  assumes "fed m c" and n: "length m < 2 ^ 29"
  shows "finalcount c = to_be 8 (8 * length m)"
proof -
  have c: "count0 c = of_nat (8 * length m)" "count1 c = 0" using assms by (simp_all add: fed_def)
  have u: "unat (of_nat (8 * length m) :: u32) = 8 * length m" using n by (intro unat_count) simp
  have t: "to_be 8 (8 * length m) = [0, 0, 0, 0] @ to_be 4 (8 * length m)" using n by (intro to_be_8) simp
  show ?thesis
    unfolding finalcount_def upt_8 c t to_be_4 by (simp add: byte_of_word u del: of_nat_mult)
qed

lemma digest_concat:
  "digest_of (a, b, c, d, e) = concat (map (\<lambda>w. to_be 4 (unat w)) [a, b, c, d, e])"
  unfolding digest_of_def upt_20 to_be_4 by (simp add: byte_of_word)

lemma position_56:
  assumes "n < 2 ^ 29"
  shows "(of_nat (8 * n) :: u32) AND 504 = 448 \<longleftrightarrow> n mod 64 = 56"
proof -
  have "(504 :: u32) = push_bit 3 (mask 6)" by (simp add: mask_eq_exp_minus_1 push_bit_eq_mult)
  moreover have "of_nat (8 * n) = push_bit 3 (of_nat n :: u32)" by (simp add: push_bit_eq_mult)
  ultimately have "(of_nat (8 * n) :: u32) AND 504 = push_bit 3 (take_bit 6 (of_nat n))"
    by (simp only: push_bit_and [symmetric] take_bit_eq_mask)
  also have "\<dots> = of_nat (8 * (n mod 64))"
    by (simp only: take_bit_of_nat) (simp add: push_bit_eq_mult take_bit_eq_mod)
  finally have "(of_nat (8 * n) :: u32) AND 504 = 448 \<longleftrightarrow> (of_nat (8 * (n mod 64)) :: u32) = of_nat 448" by simp
  also have "\<dots> \<longleftrightarrow> unat (of_nat (8 * (n mod 64)) :: u32) = unat (of_nat 448 :: u32)" by (simp only: word_unat_eq_iff)
  also have "\<dots> \<longleftrightarrow> 8 * (n mod 64) = 448" by (subst (1 2) unat_count) simp_all
  finally show ?thesis by simp
qed

lemma one_zero_more:
  "u < 64 \<Longrightarrow> u \<noteq> 56 \<Longrightarrow> (120 - u) mod 64 = Suc ((120 - (if Suc u = 64 then 0 else Suc u)) mod 64)"
  for u :: nat
  by (cases "u < 56") (simp_all add: mod_if, arith+)

lemma pad_zeros_fed:
  "fed m c \<Longrightarrow> length m + n < 2 ^ 29 \<Longrightarrow> (120 - length m mod 64) mod 64 \<le> n \<Longrightarrow>
     fed (m @ replicate ((120 - length m mod 64) mod 64) 0) (pad_zeros n c)"
proof (induction n arbitrary: m c)
  case 0
  then show ?case by simp
next
  case (Suc n)
  have e: "count0 c AND 504 = 448 \<longleftrightarrow> length m mod 64 = 56"
    using Suc.prems position_56 [of "length m"] by (simp add: fed_def)
  show ?case
  proof (cases "length m mod 64 = 56")
    case True
    with e Suc.prems(1) show ?thesis by simp
  next
    case False
    have k: "(120 - length m mod 64) mod 64 = Suc ((120 - length (m @ [0]) mod 64) mod 64)"
      using one_zero_more [of "length m mod 64"] False by (simp add: mod_Suc)
    have "fed (m @ [0]) (SHA1Update c [0])"
      using Suc.prems by (intro update_fed) simp_all
    then have "fed ((m @ [0]) @ replicate ((120 - length (m @ [0]) mod 64) mod 64) 0) (pad_zeros n (SHA1Update c [0]))"
      using Suc.prems(2,3) k by (intro Suc.IH) simp_all
    then show ?thesis using False e k by simp
  qed
qed

lemma transform_all_blocks:
  "length bs mod 64 = 0 \<Longrightarrow> transform_all h bs = (foldl compress h (blocks bs), [])"
proof (induction h bs rule: transform_all.induct)
  case (1 h bs)
  show ?case
  proof (cases "63 < length bs")
    case True
    then have "transform_all h bs = transform_all (compress h (take 64 bs)) (drop 64 bs)"
      by (simp add: transform_all.simps [of h bs] transform_compress)
    moreover have "length (drop 64 bs) mod 64 = 0"
      using "1.prems" True by (simp add: le_mod_geq)
    moreover have "blocks bs = take 64 bs # blocks (drop 64 bs)"
      using True by (subst blocks.simps) auto
    ultimately show ?thesis using "1.IH" True by (simp add: transform_compress)
  next
    case False
    with "1.prems" have "bs = []" by auto
    then show ?thesis by (simp add: transform_all_short blocks.simps)
  qed
qed

lemma padding_zeros: "(120 - Suc n mod 64) mod 64 = padding n"
proof -
  have "n mod 64 < 64" by simp
  then show ?thesis unfolding padding_def by (cases "n mod 64 = 63") (simp_all add: mod_Suc)
qed

lemma pad_length: "length (pad m) mod 64 = 0"
proof -
  have "length (pad m) = length m + 9 + padding (length m)" by (simp add: pad_def)
  moreover have "(n + 9 + padding n) mod 64 = 0" for n
  proof -
    have "(n + 9 + padding n) mod 64 = (n mod 64 + 9 + padding n) mod 64" by (metis add.assoc mod_add_left_eq)
    moreover have "u < 64 \<Longrightarrow> (u + 9 + (119 - u) mod 64) mod 64 = 0" for u :: nat
      by (cases "u < 56") (simp_all add: mod_if, arith)
    ultimately show ?thesis by (simp add: padding_def)
  qed
  ultimately show ?thesis by simp
qed



end
