(* ===== verification/Base64_Laws.thy ===== *)
theory Base64_Laws
  imports Base64
begin

text \<open>
  Encoding and decoding undo each other: the characters of a group of three bytes, the line breaks
  and the padding between and behind them, and the writing of the decoder in place.
\<close>

unbundle bit_operations_syntax

section \<open>Six bits\<close>

definition six_bits :: "u8 \<Rightarrow> bool" where
  "six_bits v \<longleftrightarrow> v AND 0x3f = v"

lemma decode_values: "list_all (\<lambda>k. base64_decode_value (base64_encode_value (of_nat k)) = Inr (int k)) [0 ..< 64]"
  by code_simp

lemma decode_encode_value:
  assumes "six_bits v"
  shows "base64_decode_value (base64_encode_value v) = Inr (uint v)"
proof -
  have "(0x3f :: u8) = mask 6" by (simp add: mask_eq_exp_minus_1)
  then have "v = take_bit 6 v" using assms by (simp only: six_bits_def take_bit_eq_mask)
  then have "unat v = take_bit 6 (unat v)" by (metis unsigned_take_bit_eq)
  moreover have "take_bit 6 (unat v) < 64" by (simp add: take_bit_eq_mod)
  ultimately have "unat v < 64" by simp
  with bspec [OF decode_values [unfolded list_all_iff], of "unat v"] show ?thesis by simp
qed

lemma byte_bits:
  fixes a b :: u8
  assumes "\<And>k. k \<in> {0, 1, 2, 3, 4, 5, 6, 7} \<Longrightarrow> bit a k = bit b k"
  shows "a = b"
proof (rule bit_word_eqI)
  fix k
  assume "k < LENGTH(8)"
  then have "k < 8" by simp
  then have "k = 0 \<or> k = 1 \<or> k = 2 \<or> k = 3 \<or> k = 4 \<or> k = 5 \<or> k = 6 \<or> k = 7" by presburger
  with assms show "bit a k = bit b k" by blast
qed

text \<open>The fragments of a group, and the bytes put together again.\<close>

definition frag1 :: "u8 \<Rightarrow> u8" where
  "frag1 a = drop_bit 2 (a AND 0xfc)"

definition frag2 :: "u8 \<Rightarrow> u8 \<Rightarrow> u8" where
  "frag2 a b = push_bit 4 (a AND 0x03) OR drop_bit 4 (b AND 0xf0)"

definition frag3 :: "u8 \<Rightarrow> u8 \<Rightarrow> u8" where
  "frag3 b c = push_bit 2 (b AND 0x0f) OR drop_bit 6 (c AND 0xc0)"

lemma frags_six: "six_bits (frag1 a)" "six_bits (frag2 a b)" "six_bits (frag3 b c)" "six_bits (c AND 0x3f)"
  unfolding six_bits_def frag1_def frag2_def frag3_def
  by (rule byte_bits; auto simp: bit_simps)+

lemma frags_bytes:
  "push_bit 2 (frag1 a AND 0x3f) OR drop_bit 4 (frag2 a b AND 0x30) = a"
  "push_bit 4 (frag2 a b AND 0x0f) OR drop_bit 2 (frag3 b c AND 0x3c) = b"
  "push_bit 6 (frag3 b c AND 0x03) OR ((c AND 0x3f) AND 0x3f) = c"
  unfolding frag1_def frag2_def frag3_def
  by (rule byte_bits; auto simp: bit_simps simp flip: numeral_2_eq_2 numeral_3_eq_3)+

section \<open>Decoding\<close>

text \<open>A character of a fragment is taken as the fragment.\<close>

lemma decode_a:
  "six_bits v \<Longrightarrow> p < length out \<Longrightarrow>
    decode_loop step_a (base64_encode_value v # cs) out p = decode_loop step_b cs (out[p := push_bit 2 (v AND 0x3f)]) p"
  by (simp add: decode_encode_value Let_def)

lemma decode_b:
  "six_bits v \<Longrightarrow> p + 1 < length out \<Longrightarrow>
    decode_loop step_b (base64_encode_value v # cs) (out[p := x]) p
      = decode_loop step_c cs (out[p := x OR drop_bit 4 (v AND 0x30), p + 1 := push_bit 4 (v AND 0x0f)]) (p + 1)"
  by (simp add: decode_encode_value Let_def or_at_def set_if_room_def)

lemma decode_c:
  "six_bits v \<Longrightarrow> p + 1 < length out \<Longrightarrow>
    decode_loop step_c (base64_encode_value v # cs) (out[p := x]) p
      = decode_loop step_d cs (out[p := x OR drop_bit 2 (v AND 0x3c), p + 1 := push_bit 6 (v AND 0x03)]) (p + 1)"
  by (simp add: decode_encode_value Let_def or_at_def set_if_room_def)

lemma decode_d:
  "six_bits v \<Longrightarrow> p < length out \<Longrightarrow>
    decode_loop step_d (base64_encode_value v # cs) (out[p := x]) p = decode_loop step_a cs (out[p := x OR (v AND 0x3f)]) (p + 1)"
  by (simp add: decode_encode_value Let_def or_at_def)

declare decode_loop.simps [simp del]

lemma decode_skips:
  assumes "p < length out" and "c \<in> {10, 0x3d}"
  shows "decode_loop st (c # cs) out p = decode_loop st cs out p"
proof -
  have "base64_decode_value 10 = Inr (- 1)" "base64_decode_value 0x3d = Inr (- 2)" by code_simp+
  with assms show ?thesis by (auto simp: decode_loop.simps)
qed

lemma decode_end: "decode_loop st [] out p = decode_stop out p"
  by (simp add: decode_loop.simps)

text \<open>
  \<open>decodes enc m\<close>: from the start of a group, the text is decoded to \<open>m\<close>, wherever in an area with a
  spare byte the decoder stands.
\<close>

definition decodes :: "bytes \<Rightarrow> bytes \<Rightarrow> bool" where
  "decodes enc m \<longleftrightarrow> (\<forall>out p. p + length m < length out \<longrightarrow>
     (\<exists>out'. decode_loop step_a enc out p = Inr (p + length m, out') \<and> length out' = length out
        \<and> take (p + length m) out' = take p out @ m))"

lemma decodes_empty: "decodes [] []"
  by (simp add: decodes_def decode_stop_def decode_end)

lemma decodes_newline: "decodes enc m \<Longrightarrow> decodes (10 # enc) m"
  by (auto simp: decodes_def decode_skips)

lemma decodes_group:
  assumes "decodes enc m"
  shows "decodes ([base64_encode_value (frag1 a), base64_encode_value (frag2 a b), base64_encode_value (frag3 b c),
    base64_encode_value (c AND 0x3f)] @ enc) ([a, b, c] @ m)"
  unfolding decodes_def
proof (intro allI impI)
  fix out :: bytes and p
  assume l: "p + length ([a, b, c] @ m) < length out"
  let ?out = "out[p := a, p + 1 := b, p + 1 + 1 := c]"
  let ?E = base64_encode_value
  have "decode_loop step_a ([?E (frag1 a), ?E (frag2 a b), ?E (frag3 b c), ?E (c AND 0x3f)] @ enc) out p
      = decode_loop step_b ([?E (frag2 a b), ?E (frag3 b c), ?E (c AND 0x3f)] @ enc) (out[p := push_bit 2 (frag1 a AND 0x3f)]) p"
    using l decode_a [OF frags_six(1)] by simp
  also have "\<dots> = decode_loop step_c ([?E (frag3 b c), ?E (c AND 0x3f)] @ enc)
      (out[p := a, p + 1 := push_bit 4 (frag2 a b AND 0x0f)]) (p + 1)"
    using l decode_b [OF frags_six(2) [of a b], of p out _ "push_bit 2 (frag1 a AND 0x3f)"] unfolding frags_bytes by simp
  also have "\<dots> = decode_loop step_d ([?E (c AND 0x3f)] @ enc)
      (out[p := a, p + 1 := b, p + 1 + 1 := push_bit 6 (frag3 b c AND 0x03)]) (p + 1 + 1)"
    using l decode_c [OF frags_six(3) [of b c], of "p + 1" "out[p := a]" _ "push_bit 4 (frag2 a b AND 0x0f)"]
    unfolding frags_bytes by simp
  also have "\<dots> = decode_loop step_a enc ?out (p + 3)"
    using l decode_d [OF frags_six(4) [of c], of "p + 1 + 1" "out[p := a, p + 1 := b]" _ "push_bit 6 (frag3 b c AND 0x03)"]
    unfolding frags_bytes by (simp add: numeral_3_eq_3)
  finally have "decode_loop step_a ([?E (frag1 a), ?E (frag2 a b), ?E (frag3 b c), ?E (c AND 0x3f)] @ enc) out p
      = decode_loop step_a enc ?out (p + 3)" .
  moreover from l have n: "p + 3 + length m < length ?out" by simp
  note assms [unfolded decodes_def, rule_format, OF n]
  moreover have "take (p + 3) ?out = take p out @ [a, b, c]"
    using l by (intro nth_equalityI) (auto simp: nth_append nth_list_update nth_Cons' min_def)
  ultimately show "\<exists>out'. decode_loop step_a ([base64_encode_value (frag1 a), base64_encode_value (frag2 a b),
        base64_encode_value (frag3 b c), base64_encode_value (c AND 0x3f)] @ enc) out p = Inr (p + length ([a, b, c] @ m), out')
      \<and> length out' = length out \<and> take (p + length ([a, b, c] @ m)) out' = take p out @ [a, b, c] @ m"
    by (auto simp: numeral_3_eq_3)
qed

text \<open>The last group, of one byte or two.\<close>

lemma decodes_one:
  "decodes [base64_encode_value (frag1 a), base64_encode_value (frag2 a 0), 0x3d, 0x3d] [a]"
  unfolding decodes_def
proof (intro allI impI)
  fix out :: bytes and p
  assume l: "p + length [a] < length out"
  let ?x = "out[p := a, p + 1 := push_bit 4 (frag2 a 0 AND 0x0f)]"
  have "decode_loop step_a [base64_encode_value (frag1 a), base64_encode_value (frag2 a 0), 0x3d, 0x3d] out p
      = decode_loop step_b [base64_encode_value (frag2 a 0), 0x3d, 0x3d] (out[p := push_bit 2 (frag1 a AND 0x3f)]) p"
    using l decode_a [OF frags_six(1)] by simp
  also have "\<dots> = decode_loop step_c [0x3d, 0x3d] ?x (p + 1)"
    using l decode_b [OF frags_six(2) [of a 0], of p out _ "push_bit 2 (frag1 a AND 0x3f)"] unfolding frags_bytes by simp
  also have "\<dots> = Inr (p + 1, ?x)"
    using l by (simp add: decode_skips decode_end decode_stop_def del: One_nat_def)
  finally show "\<exists>out'. decode_loop step_a [base64_encode_value (frag1 a), base64_encode_value (frag2 a 0), 0x3d, 0x3d] out p
        = Inr (p + length [a], out') \<and> length out' = length out \<and> take (p + length [a]) out' = take p out @ [a]"
    using l by (simp add: take_Suc_conv_app_nth)
qed

lemma decodes_two:
  "decodes [base64_encode_value (frag1 a), base64_encode_value (frag2 a b), base64_encode_value (frag3 b 0), 0x3d] [a, b]"
  unfolding decodes_def
proof (intro allI impI)
  fix out :: bytes and p
  assume l: "p + length [a, b] < length out"
  let ?E = base64_encode_value
  let ?x = "out[p := a, p + 1 := b, p + 1 + 1 := push_bit 6 (frag3 b 0 AND 0x03)]"
  have "decode_loop step_a [?E (frag1 a), ?E (frag2 a b), ?E (frag3 b 0), 0x3d] out p
      = decode_loop step_b [?E (frag2 a b), ?E (frag3 b 0), 0x3d] (out[p := push_bit 2 (frag1 a AND 0x3f)]) p"
    using l decode_a [OF frags_six(1)] by simp
  also have "\<dots> = decode_loop step_c [?E (frag3 b 0), 0x3d] (out[p := a, p + 1 := push_bit 4 (frag2 a b AND 0x0f)]) (p + 1)"
    using l decode_b [OF frags_six(2) [of a b], of p out _ "push_bit 2 (frag1 a AND 0x3f)"] unfolding frags_bytes by simp
  also have "\<dots> = decode_loop step_d [0x3d] ?x (p + 1 + 1)"
    using l decode_c [OF frags_six(3) [of b 0], of "p + 1" "out[p := a]" _ "push_bit 4 (frag2 a b AND 0x0f)"]
    unfolding frags_bytes by simp
  also have "\<dots> = Inr (p + 1 + 1, ?x)"
    using l by (simp add: decode_skips decode_end decode_stop_def del: One_nat_def)
  finally show "\<exists>out'. decode_loop step_a [?E (frag1 a), ?E (frag2 a b), ?E (frag3 b 0), 0x3d] out p
        = Inr (p + length [a, b], out') \<and> length out' = length out \<and> take (p + length [a, b]) out' = take p out @ [a, b]"
    using l by (simp add: take_Suc_conv_app_nth)
qed

section \<open>Encoding\<close>

text \<open>Twice the size and three bytes are room enough for the text, its line breaks included.\<close>

lemma encode_decodes:
  "2 * length m + 3 \<le> n \<Longrightarrow> \<exists>enc st'. encode_block step_A r sc m n acc st = (acc @ enc, st')
     \<and> length enc \<le> n \<and> decodes (enc @ encode_blockend (n - length enc) st') m"
proof (induction "length m" arbitrary: m r sc n acc rule: less_induct)
  case less
  consider "m = []" | a where "m = [a]" | a b where "m = [a, b]" | a b c bs where "m = a # b # c # bs"
    by (metis list.exhaust)
  then show ?case
  proof cases
    case 1
    then show ?thesis by (simp add: encode_blockend_def decodes_empty)
  next
    case (2 a)
    moreover have "\<not> n - 1 \<le> 2" "\<not> n - Suc 0 \<le> 2" "n \<noteq> 0" using 2 less.prems by simp_all
    ultimately show ?thesis using decodes_one [of a]
      by (simp add: encode_blockend_def frag1_def frag2_def)
  next
    case (3 a b)
    moreover have "\<not> n - 2 \<le> 1" "n \<noteq> 0" "\<not> n - 2 \<le> Suc 0" "\<not> n - Suc (Suc 0) \<le> Suc 0" "n - 1 \<noteq> 0" "n - Suc 0 \<noteq> 0" using 3 less.prems by simp_all
    ultimately show ?thesis using decodes_two [of a b]
      by (simp add: encode_blockend_def frag1_def frag2_def frag3_def)
  next
    case (4 a b c bs)
    let ?g = "[base64_encode_value (frag1 a), base64_encode_value (frag2 a b), base64_encode_value (frag3 b c),
      base64_encode_value (c AND 0x3f)]"
    let ?nl = "if (sc + 1) * 4 = 72 then [10] else [] :: bytes"
    let ?sc = "if (sc + 1) * 4 = 72 then 0 else sc + 1"
    have e: "encode_block step_A r sc m n acc st
        = encode_block step_A (c AND 0x3f) ?sc bs (n - length (?g @ ?nl)) (acc @ ?g @ ?nl) st"
    proof -
      from 4 less.prems obtain k where k: "n = Suc (Suc (Suc (Suc (Suc k))))"
        by (auto dest!: le_Suc_ex simp: numeral_eq_Suc)
      show ?thesis using 4 by (simp add: k frag1_def frag2_def frag3_def Let_def)
    qed
    have "2 * length bs + 3 \<le> n - length (?g @ ?nl)" using 4 less.prems by (auto simp: numeral_eq_Suc)
    with less.hyps [of bs] 4 obtain enc st' where t:
        "encode_block step_A (c AND 0x3f) ?sc bs (n - length (?g @ ?nl)) (acc @ ?g @ ?nl) st = ((acc @ ?g @ ?nl) @ enc, st')"
        "length enc \<le> n - length (?g @ ?nl)" "decodes (enc @ encode_blockend (n - length (?g @ ?nl) - length enc) st') bs"
      by (metis length_Cons less_SucI lessI)
    have "decodes (?nl @ enc @ encode_blockend (n - length (?g @ ?nl @ enc)) st') bs"
      using t(3) by (auto intro: decodes_newline simp: diff_diff_left)
    from decodes_group [OF this, of a b c]
    have "decodes ((?g @ ?nl @ enc) @ encode_blockend (n - length (?g @ ?nl @ enc)) st') m"
      using 4 by simp
    moreover have "length (?g @ ?nl @ enc) \<le> n" using t(2) 4 less.prems by (simp split: if_splits)
    ultimately show ?thesis using e t(1) by (metis append.assoc)
  qed
qed

text \<open>
  C31: Decoding what was encoded gives the bytes back, however many there are: line breaks and
  padding are passed over, and the decoder stays within its area, which has one byte to spare.
\<close>
theorem base64_roundtrip:
  assumes "2 * length m + 3 \<le> n" and "length m < length out"
  shows "\<exists>out'. base64_decode (base64_encode m n) out = Inr (length m, out')
     \<and> length out' = length out \<and> take (length m) out' = m"
proof -
  let ?s = "\<lparr>estep = step_A, eresult = 0, stepcount = 0\<rparr>"
  obtain enc st where e: "encode_block step_A 0 0 m n [] ?s = ([] @ enc, st)"
    and "decodes (enc @ encode_blockend (n - length enc) st) m"
    using encode_decodes [OF assms(1), of 0 0 "[]" ?s] by blast
  with e have "decodes (base64_encode m n) m" by (simp add: base64_encode_def)
  then have "0 + length m < length (out[0 := 0]) \<longrightarrow>
      (\<exists>out'. decode_loop step_a (base64_encode m n) (out[0 := 0]) 0 = Inr (0 + length m, out')
        \<and> length out' = length (out[0 := 0]) \<and> take (0 + length m) out' = take 0 (out[0 := 0]) @ m)"
    unfolding decodes_def by blast
  with assms(2) show ?thesis by (auto simp: base64_decode_def)
qed

theorem base64_roundtrip_witness:
  "\<exists>out'. base64_decode (base64_encode [0x54, 0x6e, 0x74, 0xff] 11) (replicate 5 7) = Inr (length [0x54, 0x6e, 0x74, 0xff :: u8], out')
     \<and> length out' = length (replicate 5 (7 :: u8))
     \<and> take (length [0x54, 0x6e, 0x74, 0xff :: u8]) out' = [0x54, 0x6e, 0x74, 0xff]"
  by (rule base64_roundtrip) simp_all

end
