(* ===== verification/Spec2Isabelle.thy ===== *)
theory Spec2Isabelle
  imports Misc Trace Request_Reading Writer_Bounds Mp_Floats Connection_Runs Connection_Opening Ev_Laws Sha1_Laws Base64_Laws
begin

text \<open>
  A verification development for cpp2tnt, a connector for Tarantool in C++17 that never blocks: it
  composes requests in MessagePack, sends and receives them over a socket it is told about by an
  event loop, and hands complete responses to the caller, who reads them through views.

  \<^bold>\<open>The program and its model.\<close> A member function is an operation of type \<^verbatim>\<open>('s, 'a) op\<close>
  (\<open>Prelude\<close>): it takes the object and gives its result or an exception, with the object as it is
  afterwards. An access outside of what an object owns is the error \<open>Overrun\<close>, a loop or a recursion
  that does not end within its fuel \<open>Diverged\<close>, an exception that leaves a \<^verbatim>\<open>noexcept\<close> function
  \<open>Terminated\<close>. Pointers into a buffer are offsets into its block;
  where the code keeps a pointer while its block may grow (\<open>mp_writer::write\<close>, composing in the send buffer),
  the use of it after the block has moved is an \<open>Overrun\<close>.

  \<^item> \<open>Wtf_Buffer\<close>: \<^verbatim>\<open>wtf_buffer.h\<close> and \<^verbatim>\<open>wtf_buffer.cpp\<close>, the growable buffer under everything else, with the
    interface \<open>byte_sink\<close>. \<open>Wtf_Stack\<close>: the stack of open containers, \<open>bounded_stack\<close>.
  \<^item> \<open>Msgpuck\<close>: the msgpuck library, a git submodule, as a record of functions and the locale \<open>msgpuck_lib\<close>
    of its documented behaviour over the wire format \<open>wire\<close>; \<open>Msgpack_Ref\<close> is a library that meets it.
  \<^item> \<open>Mp_Writer\<close>, \<open>Mp_Values\<close>: \<^verbatim>\<open>mp_writer.h\<close> and \<^verbatim>\<open>mp_writer.cpp\<close>; \<open>Writer_Laws\<close> says what an operation
    appends, \<open>Writer_Theorems\<close> draws the conclusions, \<open>Writer_Bounds\<close> says what happens when the buffer has no
    room (\<open>overflows\<close>), and has the writer over an array of its own.
  \<^item> \<open>Mp_Reader\<close>, \<open>Mp_Decode\<close>, \<open>Mp_Views\<close> (spans, arrays by index, points in time, the text of errors) and
    \<open>Mp_Floats\<close>: \<^verbatim>\<open>mp_reader.h\<close>; \<open>Reader_Laws\<close> relates typed reading to the values the bytes stand for,
    \<open>Reader_Theorems\<close> has the round trip with the writer, look-up and messages, \<open>Views_Theorems\<close> the items of
    spans; \<open>Request_Reading\<close> reads a composed request back, message, header and body.
  \<^item> \<open>Iproto\<close>, \<open>Iproto_Writer\<close>: \<^verbatim>\<open>iproto.h\<close>, \<^verbatim>\<open>iproto.cpp\<close>, \<^verbatim>\<open>iproto_writer.h\<close>, \<^verbatim>\<open>iproto_writer.cpp\<close>; \<open>Iproto_Laws\<close> shows
    what every request looks like, byte for byte. \<open>Sha1\<close>, \<open>Base64\<close>: \<^verbatim>\<open>third_party/sha1.c\<close> and
    \<^verbatim>\<open>third_party/base64.c\<close>, which the authentication scramble is computed with; \<open>Sha1_Laws\<close> compares
    the hash with the standard FIPS 180-4, \<open>Base64_Laws\<close> has the round trip of the encoding.
  \<^item> \<open>Cs_Parser\<close>: \<^verbatim>\<open>cs_parser.cpp\<close>, connection strings. \<open>Unique_Socket\<close>: \<^verbatim>\<open>unique_socket.cpp\<close>, the owner of a
    descriptor, over all objects of a program. \<open>Misc\<close>, \<open>Trace\<close>: \<^verbatim>\<open>hex_dump\<close> and \<^verbatim>\<open>get_trace\<close> of \<^verbatim>\<open>misc.cpp\<close>, the
    latter over the record \<open>os\<close> of what the system gives.
  \<^item> \<open>Connection\<close> (fields, errors, closing, sending), \<open>Connection_Receive\<close> (responses, greeting, login,
    reading) and \<open>Connection_Control\<close> (setters, opening, resolver, notifications, timeouts):
    \<^verbatim>\<open>connection.h\<close> and \<^verbatim>\<open>connection.cpp\<close>, on top of all of the above.
  \<^item> \<open>Ev_Adapter\<close>: \<^verbatim>\<open>ev4cpp2tnt.cpp\<close>, which puts connections into a libev loop; libev is the record \<open>libev\<close>
    with the locale \<open>libev_lib\<close>, which \<open>Ev_Laws\<close> interprets on a loop of its own.

  \<^bold>\<open>The connection and its surroundings.\<close> The outcomes of the system calls to come are scripts in the
  state, so that every split of the data by the network, every error and every interleaving with
  \<^verbatim>\<open>EAGAIN\<close> and \<^verbatim>\<open>EINTR\<close> is some script; what was sent, closed and called is a trace. The resolver thread is
  a step that pushes a notification. Callbacks are names that the environment maps to operations on
  the connection; most theorems ask of them to be \<open>quiet\<close>: they may throw and act on the world outside,
  but do not call back into the connection. Callbacks that are \<open>discreet\<close> may change all but the session,
  \<open>polite\<close> ones may call every operation except \<^verbatim>\<open>read\<close>. The record \<open>env\<close> also holds the library, the process
  environment and the texts of errors.

  \<^bold>\<open>How it is proved.\<close> \<open>Connection_Laws\<close> has a calculus of conditions on outcomes (\<open>outcome\<close>, \<open>firm\<close>,
  \<open>keeps\<close>), computed backwards through the constructs operations are made of, and the rules for
  callbacks. \<open>Connection_Sending\<close> proves the rule \<open>send_loop_rule\<close> for the loop of \<^verbatim>\<open>write\<close>, \<open>Connection_Receiving\<close>
  the rule \<open>recv_loop_rule\<close> for the loop of \<^verbatim>\<open>read\<close>; \<open>Connection_Framing\<close> goes on from bytes to responses,
  \<open>Connection_Login\<close> from the greeting to an open session, \<open>Connection_Handshake\<close> what the server announces
  (\<open>announced\<close>) and the request for authentication (\<open>auth_request\<close>), \<open>Connection_Opening\<close> the exchange as a whole,
  with every answer in pieces (\<open>served\<close>); \<open>Connection_Lifecycle\<close> covers opening, timeouts and notifications. \<open>Connection_Sound\<close> and \<open>Connection_Session\<close> show, operation by operation, what all of them
  maintain (\<open>sound\<close>: the buffers; \<open>coherent\<close>: the session); \<open>Connection_Runs\<close> makes the operations the steps of
  a transition system (\<open>conn_step\<close>, \<open>reached\<close>), so that both hold by rule induction in all states of a
  connection's life, and the session follows its automaton \<open>next_stages\<close>. The adapter's invariant \<open>ev_ok\<close> holds by rule induction in every state of \<open>adapter_run\<close>.

  \<^bold>\<open>Bounds and fuel.\<close> The loop of \<^verbatim>\<open>write\<close> takes an outcome off its script in every round, so that the
  length of the script is enough; a round of \<^verbatim>\<open>read\<close> takes a byte or an outcome (\<open>recv_weight\<close>). The detection
  of responses moves on by at least a byte and has the size of the buffer. \<open>depth\<close> bounds how deep a
  caller that throws from its response callback may make \<^verbatim>\<open>pass_response_to_caller\<close> recurse; 2 is enough
  for a \<open>quiet\<close> one. \<open>parse_cs\<close> is a partial function: \<open>None\<close> is a recursion through the environment that
  never ends. Loops over the items of a reader have the number of its bytes. Sizes of buffers are
  below \<open>2 ^ 62\<close>, bodies of messages below \<open>2 ^ 32\<close>, where a theorem says so.

  \<^bold>\<open>Not modelled.\<close> The conversion of decimal fractions by \<^verbatim>\<open>std::from_chars\<close>, which is an argument of reading
  floating point numbers; the unit a point in time is converted to. Errors carry their message; the dump
  behind it is \<open>error_text\<close>. Comparing spans with \<^verbatim>\<open>==\<close>, which does not compile. Options of sockets, the text of
  an \<^verbatim>\<open>errno\<close>; data races between threads; the tests, and the vendored function wrapper and test framework.
\<close>

end
